(* ===== verification/Prelude.thy ===== *)
theory Prelude
  imports Main "HOL-Library.Word" "HOL-Library.List_Lexorder" "HOL-Library.Sublist"
begin

text \<open>
  Shared types, automation and lemmas of the development.

  Machine integers are words: \<open>u8\<close>, \<open>u64\<close> (the binary is built with \<open>--release\<close>, so
  \<open>+\<close> and \<open>-\<close> wrap); \<open>B256\<close>, \<open>U256\<close> and \<open>Address\<close> are the 256 and 160 bit
  words their 32 and 20 byte arrays spell in big-endian order.  A Rust function that can fail
  returns a \<open>result\<close>; one that also changes shared state (the database behind an \<open>Arc\<close>,
  a cache behind a mutex) is a function from the state to a result and the state it leaves
  behind, also when it fails: what was written before an error stays written.
\<close>

section \<open>Types\<close>

type_synonym u8 = "8 word"
type_synonym u64 = "64 word"
type_synonym bytes = "8 word list"
type_synonym b256 = "256 word"
type_synonym u256 = "256 word"
type_synonym address = "160 word"

text \<open>
  An \<open>anyhow::Error\<close>.  \<open>Bail fmt args\<close> is an error the repository's code raises: the
  format string as it stands in the source and its integer arguments.  \<open>Ext txt\<close> is an error
  of a library or of the operating system with its text, \<open>Wrap fmt e\<close> an error whose
  message quotes another one.
\<close>

datatype error = Bail string "nat list" | Ext string | Wrap string error

text \<open>
  \<open>Panic\<close> is a Rust panic (an index or slice out of range, an \<open>unwrap\<close> of nothing); it is
  not an \<open>Err\<close>, no \<open>match\<close> of the code catches it.  \<open>Diverge\<close> is not an outcome of the
  code: a loop modelled with fuel returns it when the fuel runs out, and for every such loop a
  lemma shows that the fuel it is given is enough.
\<close>

datatype 'a result = Ok 'a | Err error | Panic | Diverge

type_synonym ('s, 'a) M = "'s \<Rightarrow> 'a result \<times> 's"

section \<open>Sequencing: the question-mark operator\<close>

named_theorems monad_simps "unfolding of the sequencing operators"

definition bindR :: "'a result \<Rightarrow> ('a \<Rightarrow> 'b result) \<Rightarrow> 'b result" where
  "bindR r f = (case r of Ok x \<Rightarrow> f x | Err e \<Rightarrow> Err e | Panic \<Rightarrow> Panic | Diverge \<Rightarrow> Diverge)"

definition bindM :: "('s, 'a) M \<Rightarrow> ('a \<Rightarrow> ('s, 'b) M) \<Rightarrow> ('s, 'b) M" where
  "bindM m f = (\<lambda>s. case m s of (r, s') \<Rightarrow>
     (case r of Ok x \<Rightarrow> f x s' | Err e \<Rightarrow> (Err e, s') | Panic \<Rightarrow> (Panic, s') | Diverge \<Rightarrow> (Diverge, s')))"

definition okM :: "'a \<Rightarrow> ('s, 'a) M" where
  "okM x = (\<lambda>s. (Ok x, s))"

definition bailM :: "error \<Rightarrow> ('s, 'a) M" where
  "bailM e = (\<lambda>s. (Err e, s))"

definition liftR :: "'a result \<Rightarrow> ('s, 'a) M" where
  "liftR r = (\<lambda>s. (r, s))"

text \<open>\<open>readM f\<close> is a call that only reads the state.\<close>

definition readM :: "('s \<Rightarrow> 'a result) \<Rightarrow> ('s, 'a) M" where
  "readM f = (\<lambda>s. (f s, s))"

text \<open>\<open>matchM m ok err\<close> is \<open>match m { Ok(x) => ok(x), Err(e) => err(e) }\<close>.\<close>

definition matchM :: "('s, 'a) M \<Rightarrow> ('a \<Rightarrow> ('s, 'b) M) \<Rightarrow> (error \<Rightarrow> ('s, 'b) M) \<Rightarrow> ('s, 'b) M" where
  "matchM m ok err = (\<lambda>s. case m s of (r, s') \<Rightarrow>
     (case r of Ok x \<Rightarrow> ok x s' | Err e \<Rightarrow> err e s' | Panic \<Rightarrow> (Panic, s') | Diverge \<Rightarrow> (Diverge, s')))"

text \<open>\<open>mapErr r f\<close> is \<open>r.map_err(f)\<close>.\<close>

definition mapErr :: "'a result \<Rightarrow> (error \<Rightarrow> error) \<Rightarrow> 'a result" where
  "mapErr r f = (case r of Err e \<Rightarrow> Err (f e) | Ok x \<Rightarrow> Ok x | Panic \<Rightarrow> Panic | Diverge \<Rightarrow> Diverge)"

lemma bindR_simps [simp]:
  "bindR (Ok x) f = f x" "bindR (Err e) f = Err e" "bindR Panic f = Panic" "bindR Diverge f = Diverge"
  by (simp_all add: bindR_def)

lemma mapErr_simps [simp]:
  "mapErr (Ok x) g = Ok x" "mapErr (Err e) g = Err (g e)" "mapErr Panic g = Panic"
  "mapErr Diverge g = Diverge"
  by (simp_all add: mapErr_def)

lemma bindR_Ok_iff: "bindR r f = Ok y \<longleftrightarrow> (\<exists>x. r = Ok x \<and> f x = Ok y)"
  by (cases r) auto

lemma bindR_Panic_iff: "bindR r f = Panic \<longleftrightarrow> r = Panic \<or> (\<exists>x. r = Ok x \<and> f x = Panic)"
  by (cases r) auto

text \<open>\<open>returns r\<close>: the call comes back, with a value or an error.\<close>

definition returns :: "'a result \<Rightarrow> bool" where
  "returns r \<longleftrightarrow> r \<noteq> Panic \<and> r \<noteq> Diverge"

lemma returns_simps [simp]: "returns (Ok x)" "returns (Err e)" "\<not> returns Panic" "\<not> returns Diverge"
  by (simp_all add: returns_def)

lemma returns_cases: "returns r \<longleftrightarrow> (\<exists>x. r = Ok x) \<or> (\<exists>e. r = Err e)"
  by (cases r) simp_all

lemma returns_bindR:
  "returns r \<Longrightarrow> (\<And>x. r = Ok x \<Longrightarrow> returns (f x)) \<Longrightarrow> returns (bindR r f)"
  by (cases r) simp_all

lemma bindM_Ok_iff:
  "bindM m f s = (Ok y, t) \<longleftrightarrow> (\<exists>x s'. m s = (Ok x, s') \<and> f x s' = (Ok y, t))"
  by (auto simp: bindM_def split: prod.splits result.splits)

text \<open>The same as rewrite rules, for an action whose outcome is known.\<close>

lemma bindM_ok: "m s = (Ok x, s') \<Longrightarrow> bindM m f s = f x s'"
  by (simp add: bindM_def)

lemma bindM_err: "m s = (Err e, s') \<Longrightarrow> bindM m f s = (Err e, s')"
  by (simp add: bindM_def)

lemma matchM_ok: "m s = (Ok x, s') \<Longrightarrow> matchM m f g s = f x s'"
  by (simp add: matchM_def)

lemma matchM_err: "m s = (Err e, s') \<Longrightarrow> matchM m f g s = g e s'"
  by (simp add: matchM_def)

lemmas [monad_simps] = bindM_def okM_def bailM_def liftR_def readM_def matchM_def

section \<open>Slices and text\<close>

definition slice_to :: "nat \<Rightarrow> 'a list \<Rightarrow> 'a list result" where
  "slice_to n xs = (if n \<le> length xs then Ok (take n xs) else Panic)"

definition slice_from :: "nat \<Rightarrow> 'a list \<Rightarrow> 'a list result" where
  "slice_from n xs = (if n \<le> length xs then Ok (drop n xs) else Panic)"

lemma slice_to_append [simp]: "slice_to (length xs) (xs @ ys) = Ok xs"
  by (simp add: slice_to_def)

lemma slice_from_append [simp]: "slice_from (length xs) (xs @ ys) = Ok ys"
  by (simp add: slice_from_def)

fun contains_text :: "string \<Rightarrow> string \<Rightarrow> bool" where
  "contains_text pat [] = (pat = [])"
| "contains_text pat (c # cs) = (take (length pat) (c # cs) = pat \<or> contains_text pat cs)"

text \<open>
  \<open>e.to_string().contains("not found")\<close>: the arguments of a format are integers, which
  cannot contribute to the words looked for.
\<close>

fun says_not_found :: "error \<Rightarrow> bool" where
  "says_not_found (Bail fmt args) = contains_text ''not found'' fmt"
| "says_not_found (Ext txt) = contains_text ''not found'' txt"
| "says_not_found (Wrap fmt e) = (contains_text ''not found'' fmt \<or> says_not_found e)"

section \<open>Saturating arithmetic of u64\<close>

lemma unat_lt2p: "unat (a :: 'a::len word) < 2 ^ LENGTH('a)"
  by (rule unsigned_less)

lemma unat_max_u64 [simp]: "unat (- 1 :: u64) = 18446744073709551615"
  by (simp add: unsigned_minus_1_eq_mask mask_eq_exp_minus_1)

definition sat_add :: "u64 \<Rightarrow> u64 \<Rightarrow> u64" where
  "sat_add a b = (if unat a + unat b < 2 ^ 64 then a + b else - 1)"

definition sat_sub :: "u64 \<Rightarrow> u64 \<Rightarrow> u64" where
  "sat_sub a b = (if b \<le> a then a - b else 0)"

definition sat_mul :: "u64 \<Rightarrow> u64 \<Rightarrow> u64" where
  "sat_mul a b = (if unat a * unat b < 2 ^ 64 then a * b else - 1)"

text \<open>\<open>Ord::clamp\<close> panics when the bounds are reversed.\<close>

definition clamp_u64 :: "u64 \<Rightarrow> u64 \<Rightarrow> u64 \<Rightarrow> u64 result" where
  "clamp_u64 x lo hi = (if lo \<le> hi then Ok (if x < lo then lo else if hi < x then hi else x) else Panic)"

lemma unat_sat_sub: "unat (sat_sub a b) = unat a - unat b"
  by (simp add: sat_sub_def unat_sub word_le_nat_alt)

lemma unat_sat_add: "unat (sat_add a b) = min (unat a + unat b) (2 ^ 64 - 1)"
  by (auto simp: sat_add_def unat_word_ariths)

lemma unat_of_nat64: "n < 2 ^ 64 \<Longrightarrow> unat (of_nat n :: u64) = n"
  by (simp add: unat_of_nat take_bit_nat_eq_self)

lemma unat_plus64: "unat a + unat b < 2 ^ 64 \<Longrightarrow> unat (a + b :: u64) = unat a + unat b"
  by (simp add: unat_word_ariths)

lemma unat_Suc64: "unat a + 1 < 2 ^ 64 \<Longrightarrow> unat (a + 1 :: u64) = Suc (unat a)"
  by (simp add: unat_word_ariths)

lemma unat_lt64 [simp]: "unat (a :: u64) < 18446744073709551616"
  using unat_lt2p [of a] by simp

lemma of_nat_unat_eq: "of_nat n = (w :: u64) \<Longrightarrow> n < 2 ^ 64 \<Longrightarrow> unat w = n"
  by (auto simp: unat_of_nat64)

section \<open>Big-endian byte strings\<close>

fun be_nat :: "nat \<Rightarrow> nat \<Rightarrow> bytes" where
  "be_nat 0 x = []"
| "be_nat (Suc n) x = be_nat n (x div 256) @ [of_nat x]"

fun nat_be :: "bytes \<Rightarrow> nat" where
  "nat_be [] = 0"
| "nat_be (b # bs) = unat b * 256 ^ length bs + nat_be bs"

lemma length_be_nat [simp]: "length (be_nat n x) = n"
  by (induction n arbitrary: x) auto

lemma nat_be_append: "nat_be (xs @ ys) = nat_be xs * 256 ^ length ys + nat_be ys"
  by (induction xs) (auto simp: algebra_simps power_add)

lemma unat_of_nat_byte: "unat (of_nat x :: u8) = x mod 256"
  by (simp add: unat_of_nat take_bit_eq_mod)

lemma nat_be_be_nat: "nat_be (be_nat n x) = x mod 256 ^ n"
proof (induction n arbitrary: x)
  case 0
  then show ?case by simp
next
  case (Suc n)
  have "x div 256 mod 256 ^ n * 256 + x mod 256 = x mod (256 ^ Suc n)"
    by (simp add: mod_mult2_eq)
  then show ?case by (simp add: nat_be_append Suc unat_of_nat_byte)
qed

lemma nat_be_lt: "nat_be bs < 256 ^ length bs"
proof (induction bs)
  case Nil
  then show ?case by simp
next
  case (Cons b bs)
  have "unat b + 1 \<le> 256" using unat_lt2p [of b] by simp
  then have "(unat b + 1) * 256 ^ length bs \<le> 256 * 256 ^ length bs" by (rule mult_le_mono1)
  then have "unat b * 256 ^ length bs + 256 ^ length bs \<le> 256 ^ length (b # bs)"
    by (simp only: add_mult_distrib mult_1 list.size power_Suc add_Suc_right add_0_right)
  with Cons show ?case by (simp only: nat_be.simps)
qed

lemma nat_be_inj: "length xs = length ys \<Longrightarrow> nat_be xs = nat_be ys \<Longrightarrow> xs = ys"
proof (induction xs ys rule: list_induct2)
  case Nil
  then show ?case by simp
next
  case (Cons x xs y ys)
  let ?p = "256 ^ length ys :: nat"
  have lt: "nat_be xs < ?p" "nat_be ys < ?p"
    using Cons.hyps nat_be_lt [of xs] nat_be_lt [of ys] by auto
  have eq: "unat x * ?p + nat_be xs = unat y * ?p + nat_be ys"
    using Cons.prems Cons.hyps by simp
  have "unat x = (unat x * ?p + nat_be xs) div ?p" using lt by simp
  also have "\<dots> = unat y" unfolding eq using lt by simp
  finally have "x = y" by (simp add: word_unat_eq_iff)
  with eq Cons.IH show ?case by simp
qed

lemma be_nat_nat_be: "be_nat (length bs) (nat_be bs) = bs"
  by (rule nat_be_inj) (simp_all add: nat_be_be_nat nat_be_lt)

text \<open>Byte strings of one length compare, as lists, as the numbers they spell.\<close>

lemma nat_be_less_iff: "length xs = length ys \<Longrightarrow> xs < ys \<longleftrightarrow> nat_be xs < nat_be ys"
proof (induction xs ys rule: list_induct2)
  case Nil
  then show ?case by simp
next
  case (Cons x xs y ys)
  let ?p = "256 ^ length ys :: nat"
  have lt: "nat_be xs < ?p" "nat_be ys < ?p"
    using Cons.hyps nat_be_lt [of xs] nat_be_lt [of ys] by auto
  consider (less) "x < y" | (eq) "x = y" | (greater) "y < x" by fastforce
  then show ?case
  proof cases
    case less
    then have "Suc (unat x) \<le> unat y" by (simp add: word_less_nat_alt)
    then have "Suc (unat x) * ?p \<le> unat y * ?p" by (rule mult_le_mono1)
    then have "unat x * ?p + nat_be xs < unat y * ?p + nat_be ys" using lt by simp
    then show ?thesis using less Cons.hyps by simp
  next
    case eq
    then show ?thesis using Cons by simp
  next
    case greater
    then have "Suc (unat y) \<le> unat x" by (simp add: word_less_nat_alt)
    then have "Suc (unat y) * ?p \<le> unat x * ?p" by (rule mult_le_mono1)
    then have "\<not> unat x * ?p + nat_be xs < unat y * ?p + nat_be ys" using lt by simp
    moreover have "\<not> x < y" "x \<noteq> y" using greater by auto
    ultimately show ?thesis using Cons.hyps by simp
  qed
qed

lemma append_less_append_iff: "(p @ xs :: 'a::order list) < p @ ys \<longleftrightarrow> xs < ys"
  by (induction p) simp_all

text \<open>\<open>x.to_be_bytes()\<close> and \<open>from_be_bytes\<close> for the widths the code uses.\<close>

definition be64 :: "u64 \<Rightarrow> bytes" where
  "be64 x = be_nat 8 (unat x)"

definition un_be64 :: "bytes \<Rightarrow> u64" where
  "un_be64 bs = of_nat (nat_be bs)"

definition be256 :: "256 word \<Rightarrow> bytes" where
  "be256 x = be_nat 32 (unat x)"

definition un_be256 :: "bytes \<Rightarrow> 256 word" where
  "un_be256 bs = of_nat (nat_be bs)"

definition be160 :: "address \<Rightarrow> bytes" where
  "be160 x = be_nat 20 (unat x)"

definition un_be160 :: "bytes \<Rightarrow> address" where
  "un_be160 bs = of_nat (nat_be bs)"

lemma length_be [simp]: "length (be64 x) = 8" "length (be256 y) = 32" "length (be160 z) = 20"
  by (simp_all add: be64_def be256_def be160_def)

lemma be_neq_Nil [simp]: "be64 x \<noteq> []" "be256 y \<noteq> []" "be160 z \<noteq> []"
  by (simp_all flip: length_greater_0_conv)

lemma un_be64_be64 [simp]: "un_be64 (be64 x) = x"
  using unat_lt2p [of x] by (simp add: un_be64_def be64_def nat_be_be_nat)

lemma un_be256_be256 [simp]: "un_be256 (be256 x) = x"
  using unat_lt2p [of x] by (simp add: un_be256_def be256_def nat_be_be_nat)

lemma un_be160_be160 [simp]: "un_be160 (be160 x) = x"
  using unat_lt2p [of x] by (simp add: un_be160_def be160_def nat_be_be_nat)

lemma be64_un_be64: "length bs = 8 \<Longrightarrow> be64 (un_be64 bs) = bs"
  using nat_be_lt [of bs] be_nat_nat_be [of bs]
  by (simp add: un_be64_def be64_def unat_of_nat64)

lemma be256_un_be256: "length bs = 32 \<Longrightarrow> be256 (un_be256 bs) = bs"
  using nat_be_lt [of bs] be_nat_nat_be [of bs]
  by (simp add: un_be256_def be256_def unat_of_nat take_bit_nat_eq_self)

lemma be160_un_be160: "length bs = 20 \<Longrightarrow> be160 (un_be160 bs) = bs"
  using nat_be_lt [of bs] be_nat_nat_be [of bs]
  by (simp add: un_be160_def be160_def unat_of_nat take_bit_nat_eq_self)

lemma be64_inj [simp]: "be64 x = be64 y \<longleftrightarrow> x = y"
  by (metis un_be64_be64)

lemma be256_inj [simp]: "be256 x = be256 y \<longleftrightarrow> x = y"
  by (metis un_be256_be256)

lemma be160_inj [simp]: "be160 x = be160 y \<longleftrightarrow> x = y"
  by (metis un_be160_be160)

lemma be64_less_iff: "be64 x < be64 y \<longleftrightarrow> x < y"
  using unat_lt2p [of x] unat_lt2p [of y]
  by (simp add: be64_def nat_be_less_iff nat_be_be_nat word_less_nat_alt)

lemma be64_le_iff: "be64 x \<le> be64 y \<longleftrightarrow> x \<le> y"
  by (auto simp: le_less be64_less_iff)

end
