(* ===== verification/Codec.thy ===== *)
theory Codec
  imports Prelude
begin

text \<open>
  The interface \<open>Encodable\<close>/\<open>Decodable\<close> of the crate \<open>alloy_rlp\<close>.  The crate is not part
  of the repository: its codecs for integers, fixed and variable byte strings and its list
  headers are the parameter \<open>rlp\<close>, and the locale \<open>alloy_rlp\<close> states what the crate
  documents of them and the code relies on.  The locale \<open>codec\<close> is the contract of one codec;
  the codecs the repository itself writes (message headers, messages, results) are proved to
  satisfy it in the theories that define them.
\<close>

section \<open>One codec\<close>

record 'a codec =
  enc :: "'a \<Rightarrow> bytes"
  enc_len :: "'a \<Rightarrow> nat"
  dec :: "bytes \<Rightarrow> ('a \<times> bytes) result"

text \<open>
  \<open>Decodable::decode(buf)\<close> reads one value off the front of \<open>buf\<close> and leaves the rest;
  \<open>Encodable::length\<close> is the length of the encoding.  On any bytes a decoder comes back, with
  a value or an error.
\<close>

locale codec =
  fixes c :: "'a codec"
  assumes dec_enc [simp]: "dec c (enc c x @ rest) = Ok (x, rest)"
    and enc_len [simp]: "enc_len c x = length (enc c x)"
    and enc_nonempty: "enc c x \<noteq> []"
    and dec_returns: "returns (dec c buf)"
begin

lemma dec_enc_nil [simp]: "dec c (enc c x) = Ok (x, [])"
  using dec_enc [of x "[]"] by simp

lemma enc_inj: "enc c x = enc c y \<longleftrightarrow> x = y"
  by (metis dec_enc_nil prod.inject result.inject(1))

lemma enc_prefix_free: "enc c x @ xs = enc c y @ ys \<Longrightarrow> x = y \<and> xs = ys"
  by (metis dec_enc prod.inject result.inject(1))

end

section \<open>The crate\<close>

record rlp =
  rlp_u8 :: "u8 codec"
  rlp_u64 :: "u64 codec"
  rlp_address :: "address codec"
  rlp_b256 :: "b256 codec"
  rlp_u256 :: "u256 codec"
  rlp_bytes :: "bytes codec"
  rlp_header_enc :: "bool \<Rightarrow> nat \<Rightarrow> bytes"
  rlp_header_len :: "bool \<Rightarrow> nat \<Rightarrow> nat"
  rlp_header_dec :: "bytes \<Rightarrow> ((bool \<times> nat) \<times> bytes) result"

text \<open>
  A list header with its payload length is read back when the payload is there in full, and a
  header is only accepted when its payload is (otherwise the crate reports \<open>InputTooShort\<close>):
  the slices the code takes after decoding a header cannot be out of range.  A 32-byte string is
  the byte \<open>0xa0\<close> (\<open>0x80 + 32\<close>) and its 32 bytes.
\<close>

locale alloy_rlp =
  fixes R :: rlp
  assumes u8_codec: "codec (rlp_u8 R)"
    and u64_codec: "codec (rlp_u64 R)"
    and address_codec: "codec (rlp_address R)"
    and b256_codec: "codec (rlp_b256 R)"
    and u256_codec: "codec (rlp_u256 R)"
    and bytes_codec: "codec (rlp_bytes R)"
    and header_dec_enc: "n \<le> length rest \<Longrightarrow>
      rlp_header_dec R (rlp_header_enc R True n @ rest) = Ok ((True, n), rest)"
    and header_dec_bound: "rlp_header_dec R buf = Ok ((l, n), rest) \<Longrightarrow> n \<le> length rest"
    and header_dec_returns: "returns (rlp_header_dec R buf)"
    and header_len: "rlp_header_len R l n = length (rlp_header_enc R l n)"
    and header_nonempty: "rlp_header_enc R l n \<noteq> []"
    and b256_bytes: "enc (rlp_b256 R) h = 0xa0 # be256 h"
begin

sublocale u8: codec "rlp_u8 R" by (rule u8_codec)
sublocale u64: codec "rlp_u64 R" by (rule u64_codec)
sublocale address: codec "rlp_address R" by (rule address_codec)
sublocale b256: codec "rlp_b256 R" by (rule b256_codec)
sublocale u256: codec "rlp_u256 R" by (rule u256_codec)
sublocale bytes: codec "rlp_bytes R" by (rule bytes_codec)

end

section \<open>Lists of fields\<close>

text \<open>
  Every list codec of the repository has the same frame: a list header with the payload length,
  the fields, and on the way back the payload cut out of the buffer, the fields read from it and
  the buffer advanced past it.
\<close>

definition decode_list :: "rlp \<Rightarrow> error \<Rightarrow> (bytes \<Rightarrow> ('a \<times> bytes) result) \<Rightarrow> bytes \<Rightarrow> ('a \<times> bytes) result" where
  "decode_list R not_list get_fields buf =
     bindR (rlp_header_dec R buf) (\<lambda>((is_list, payload_length), buf).
     if \<not> is_list then Err not_list
     else
     bindR (slice_to payload_length buf) (\<lambda>bytes.
     bindR (get_fields bytes) (\<lambda>(x, _).
     bindR (slice_from payload_length buf) (\<lambda>buf.
     Ok (x, buf)))))"

context alloy_rlp begin

lemma decode_list_encoded:
  assumes "get_fields payload = Ok (x, ys)"
  shows "decode_list R e get_fields (rlp_header_enc R True (length payload) @ payload @ rest) = Ok (x, rest)"
  using assms by (simp add: decode_list_def header_dec_enc)

text \<open>Decoding a list comes back when its fields do: the slices are in range.\<close>

lemma decode_list_returns:
  assumes "\<And>b. returns (get_fields b)"
  shows "returns (decode_list R e get_fields buf)"
  using assms header_dec_returns [of buf]
  by (auto simp: decode_list_def slice_to_def slice_from_def
      dest!: header_dec_bound intro!: returns_bindR)

end

end
