(* ===== verification/L1.thy ===== *)
theory L1
  imports Codec
begin

text \<open>
  \<open>crates/primitives/src/l1.rs\<close> and \<open>accumulator.rs\<close>: the messages the parent chain
  delivers, their two wire formats (the RLP codecs and the fixed \<open>legacy\<close> layout), the hash
  that chains them into the delayed accumulator, and the init message.
  \<open>keccak\<close> is a parameter of the definitions that hash.
\<close>

section \<open>Data\<close>

record L1IncomingMessageHeader =
  kind :: u8
  poster :: address
  block_number :: u64
  timestamp :: u64
  request_id :: "b256 option"
  l1_base_fee :: u256

record L1IncomingMessage =
  header :: L1IncomingMessageHeader
  l2msg :: bytes
  batch_gas_cost :: "u64 option"

type_synonym keccak = "bytes \<Rightarrow> b256"

definition hash_after :: "keccak \<Rightarrow> b256 \<Rightarrow> bytes \<Rightarrow> b256" where
  "hash_after keccak256 prev msg = keccak256 (be256 prev @ msg)"

definition seq_num :: "L1IncomingMessageHeader \<Rightarrow> u64 result" where
  "seq_num h =
     (case request_id h of
        None \<Rightarrow> Err (Bail ''no requestId'' [])
      | Some req \<Rightarrow>
          (if unat req > 2 ^ 64 - 1 then Err (Bail ''bad requestId'' [])
           else Ok (of_nat (unat req))))"

section \<open>RLP codecs\<close>

definition L1IncomingMessageHeader_payload :: "rlp \<Rightarrow> L1IncomingMessageHeader \<Rightarrow> bytes" where
  "L1IncomingMessageHeader_payload R h =
     enc (rlp_u8 R) (kind h)
     @ enc (rlp_address R) (poster h)
     @ enc (rlp_u64 R) (block_number h)
     @ enc (rlp_u64 R) (timestamp h)
     @ (case request_id h of Some req \<Rightarrow> enc (rlp_b256 R) req | None \<Rightarrow> [0xc0])
     @ enc (rlp_u256 R) (l1_base_fee h)"

definition L1IncomingMessageHeader_payload_len :: "rlp \<Rightarrow> L1IncomingMessageHeader \<Rightarrow> nat" where
  "L1IncomingMessageHeader_payload_len R h =
     enc_len (rlp_u8 R) (kind h)
     + enc_len (rlp_address R) (poster h)
     + enc_len (rlp_u64 R) (block_number h)
     + enc_len (rlp_u64 R) (timestamp h)
     + (case request_id h of Some req \<Rightarrow> enc_len (rlp_b256 R) req | None \<Rightarrow> 1)
     + enc_len (rlp_u256 R) (l1_base_fee h)"

definition L1IncomingMessageHeader_length :: "rlp \<Rightarrow> L1IncomingMessageHeader \<Rightarrow> nat" where
  "L1IncomingMessageHeader_length R h =
     (let payload_len = L1IncomingMessageHeader_payload_len R h
      in rlp_header_len R True payload_len + payload_len)"

definition L1IncomingMessageHeader_encode :: "rlp \<Rightarrow> L1IncomingMessageHeader \<Rightarrow> bytes" where
  "L1IncomingMessageHeader_encode R h =
     rlp_header_enc R True (L1IncomingMessageHeader_payload_len R h)
     @ L1IncomingMessageHeader_payload R h"

definition L1IncomingMessageHeader_fields ::
    "rlp \<Rightarrow> bytes \<Rightarrow> (L1IncomingMessageHeader \<times> bytes) result" where
  "L1IncomingMessageHeader_fields R bytes =
     bindR (dec (rlp_u8 R) bytes) (\<lambda>(knd, bytes).
     bindR (dec (rlp_address R) bytes) (\<lambda>(pst, bytes).
     bindR (dec (rlp_u64 R) bytes) (\<lambda>(bn, bytes).
     bindR (dec (rlp_u64 R) bytes) (\<lambda>(ts, bytes).
     bindR (case bytes of
              [] \<Rightarrow> Err (Ext ''input too short'')
            | req_peek # rest \<Rightarrow>
                (if req_peek = 0xc0 then Ok (None, rest)
                 else bindR (dec (rlp_b256 R) bytes) (\<lambda>(req, bytes). Ok (Some req, bytes))))
     (\<lambda>(req, bytes).
     bindR (dec (rlp_u256 R) bytes) (\<lambda>(fee, bytes).
     Ok (\<lparr>kind = knd, poster = pst, block_number = bn, timestamp = ts, request_id = req,
          l1_base_fee = fee\<rparr>, bytes)))))))"

definition L1IncomingMessageHeader_decode ::
    "rlp \<Rightarrow> bytes \<Rightarrow> (L1IncomingMessageHeader \<times> bytes) result" where
  "L1IncomingMessageHeader_decode R =
     decode_list R (Bail ''expected list for L1IncomingMessageHeader'' [])
       (L1IncomingMessageHeader_fields R)"

definition header_codec :: "rlp \<Rightarrow> L1IncomingMessageHeader codec" where
  "header_codec R = \<lparr>enc = L1IncomingMessageHeader_encode R,
     enc_len = L1IncomingMessageHeader_length R, dec = L1IncomingMessageHeader_decode R\<rparr>"

definition L1IncomingMessage_payload_len :: "rlp \<Rightarrow> L1IncomingMessage \<Rightarrow> nat" where
  "L1IncomingMessage_payload_len R m =
     L1IncomingMessageHeader_length R (header m)
     + enc_len (rlp_bytes R) (l2msg m)
     + (case batch_gas_cost m of Some g \<Rightarrow> enc_len (rlp_u64 R) g | None \<Rightarrow> 0)"

definition L1IncomingMessage_length :: "rlp \<Rightarrow> L1IncomingMessage \<Rightarrow> nat" where
  "L1IncomingMessage_length R m =
     (let payload_len = L1IncomingMessage_payload_len R m
      in rlp_header_len R True payload_len + payload_len)"

definition L1IncomingMessage_encode :: "rlp \<Rightarrow> L1IncomingMessage \<Rightarrow> bytes" where
  "L1IncomingMessage_encode R m =
     rlp_header_enc R True (L1IncomingMessage_payload_len R m)
     @ L1IncomingMessageHeader_encode R (header m)
     @ enc (rlp_bytes R) (l2msg m)
     @ (case batch_gas_cost m of Some g \<Rightarrow> enc (rlp_u64 R) g | None \<Rightarrow> [])"

definition L1IncomingMessage_fields :: "rlp \<Rightarrow> bytes \<Rightarrow> (L1IncomingMessage \<times> bytes) result" where
  "L1IncomingMessage_fields R bytes =
     bindR (L1IncomingMessageHeader_decode R bytes) (\<lambda>(hdr, bytes).
     bindR (dec (rlp_bytes R) bytes) (\<lambda>(l2, bytes).
     bindR (if bytes \<noteq> [] then bindR (dec (rlp_u64 R) bytes) (\<lambda>(g, bytes). Ok (Some g, bytes))
            else Ok (None, bytes))
     (\<lambda>(gas, bytes).
     Ok (\<lparr>header = hdr, l2msg = l2, batch_gas_cost = gas\<rparr>, bytes))))"

definition L1IncomingMessage_decode :: "rlp \<Rightarrow> bytes \<Rightarrow> (L1IncomingMessage \<times> bytes) result" where
  "L1IncomingMessage_decode R =
     decode_list R (Bail ''expected list for L1IncomingMessage'' []) (L1IncomingMessage_fields R)"

definition message_codec :: "rlp \<Rightarrow> L1IncomingMessage codec" where
  "message_codec R = \<lparr>enc = L1IncomingMessage_encode R,
     enc_len = L1IncomingMessage_length R, dec = L1IncomingMessage_decode R\<rparr>"

lemma codec_sels [simp]:
  "enc (header_codec R) = L1IncomingMessageHeader_encode R"
  "enc_len (header_codec R) = L1IncomingMessageHeader_length R"
  "dec (header_codec R) = L1IncomingMessageHeader_decode R"
  "enc (message_codec R) = L1IncomingMessage_encode R"
  "enc_len (message_codec R) = L1IncomingMessage_length R"
  "dec (message_codec R) = L1IncomingMessage_decode R"
  by (simp_all add: header_codec_def message_codec_def)

context alloy_rlp begin

lemma header_payload_len:
  "L1IncomingMessageHeader_payload_len R h = length (L1IncomingMessageHeader_payload R h)"
  by (simp add: L1IncomingMessageHeader_payload_len_def L1IncomingMessageHeader_payload_def
      split: option.split)

lemma header_fields_payload:
  "L1IncomingMessageHeader_fields R (L1IncomingMessageHeader_payload R h) = Ok (h, [])"
proof (cases "request_id h")
  case None
  then show ?thesis
    by (simp add: L1IncomingMessageHeader_fields_def L1IncomingMessageHeader_payload_def)
next
  case (Some r)
  have "dec (rlp_b256 R) (0xa0 # be256 r @ ys) = Ok (r, ys)" for ys
    using b256.dec_enc [of r ys] by (simp add: b256_bytes)
  with Some show ?thesis
    by (simp add: L1IncomingMessageHeader_fields_def L1IncomingMessageHeader_payload_def b256_bytes)
qed

sublocale header: codec "header_codec R"
proof
  fix h rest
  show "dec (header_codec R) (enc (header_codec R) h @ rest) = Ok (h, rest)"
    using decode_list_encoded [where get_fields = "L1IncomingMessageHeader_fields R",
        OF header_fields_payload [of h]]
    by (simp add: L1IncomingMessageHeader_encode_def L1IncomingMessageHeader_decode_def
        header_payload_len)
  show "enc_len (header_codec R) h = length (enc (header_codec R) h)"
    by (simp add: L1IncomingMessageHeader_encode_def L1IncomingMessageHeader_length_def
        header_payload_len header_len Let_def)
  show "enc (header_codec R) h \<noteq> []"
    by (simp add: L1IncomingMessageHeader_encode_def header_nonempty)
  show "returns (dec (header_codec R) rest)"
    by (auto simp: L1IncomingMessageHeader_decode_def L1IncomingMessageHeader_fields_def
        intro!: decode_list_returns returns_bindR u8.dec_returns address.dec_returns u64.dec_returns
          b256.dec_returns u256.dec_returns split: list.split)
qed

lemma message_payload_len:
  "L1IncomingMessage_payload_len R m =
     length (L1IncomingMessageHeader_encode R (header m) @ enc (rlp_bytes R) (l2msg m)
       @ (case batch_gas_cost m of Some g \<Rightarrow> enc (rlp_u64 R) g | None \<Rightarrow> []))"
  using header.enc_len [of "header m"]
  by (simp add: L1IncomingMessage_payload_len_def split: option.split)

lemma message_fields_payload:
  "L1IncomingMessage_fields R (L1IncomingMessageHeader_encode R (header m)
     @ enc (rlp_bytes R) (l2msg m)
     @ (case batch_gas_cost m of Some g \<Rightarrow> enc (rlp_u64 R) g | None \<Rightarrow> [])) = Ok (m, [])"
  using header.dec_enc [of "header m"] u64.enc_nonempty
  by (simp add: L1IncomingMessage_fields_def split: option.split)

sublocale message: codec "message_codec R"
proof
  fix m rest
  show "dec (message_codec R) (enc (message_codec R) m @ rest) = Ok (m, rest)"
    using decode_list_encoded [where get_fields = "L1IncomingMessage_fields R",
        OF message_fields_payload [of m]]
    by (simp add: L1IncomingMessage_encode_def L1IncomingMessage_decode_def message_payload_len)
  show "enc_len (message_codec R) m = length (enc (message_codec R) m)"
    by (simp add: L1IncomingMessage_encode_def L1IncomingMessage_length_def
        message_payload_len header_len Let_def)
  show "enc (message_codec R) m \<noteq> []"
    by (simp add: L1IncomingMessage_encode_def header_nonempty)
  show "returns (dec (message_codec R) rest)"
    using header.dec_returns
    by (auto simp: L1IncomingMessage_decode_def L1IncomingMessage_fields_def
        intro!: decode_list_returns returns_bindR bytes.dec_returns u64.dec_returns)
qed

end

section \<open>The legacy layout\<close>

text \<open>\<open>Cursor::read_exact\<close> fails, consuming nothing the caller will look at, when too little is left.\<close>

definition read_exact :: "nat \<Rightarrow> bytes \<Rightarrow> (bytes \<times> bytes) result" where
  "read_exact n r =
     (if n \<le> length r then Ok (take n r, drop n r) else Err (Ext ''failed to fill whole buffer''))"

definition read_u64_be :: "bytes \<Rightarrow> (u64 \<times> bytes) result" where
  "read_u64_be r = bindR (read_exact 8 r) (\<lambda>(b, r). Ok (un_be64 b, r))"

definition parse_incoming_l1_message_legacy :: "bytes \<Rightarrow> L1IncomingMessage result" where
  "parse_incoming_l1_message_legacy bytes =
     bindR (read_exact 1 bytes) (\<lambda>(kind_buf, rdr).
     bindR (read_exact 32 rdr) (\<lambda>(addr32, rdr).
     bindR (read_u64_be rdr) (\<lambda>(bn, rdr).
     bindR (read_u64_be rdr) (\<lambda>(ts, rdr).
     bindR (read_exact 32 rdr) (\<lambda>(req, rdr).
     bindR (read_exact 32 rdr) (\<lambda>(basefee_hash, rdr).
     Ok \<lparr>header = \<lparr>kind = hd kind_buf,
                    poster = un_be160 (drop 12 addr32),
                    block_number = bn,
                    timestamp = ts,
                    request_id = Some (un_be256 req),
                    l1_base_fee = un_be256 basefee_hash\<rparr>,
         l2msg = rdr,
         batch_gas_cost = None\<rparr>))))))"

definition serialize_incoming_l1_message_legacy :: "L1IncomingMessage \<Rightarrow> bytes result" where
  "serialize_incoming_l1_message_legacy msg =
     (case request_id (header msg) of
        None \<Rightarrow> Err (Bail ''cannot serialize without requestId'' [])
      | Some req \<Rightarrow>
          Ok ([kind (header msg)]
              @ replicate 12 0
              @ be160 (poster (header msg))
              @ be64 (block_number (header msg))
              @ be64 (timestamp (header msg))
              @ be256 req
              @ be256 (l1_base_fee (header msg))
              @ l2msg msg))"

lemma read_exact_append [simp]: "n = length xs \<Longrightarrow> read_exact n (xs @ ys) = Ok (xs, ys)"
  by (simp add: read_exact_def)

lemma read_u64_be_append [simp]: "read_u64_be (be64 x @ ys) = Ok (x, ys)"
  by (simp add: read_u64_be_def)

lemma parse_legacy_layout:
  assumes "length pad = 12"
  shows "parse_incoming_l1_message_legacy
     (k # pad @ be160 p @ be64 b @ be64 t @ be256 r @ be256 f @ l2) =
     Ok \<lparr>header = \<lparr>kind = k, poster = p, block_number = b, timestamp = t, request_id = Some r,
           l1_base_fee = f\<rparr>, l2msg = l2, batch_gas_cost = None\<rparr>"
proof -
  have "read_exact 1 (k # xs) = Ok ([k], xs)" for xs
    by (simp add: read_exact_def)
  moreover have "read_exact 32 (pad @ be160 p @ xs) = Ok (pad @ be160 p, xs)" for xs
    using assms read_exact_append [of 32 "pad @ be160 p" xs] by simp
  ultimately show ?thesis using assms by (simp add: parse_incoming_l1_message_legacy_def)
qed

lemma parse_serialize_legacy:
  "serialize_incoming_l1_message_legacy msg = Ok bs \<Longrightarrow>
   parse_incoming_l1_message_legacy bs = Ok (msg\<lparr>batch_gas_cost := None\<rparr>)"
  using parse_legacy_layout [of "replicate 12 0"]
  by (auto simp: serialize_incoming_l1_message_legacy_def split: option.splits)

text \<open>What the parser accepts, piece by piece.\<close>

lemma read_exact_Ok_iff: "read_exact n r = Ok (x, r') \<longleftrightarrow> length x = n \<and> r = x @ r'"
  by (auto simp: read_exact_def)

lemma read_u64_be_Ok_iff: "read_u64_be r = Ok (x, r') \<longleftrightarrow> r = be64 x @ r'"
  by (auto simp: read_u64_be_def bindR_Ok_iff read_exact_Ok_iff be64_un_be64 intro: exI [of _ "be64 x"])

lemma parse_legacy_Ok_iff:
  "parse_incoming_l1_message_legacy bs = Ok msg \<longleftrightarrow>
   batch_gas_cost msg = None \<and>
   (\<exists>pad req. length pad = 12 \<and> request_id (header msg) = Some req \<and>
     bs = kind (header msg) # pad @ be160 (poster (header msg)) @ be64 (block_number (header msg))
       @ be64 (timestamp (header msg)) @ be256 req @ be256 (l1_base_fee (header msg)) @ l2msg msg)"
  (is "?L \<longleftrightarrow> ?R")
proof
  assume ?R
  then show ?L by (auto simp: parse_legacy_layout)
next
  assume ?L
  then obtain kb a32 r1 bn r2 ts r3 req r4 fee r5 r6 where
      "read_exact 1 bs = Ok (kb, r1)" "read_exact 32 r1 = Ok (a32, r2)"
      "read_u64_be r2 = Ok (bn, r3)" "read_u64_be r3 = Ok (ts, r4)"
      "read_exact 32 r4 = Ok (req, r5)" "read_exact 32 r5 = Ok (fee, r6)"
    and m: "msg = \<lparr>header = \<lparr>kind = hd kb, poster = un_be160 (drop 12 a32), block_number = bn,
        timestamp = ts, request_id = Some (un_be256 req), l1_base_fee = un_be256 fee\<rparr>,
        l2msg = r6, batch_gas_cost = None\<rparr>"
    by (auto simp: parse_incoming_l1_message_legacy_def bindR_Ok_iff)
  then have bs: "bs = kb @ a32 @ be64 bn @ be64 ts @ req @ fee @ r6"
    and len: "length kb = 1" "length a32 = 32" "length req = 32" "length fee = 32"
    by (auto simp: read_exact_Ok_iff read_u64_be_Ok_iff)
  have "kb = [hd kb]" using len by (cases kb) auto
  moreover have "a32 = take 12 a32 @ be160 (un_be160 (drop 12 a32))"
    using len by (simp add: be160_un_be160)
  ultimately show ?R
    using m bs len
    by (auto simp: be256_un_be256 intro!: exI [of _ "take 12 a32"])
qed

lemma parse_legacy_returns: "returns (parse_incoming_l1_message_legacy bs)"
  by (auto simp: parse_incoming_l1_message_legacy_def read_u64_be_def read_exact_def
      intro!: returns_bindR)

section \<open>The body hash\<close>

text \<open>
  The buffer \<open>delayed_message_body_hash\<close> hashes.  A \<open>U256\<close> has exactly 32 big-endian bytes,
  so the padding and cutting of the base fee in the source never apply.
\<close>

definition delayed_message_body :: "keccak \<Rightarrow> L1IncomingMessage \<Rightarrow> bytes" where
  "delayed_message_body keccak256 msg =
     [kind (header msg)]
     @ be160 (poster (header msg))
     @ be64 (block_number (header msg))
     @ be64 (timestamp (header msg))
     @ (case request_id (header msg) of Some req \<Rightarrow> be256 req | None \<Rightarrow> [])
     @ (let base_fee_be = be256 (l1_base_fee (header msg)) in
        if length base_fee_be < 32 then replicate (32 - length base_fee_be) 0 @ base_fee_be
        else if length base_fee_be > 32 then drop (length base_fee_be - 32) base_fee_be
        else base_fee_be)
     @ be256 (keccak256 (l2msg msg))"

definition delayed_message_body_hash :: "keccak \<Rightarrow> L1IncomingMessage \<Rightarrow> b256" where
  "delayed_message_body_hash keccak256 msg = keccak256 (delayed_message_body keccak256 msg)"

lemma delayed_message_body_inj:
  assumes "delayed_message_body K m = delayed_message_body K m'"
  shows "header m = header m' \<and> K (l2msg m) = K (l2msg m')"
proof -
  have "length (delayed_message_body K m) = length (delayed_message_body K m')"
    using assms by simp
  then have "(request_id (header m) = None) = (request_id (header m') = None)"
    by (auto simp: delayed_message_body_def split: option.splits)
  with assms show ?thesis
    by (auto simp: delayed_message_body_def L1IncomingMessageHeader.equality split: option.splits)
qed

section \<open>The init message\<close>

record ParsedInitMessage =
  chain_id :: u256
  initial_l1_base_fee :: u256
  chain_config_json :: "bytes option"

definition chain_id_u64 :: "ParsedInitMessage \<Rightarrow> u64 option" where
  "chain_id_u64 p = (if unat (chain_id p) > 2 ^ 64 - 1 then None else Some (of_nat (unat (chain_id p))))"

text \<open>The slices of the source are guarded by the length tests around them.\<close>

definition parse_init_message :: "L1IncomingMessage \<Rightarrow> ParsedInitMessage result" where
  "parse_init_message msg =
     (if kind (header msg) \<noteq> 11
      then Err (Bail ''invalid init message kind {}'' [unat (kind (header msg))])
      else
      let default_basefee = 100000000; data = l2msg msg in
      if length data = 32 then
        Ok \<lparr>chain_id = un_be256 (take 32 data), initial_l1_base_fee = default_basefee,
            chain_config_json = None\<rparr>
      else if length data > 32 then
        let cid = un_be256 (take 32 data); version = data ! 32 in
        if version = 1 then
          if length data < 33 + 32 then Err (Bail ''init message v1 too short for basefee'' [])
          else
            Ok \<lparr>chain_id = cid, initial_l1_base_fee = un_be256 (take 32 (drop 33 data)),
                chain_config_json = (if length data > 65 then Some (drop 65 data) else None)\<rparr>
        else if version = 0 then
          Ok \<lparr>chain_id = cid, initial_l1_base_fee = default_basefee,
              chain_config_json = (if length data > 33 then Some (drop 33 data) else None)\<rparr>
        else Err (Bail ''unknown init message version {}'' [unat version])
      else Err (Bail ''invalid init message payload'' []))"

end
