(* ===== verification/Message.thy ===== *)
theory Message
  imports L1
begin

text \<open>
  \<open>crates/primitives/src/message.rs\<close>: a message of the chain with the number of delayed
  messages read up to it, the records the streamer stores about it, and their RLP codecs.
\<close>

record MessageWithMetadata =
  message :: L1IncomingMessage
  delayed_messages_read :: u64

record MessageWithMetadataAndBlockInfo =
  message_with_meta :: MessageWithMetadata
  block_hash :: "b256 option"
  block_metadata :: "bytes option"

record BlockHashDbValue =
  bh_block_hash :: "b256 option"

record MessageResult =
  res_block_hash :: b256
  send_root :: b256

section \<open>MessageWithMetadata\<close>

definition MessageWithMetadata_payload_len :: "rlp \<Rightarrow> MessageWithMetadata \<Rightarrow> nat" where
  "MessageWithMetadata_payload_len R m =
     L1IncomingMessage_length R (message m) + enc_len (rlp_u64 R) (delayed_messages_read m)"

definition MessageWithMetadata_length :: "rlp \<Rightarrow> MessageWithMetadata \<Rightarrow> nat" where
  "MessageWithMetadata_length R m =
     (let payload_len = MessageWithMetadata_payload_len R m
      in rlp_header_len R True payload_len + payload_len)"

definition MessageWithMetadata_encode :: "rlp \<Rightarrow> MessageWithMetadata \<Rightarrow> bytes" where
  "MessageWithMetadata_encode R m =
     rlp_header_enc R True (MessageWithMetadata_payload_len R m)
     @ L1IncomingMessage_encode R (message m)
     @ enc (rlp_u64 R) (delayed_messages_read m)"

definition MessageWithMetadata_fields :: "rlp \<Rightarrow> bytes \<Rightarrow> (MessageWithMetadata \<times> bytes) result" where
  "MessageWithMetadata_fields R bytes =
     bindR (L1IncomingMessage_decode R bytes) (\<lambda>(msg, bytes).
     bindR (dec (rlp_u64 R) bytes) (\<lambda>(dmr, bytes).
     Ok (\<lparr>message = msg, delayed_messages_read = dmr\<rparr>, bytes)))"

definition MessageWithMetadata_decode :: "rlp \<Rightarrow> bytes \<Rightarrow> (MessageWithMetadata \<times> bytes) result" where
  "MessageWithMetadata_decode R =
     decode_list R (Bail ''expected list for MessageWithMetadata'' []) (MessageWithMetadata_fields R)"

definition mwm_codec :: "rlp \<Rightarrow> MessageWithMetadata codec" where
  "mwm_codec R = \<lparr>enc = MessageWithMetadata_encode R,
     enc_len = MessageWithMetadata_length R, dec = MessageWithMetadata_decode R\<rparr>"

section \<open>BlockHashDbValue\<close>

definition BlockHashDbValue_length :: "rlp \<Rightarrow> BlockHashDbValue \<Rightarrow> nat" where
  "BlockHashDbValue_length R v =
     (case bh_block_hash v of Some h \<Rightarrow> enc_len (rlp_b256 R) h | None \<Rightarrow> 1)"

definition BlockHashDbValue_encode :: "rlp \<Rightarrow> BlockHashDbValue \<Rightarrow> bytes" where
  "BlockHashDbValue_encode R v =
     (case bh_block_hash v of Some h \<Rightarrow> enc (rlp_b256 R) h | None \<Rightarrow> [0x80])"

definition BlockHashDbValue_decode :: "rlp \<Rightarrow> bytes \<Rightarrow> (BlockHashDbValue \<times> bytes) result" where
  "BlockHashDbValue_decode R buf =
     (if buf \<noteq> [] \<and> hd buf = 0x80 then Ok (\<lparr>bh_block_hash = None\<rparr>, tl buf)
      else bindR (dec (rlp_b256 R) buf) (\<lambda>(h, buf). Ok (\<lparr>bh_block_hash = Some h\<rparr>, buf)))"

definition bh_codec :: "rlp \<Rightarrow> BlockHashDbValue codec" where
  "bh_codec R = \<lparr>enc = BlockHashDbValue_encode R,
     enc_len = BlockHashDbValue_length R, dec = BlockHashDbValue_decode R\<rparr>"

section \<open>MessageResult\<close>

definition MessageResult_payload_len :: "rlp \<Rightarrow> MessageResult \<Rightarrow> nat" where
  "MessageResult_payload_len R r =
     enc_len (rlp_b256 R) (res_block_hash r) + enc_len (rlp_b256 R) (send_root r)"

definition MessageResult_length :: "rlp \<Rightarrow> MessageResult \<Rightarrow> nat" where
  "MessageResult_length R r =
     (let payload_len = MessageResult_payload_len R r
      in rlp_header_len R True payload_len + payload_len)"

definition MessageResult_encode :: "rlp \<Rightarrow> MessageResult \<Rightarrow> bytes" where
  "MessageResult_encode R r =
     rlp_header_enc R True (MessageResult_payload_len R r)
     @ enc (rlp_b256 R) (res_block_hash r)
     @ enc (rlp_b256 R) (send_root r)"

definition MessageResult_fields :: "rlp \<Rightarrow> bytes \<Rightarrow> (MessageResult \<times> bytes) result" where
  "MessageResult_fields R bytes =
     bindR (dec (rlp_b256 R) bytes) (\<lambda>(bh, bytes).
     bindR (dec (rlp_b256 R) bytes) (\<lambda>(sr, bytes).
     Ok (\<lparr>res_block_hash = bh, send_root = sr\<rparr>, bytes)))"

definition MessageResult_decode :: "rlp \<Rightarrow> bytes \<Rightarrow> (MessageResult \<times> bytes) result" where
  "MessageResult_decode R =
     decode_list R (Bail ''expected list for MessageResult'' []) (MessageResult_fields R)"

definition result_codec :: "rlp \<Rightarrow> MessageResult codec" where
  "result_codec R = \<lparr>enc = MessageResult_encode R,
     enc_len = MessageResult_length R, dec = MessageResult_decode R\<rparr>"

section \<open>The codecs satisfy the contract\<close>

lemma message_codec_sels [simp]:
  "enc (mwm_codec R) = MessageWithMetadata_encode R"
  "enc_len (mwm_codec R) = MessageWithMetadata_length R"
  "dec (mwm_codec R) = MessageWithMetadata_decode R"
  "enc (bh_codec R) = BlockHashDbValue_encode R"
  "enc_len (bh_codec R) = BlockHashDbValue_length R"
  "dec (bh_codec R) = BlockHashDbValue_decode R"
  "enc (result_codec R) = MessageResult_encode R"
  "enc_len (result_codec R) = MessageResult_length R"
  "dec (result_codec R) = MessageResult_decode R"
  by (simp_all add: mwm_codec_def bh_codec_def result_codec_def)

context alloy_rlp begin

lemma mwm_payload_len:
  "MessageWithMetadata_payload_len R m =
     length (L1IncomingMessage_encode R (message m) @ enc (rlp_u64 R) (delayed_messages_read m))"
  using message.enc_len [of "message m"] by (simp add: MessageWithMetadata_payload_len_def)

lemma mwm_fields_payload:
  "MessageWithMetadata_fields R
     (L1IncomingMessage_encode R (message m) @ enc (rlp_u64 R) (delayed_messages_read m)) = Ok (m, [])"
  using message.dec_enc [of "message m"] by (simp add: MessageWithMetadata_fields_def)

sublocale mwm: codec "mwm_codec R"
proof
  fix m rest
  show "dec (mwm_codec R) (enc (mwm_codec R) m @ rest) = Ok (m, rest)"
    using decode_list_encoded [where get_fields = "MessageWithMetadata_fields R",
        OF mwm_fields_payload [of m]]
    by (simp add: MessageWithMetadata_encode_def MessageWithMetadata_decode_def mwm_payload_len)
  show "enc_len (mwm_codec R) m = length (enc (mwm_codec R) m)"
    by (simp add: MessageWithMetadata_encode_def MessageWithMetadata_length_def
        mwm_payload_len header_len Let_def)
  show "enc (mwm_codec R) m \<noteq> []"
    by (simp add: MessageWithMetadata_encode_def header_nonempty)
  show "returns (dec (mwm_codec R) rest)"
    using message.dec_returns
    by (auto simp: MessageWithMetadata_decode_def MessageWithMetadata_fields_def
        intro!: decode_list_returns returns_bindR u64.dec_returns)
qed

sublocale bh: codec "bh_codec R"
proof
  fix v :: BlockHashDbValue and rest
  have "dec (rlp_b256 R) (0xa0 # be256 h @ rest) = Ok (h, rest)" for h
    using b256.dec_enc [of h rest] by (simp add: b256_bytes)
  then show "dec (bh_codec R) (enc (bh_codec R) v @ rest) = Ok (v, rest)"
    by (simp add: BlockHashDbValue_encode_def BlockHashDbValue_decode_def b256_bytes
        split: option.split)
  show "enc_len (bh_codec R) v = length (enc (bh_codec R) v)"
    by (simp add: BlockHashDbValue_encode_def BlockHashDbValue_length_def split: option.split)
  show "enc (bh_codec R) v \<noteq> []"
    by (simp add: BlockHashDbValue_encode_def b256.enc_nonempty split: option.split)
  show "returns (dec (bh_codec R) rest)"
    by (auto simp: BlockHashDbValue_decode_def intro!: returns_bindR b256.dec_returns)
qed

lemma result_payload_len:
  "MessageResult_payload_len R r =
     length (enc (rlp_b256 R) (res_block_hash r) @ enc (rlp_b256 R) (send_root r))"
  by (simp add: MessageResult_payload_len_def)

lemma result_fields_payload:
  "MessageResult_fields R
     (enc (rlp_b256 R) (res_block_hash r) @ enc (rlp_b256 R) (send_root r)) = Ok (r, [])"
  by (simp add: MessageResult_fields_def)

sublocale result: codec "result_codec R"
proof
  fix r rest
  show "dec (result_codec R) (enc (result_codec R) r @ rest) = Ok (r, rest)"
    using decode_list_encoded [where get_fields = "MessageResult_fields R",
        OF result_fields_payload [of r]]
    by (simp add: MessageResult_encode_def MessageResult_decode_def result_payload_len)
  show "enc_len (result_codec R) r = length (enc (result_codec R) r)"
    by (simp add: MessageResult_encode_def MessageResult_length_def
        result_payload_len header_len Let_def)
  show "enc (result_codec R) r \<noteq> []"
    by (simp add: MessageResult_encode_def header_nonempty)
  show "returns (dec (result_codec R) rest)"
    by (auto simp: MessageResult_decode_def MessageResult_fields_def
        intro!: decode_list_returns returns_bindR b256.dec_returns)
qed

text \<open>The forms the clients rewrite with.\<close>

lemmas codec_simps =
  mwm.dec_enc_nil [simplified] bh.dec_enc_nil [simplified] result.dec_enc_nil [simplified]

end

end
