(* ===== verification/Multiplexer.thy ===== *)
theory Multiplexer
  imports Message
begin

text \<open>
  \<open>crates/inbox/src/multiplexer.rs\<close>: parsing of a sequencer batch and the multiplexer that
  turns batches and delayed messages into the one stream of messages of the chain.
  \<open>R\<close> is the RLP crate, \<open>brotli\<close> the decompressor (\<open>read_to_end\<close> on a
  \<open>brotli::Decompressor\<close>), \<open>B\<close> the implementation of the trait \<open>InboxBackend\<close>.
\<close>

type_synonym brotli = "bytes \<Rightarrow> bytes result"

definition BATCH_SEGMENT_KIND_L2_MESSAGE :: u8 where "BATCH_SEGMENT_KIND_L2_MESSAGE = 0"
definition BATCH_SEGMENT_KIND_L2_MESSAGE_BROTLI :: u8 where "BATCH_SEGMENT_KIND_L2_MESSAGE_BROTLI = 1"
definition BATCH_SEGMENT_KIND_DELAYED_MESSAGES :: u8 where "BATCH_SEGMENT_KIND_DELAYED_MESSAGES = 2"
definition BATCH_SEGMENT_KIND_ADVANCE_TIMESTAMP :: u8 where "BATCH_SEGMENT_KIND_ADVANCE_TIMESTAMP = 3"
definition BATCH_SEGMENT_KIND_ADVANCE_L1_BLOCK_NUMBER :: u8 where
  "BATCH_SEGMENT_KIND_ADVANCE_L1_BLOCK_NUMBER = 4"

lemmas segment_kinds =
  BATCH_SEGMENT_KIND_L2_MESSAGE_def BATCH_SEGMENT_KIND_L2_MESSAGE_BROTLI_def
  BATCH_SEGMENT_KIND_DELAYED_MESSAGES_def BATCH_SEGMENT_KIND_ADVANCE_TIMESTAMP_def
  BATCH_SEGMENT_KIND_ADVANCE_L1_BLOCK_NUMBER_def

section \<open>Parsing a batch\<close>

record SequencerMessage =
  min_timestamp :: u64
  max_timestamp :: u64
  min_l1_block :: u64
  max_l1_block :: u64
  after_delayed_messages :: u64
  segments :: "bytes list"

text \<open>\<open>match r { Ok(x) => Some(x), Err(_) => None }\<close>; a panic is not caught.\<close>

definition ok_or_none :: "'a result \<Rightarrow> 'a option result" where
  "ok_or_none r =
     (case r of Ok x \<Rightarrow> Ok (Some x) | Err _ \<Rightarrow> Ok None | Panic \<Rightarrow> Panic | Diverge \<Rightarrow> Diverge)"

lemma ok_or_none_simps [simp]: "ok_or_none (Ok x) = Ok (Some x)" "ok_or_none (Err e) = Ok None"
  by (simp_all add: ok_or_none_def)

text \<open>The loop stops after more than \<open>100 * 1024\<close> segments, whatever the decoder does.\<close>

function decode_segments :: "rlp \<Rightarrow> bytes \<Rightarrow> bytes list \<Rightarrow> bytes list result" where
  "decode_segments R cur segs =
     (if cur = [] then Ok segs
      else
        bindR (ok_or_none (dec (rlp_bytes R) cur)) (\<lambda>r.
        case r of
          Some (seg, cur) \<Rightarrow>
            (let segs' = segs @ [seg] in
             if length segs' > 100 * 1024 then Ok segs'
             else decode_segments R cur segs')
        | None \<Rightarrow> Ok segs))"
  by pat_completeness auto
termination
  by (relation "measure (\<lambda>(R, cur, segs). 100 * 1024 + 1 - length segs)") auto

declare decode_segments.simps [simp del]

definition u64_at :: "bytes \<Rightarrow> nat \<Rightarrow> u64" where
  "u64_at data off = un_be64 (take 8 (drop off data))"

definition parse_sequencer_message ::
    "rlp \<Rightarrow> brotli \<Rightarrow> u64 \<Rightarrow> b256 option \<Rightarrow> bytes \<Rightarrow> SequencerMessage result" where
  "parse_sequencer_message R brotli batch_num batch_block_hash data =
     (if length data < 40 then Err (Bail ''sequencer message missing L1 header'' [])
      else
      let payload = drop 40 data in
      bindR (if payload = [] then Ok []
             else if hd payload = 0x01 then
               bindR (brotli (tl payload)) (\<lambda>decompressed. decode_segments R decompressed [])
             else decode_segments R payload []) (\<lambda>segs.
      Ok \<lparr>min_timestamp = u64_at data 0, max_timestamp = u64_at data 8,
          min_l1_block = u64_at data 16, max_l1_block = u64_at data 24,
          after_delayed_messages = u64_at data 32, segments = segs\<rparr>))"

section \<open>The multiplexer\<close>

record 'b inbox_backend =
  peek_sequencer_inbox :: "('b, bytes \<times> b256 option) M"
  get_sequencer_inbox_position :: "'b \<Rightarrow> u64"
  advance_sequencer_inbox :: "'b \<Rightarrow> 'b"
  get_position_within_message :: "'b \<Rightarrow> u64"
  set_position_within_message :: "u64 \<Rightarrow> 'b \<Rightarrow> 'b"
  read_delayed_inbox :: "'b \<Rightarrow> u64 \<Rightarrow> L1IncomingMessage result"

record 'b InboxMultiplexer =
  backend :: 'b
  mux_delayed_messages_read :: u64
  cached_msg :: "SequencerMessage option"
  cached_batch_hash :: "b256 option"
  cached_segment_num :: u64
  cached_segment_timestamp :: u64
  cached_segment_block_number :: u64
  cached_submessage_number :: u64

definition new_multiplexer :: "'b \<Rightarrow> u64 \<Rightarrow> 'b InboxMultiplexer" where
  "new_multiplexer b delayed_read =
     \<lparr>backend = b, mux_delayed_messages_read = delayed_read, cached_msg = None,
      cached_batch_hash = None, cached_segment_num = 0, cached_segment_timestamp = 0,
      cached_segment_block_number = 0, cached_submessage_number = 0\<rparr>"

definition advance_seq_msg :: "'b inbox_backend \<Rightarrow> 'b InboxMultiplexer \<Rightarrow> 'b InboxMultiplexer" where
  "advance_seq_msg B mx =
     \<lparr>backend = advance_sequencer_inbox B (set_position_within_message B 0 (backend mx)),
      mux_delayed_messages_read =
        (case cached_msg mx of Some seq \<Rightarrow> after_delayed_messages seq
                             | None \<Rightarrow> mux_delayed_messages_read mx),
      cached_msg = None, cached_batch_hash = None, cached_segment_num = 0,
      cached_segment_timestamp = 0, cached_segment_block_number = 0, cached_submessage_number = 0\<rparr>"

definition advance_submsg :: "'b inbox_backend \<Rightarrow> 'b InboxMultiplexer \<Rightarrow> 'b InboxMultiplexer" where
  "advance_submsg B mx =
     (let prev = get_position_within_message B (backend mx)
      in mx\<lparr>backend := set_position_within_message B (prev + 1) (backend mx)\<rparr>)"

definition message_segment :: "bytes \<Rightarrow> bool" where
  "message_segment seg \<longleftrightarrow> seg \<noteq> [] \<and>
     hd seg \<in> {BATCH_SEGMENT_KIND_L2_MESSAGE, BATCH_SEGMENT_KIND_L2_MESSAGE_BROTLI,
               BATCH_SEGMENT_KIND_DELAYED_MESSAGES}"

definition is_cached_segment_last :: "'b InboxMultiplexer \<Rightarrow> bool" where
  "is_cached_segment_last mx =
     (case cached_msg mx of
        Some seq \<Rightarrow>
          (if mux_delayed_messages_read mx < after_delayed_messages seq then False
           else \<not> (\<exists>seg \<in> set (drop (unat (cached_segment_num mx) + 1) (segments seq)).
                     message_segment seg))
      | None \<Rightarrow> True)"

text \<open>
  The loop of \<open>get_next_msg\<close> that moves to the segment of the wanted submessage, here over the
  segments from \<open>segment_num\<close> on.
\<close>

fun scan_segments ::
    "rlp \<Rightarrow> u64 \<Rightarrow> bytes list \<Rightarrow> u64 \<Rightarrow> u64 \<Rightarrow> u64 \<Rightarrow> u64 \<Rightarrow> (u64 \<times> u64 \<times> u64 \<times> u64) result" where
  "scan_segments R target [] segment_num timestmp block_num submessage_num =
     Ok (segment_num, timestmp, block_num, submessage_num)"
| "scan_segments R target (seg # rest) segment_num timestmp block_num submessage_num =
     (if seg = [] then scan_segments R target rest (segment_num + 1) timestmp block_num submessage_num
      else
      let knd = hd seg in
      if knd = BATCH_SEGMENT_KIND_ADVANCE_TIMESTAMP \<or> knd = BATCH_SEGMENT_KIND_ADVANCE_L1_BLOCK_NUMBER
      then
        bindR (ok_or_none (dec (rlp_u64 R) (tl seg))) (\<lambda>r.
        case r of
          Some (v, _) \<Rightarrow>
            (if knd = BATCH_SEGMENT_KIND_ADVANCE_TIMESTAMP
             then scan_segments R target rest (segment_num + 1) (sat_add timestmp v) block_num submessage_num
             else scan_segments R target rest (segment_num + 1) timestmp (sat_add block_num v) submessage_num)
        | None \<Rightarrow> scan_segments R target rest (segment_num + 1) timestmp block_num submessage_num)
      else if submessage_num < target
      then scan_segments R target rest (segment_num + 1) timestmp block_num (submessage_num + 1)
      else Ok (segment_num, timestmp, block_num, submessage_num))"

definition l2_message ::
    "SequencerMessage \<Rightarrow> b256 option \<Rightarrow> u64 \<Rightarrow> u64 \<Rightarrow> u64 \<Rightarrow> bytes \<Rightarrow>
     MessageWithMetadataAndBlockInfo result" where
  "l2_message seq batch_hash delayed_read timestmp block_num payload =
     bindR (clamp_u64 block_num (min_l1_block seq) (max_l1_block seq)) (\<lambda>bn.
     bindR (clamp_u64 timestmp (min_timestamp seq) (max_timestamp seq)) (\<lambda>ts.
     Ok \<lparr>message_with_meta =
           \<lparr>message = \<lparr>header = \<lparr>kind = 3, poster = 0, block_number = bn, timestamp = ts,
                                request_id = None, l1_base_fee = 0\<rparr>,
                      l2msg = payload, batch_gas_cost = None\<rparr>,
            delayed_messages_read = delayed_read\<rparr>,
         block_hash = batch_hash, block_metadata = None\<rparr>))"

definition invalid_message ::
    "SequencerMessage \<Rightarrow> b256 option \<Rightarrow> MessageWithMetadataAndBlockInfo" where
  "invalid_message seq batch_hash =
     \<lparr>message_with_meta =
        \<lparr>message = \<lparr>header = \<lparr>kind = 0xff, poster = 0, block_number = max_l1_block seq,
                             timestamp = max_timestamp seq, request_id = None, l1_base_fee = 0\<rparr>,
                   l2msg = [], batch_gas_cost = None\<rparr>,
         delayed_messages_read = after_delayed_messages seq\<rparr>,
      block_hash = batch_hash, block_metadata = None\<rparr>"

definition delayed_message :: "L1IncomingMessage \<Rightarrow> u64 \<Rightarrow> MessageWithMetadataAndBlockInfo" where
  "delayed_message msg delayed_read =
     \<lparr>message_with_meta = \<lparr>message = msg, delayed_messages_read = delayed_read\<rparr>,
      block_hash = None, block_metadata = None\<rparr>"

text \<open>
  \<open>get_next_msg\<close> returns a pair of optional message and optional error; the outer \<open>result\<close>
  is only for panics.  The first component of the source's \<open>if\<close> chain is the segment's kind.
\<close>

definition get_next_msg ::
    "'b inbox_backend \<Rightarrow> rlp \<Rightarrow> brotli \<Rightarrow>
     ('b InboxMultiplexer, MessageWithMetadataAndBlockInfo option \<times> error option) M" where
  "get_next_msg B R brotli = (\<lambda>mx.
     case cached_msg mx of
       None \<Rightarrow> (Ok (None, None), mx)
     | Some seq \<Rightarrow>
       (case scan_segments R (get_position_within_message B (backend mx))
               (drop (unat (cached_segment_num mx)) (segments seq))
               (cached_segment_num mx) (cached_segment_timestamp mx)
               (cached_segment_block_number mx) (cached_submessage_number mx) of
          Err e \<Rightarrow> (Err e, mx)
        | Panic \<Rightarrow> (Panic, mx)
        | Diverge \<Rightarrow> (Diverge, mx)
        | Ok (segment_num, timestmp, block_num, submessage_num) \<Rightarrow>
          let mx = mx\<lparr>cached_segment_num := segment_num, cached_segment_timestamp := timestmp,
                      cached_segment_block_number := block_num,
                      cached_submessage_number := submessage_num\<rparr>;
              seg = (if unat segment_num < length (segments seq) then segments seq ! unat segment_num
                     else [BATCH_SEGMENT_KIND_DELAYED_MESSAGES])
          in
          if seg = [] then (Ok (None, None), mx)
          else
          let knd = hd seg; rest = tl seg in
          if knd = BATCH_SEGMENT_KIND_L2_MESSAGE \<or> knd = BATCH_SEGMENT_KIND_L2_MESSAGE_BROTLI then
            (case (if knd = BATCH_SEGMENT_KIND_L2_MESSAGE_BROTLI then brotli rest else Ok rest) of
               Err e \<Rightarrow> (Ok (None, Some e), mx)
             | Panic \<Rightarrow> (Panic, mx)
             | Diverge \<Rightarrow> (Diverge, mx)
             | Ok payload \<Rightarrow>
                 (bindR (l2_message seq (cached_batch_hash mx) (mux_delayed_messages_read mx)
                           timestmp block_num payload) (\<lambda>out. Ok (Some out, None)), mx))
          else if knd = BATCH_SEGMENT_KIND_DELAYED_MESSAGES then
            (if after_delayed_messages seq \<le> mux_delayed_messages_read mx then
               (Ok (Some (invalid_message seq (cached_batch_hash mx)), None), mx)
             else
               (case read_delayed_inbox B (backend mx) (mux_delayed_messages_read mx) of
                  Ok delayed \<Rightarrow>
                    (let mx = mx\<lparr>mux_delayed_messages_read := mux_delayed_messages_read mx + 1\<rparr>
                     in (Ok (Some (delayed_message delayed (mux_delayed_messages_read mx)), None), mx))
                | Err e \<Rightarrow> (Ok (None, Some e), mx)
                | Panic \<Rightarrow> (Panic, mx)
                | Diverge \<Rightarrow> (Diverge, mx)))
          else (Ok (None, None), mx)))"

definition pop_cached ::
    "'b inbox_backend \<Rightarrow> rlp \<Rightarrow> brotli \<Rightarrow>
     ('b InboxMultiplexer, MessageWithMetadataAndBlockInfo option) M" where
  "pop_cached B R brotli =
     bindM (get_next_msg B R brotli) (\<lambda>(msg, err).
     bindM (\<lambda>mx. (Ok (), if is_cached_segment_last mx then advance_seq_msg B mx else advance_submsg B mx)) (\<lambda>_.
     case err of Some e \<Rightarrow> bailM e | None \<Rightarrow> okM msg))"

definition pop ::
    "'b inbox_backend \<Rightarrow> rlp \<Rightarrow> brotli \<Rightarrow>
     ('b InboxMultiplexer, MessageWithMetadataAndBlockInfo option) M" where
  "pop B R brotli = (\<lambda>mx.
     if cached_msg mx \<noteq> None then pop_cached B R brotli mx
     else
     (case peek_sequencer_inbox B (backend mx) of
        (Ok (bytes, batch_hash), b) \<Rightarrow>
          let mx = mx\<lparr>backend := b\<rparr>; seqnum = get_sequencer_inbox_position B b in
          (case parse_sequencer_message R brotli seqnum batch_hash bytes of
             Ok parsed \<Rightarrow>
               pop_cached B R brotli (mx\<lparr>cached_batch_hash := batch_hash, cached_msg := Some parsed\<rparr>)
           | Err e \<Rightarrow> (Err e, mx)
           | Panic \<Rightarrow> (Panic, mx)
           | Diverge \<Rightarrow> (Diverge, mx))
      | (Err _, b) \<Rightarrow> (Ok None, mx\<lparr>backend := b\<rparr>)
      | (Panic, b) \<Rightarrow> (Panic, mx\<lparr>backend := b\<rparr>)
      | (Diverge, b) \<Rightarrow> (Diverge, mx\<lparr>backend := b\<rparr>)))"

text \<open>
  The loop \<open>loop { match mux.pop()? { Some(m) => out.push(m), None => break } }\<close> of
  \<open>InboxTracker::add_sequencer_batches_and_stream\<close>, with fuel.
\<close>

fun pop_all ::
    "'b inbox_backend \<Rightarrow> rlp \<Rightarrow> brotli \<Rightarrow> nat \<Rightarrow> MessageWithMetadataAndBlockInfo list \<Rightarrow>
     ('b InboxMultiplexer, MessageWithMetadataAndBlockInfo list) M" where
  "pop_all B R brotli 0 out = liftR Diverge"
| "pop_all B R brotli (Suc fuel) out =
     bindM (pop B R brotli) (\<lambda>r. case r of
        Some m \<Rightarrow> pop_all B R brotli fuel (out @ [m])
      | None \<Rightarrow> okM out)"

end
