(* ===== verification/Dbkeys.thy ===== *)
theory Dbkeys
  imports Prelude
begin

text \<open>
  \<open>crates/primitives/src/dbkeys.rs\<close>: the key space of the node's database.  A record of a
  sequence lives under a one-letter prefix followed by its index in eight big-endian bytes; the
  counters live under names that start with an underscore.
\<close>

definition key_bytes :: "string \<Rightarrow> bytes" where
  "key_bytes s = map of_char s"

definition MESSAGE_PREFIX :: bytes where "MESSAGE_PREFIX = key_bytes ''m''"
definition BLOCK_HASH_INPUT_FEED_PREFIX :: bytes where "BLOCK_HASH_INPUT_FEED_PREFIX = key_bytes ''b''"
definition BLOCK_METADATA_INPUT_FEED_PREFIX :: bytes where
  "BLOCK_METADATA_INPUT_FEED_PREFIX = key_bytes ''t''"
definition MISSING_BLOCK_METADATA_INPUT_FEED_PREFIX :: bytes where
  "MISSING_BLOCK_METADATA_INPUT_FEED_PREFIX = key_bytes ''x''"
definition MESSAGE_RESULT_PREFIX :: bytes where "MESSAGE_RESULT_PREFIX = key_bytes ''r''"
definition LEGACY_DELAYED_MESSAGE_PREFIX :: bytes where "LEGACY_DELAYED_MESSAGE_PREFIX = key_bytes ''d''"
definition RLP_DELAYED_MESSAGE_PREFIX :: bytes where "RLP_DELAYED_MESSAGE_PREFIX = key_bytes ''e''"
definition PARENT_CHAIN_BLOCK_NUMBER_PREFIX :: bytes where
  "PARENT_CHAIN_BLOCK_NUMBER_PREFIX = key_bytes ''p''"
definition SEQUENCER_BATCH_META_PREFIX :: bytes where "SEQUENCER_BATCH_META_PREFIX = key_bytes ''s''"
definition DELAYED_SEQUENCED_PREFIX :: bytes where "DELAYED_SEQUENCED_PREFIX = key_bytes ''a''"

definition MESSAGE_COUNT_KEY :: bytes where "MESSAGE_COUNT_KEY = key_bytes ''_messageCount''"
definition DELAYED_MESSAGE_COUNT_KEY :: bytes where
  "DELAYED_MESSAGE_COUNT_KEY = key_bytes ''_delayedMessageCount''"
definition SEQUENCER_BATCH_COUNT_KEY :: bytes where
  "SEQUENCER_BATCH_COUNT_KEY = key_bytes ''_sequencerBatchCount''"

definition uint64_to_key :: "u64 \<Rightarrow> bytes" where
  "uint64_to_key x = be64 x"

definition db_key :: "bytes \<Rightarrow> u64 \<Rightarrow> bytes" where
  "db_key pfx index = pfx @ uint64_to_key index"

section \<open>The prefixes and names\<close>

lemma prefixes_eval:
  "MESSAGE_PREFIX = [0x6d]" "BLOCK_HASH_INPUT_FEED_PREFIX = [0x62]"
  "BLOCK_METADATA_INPUT_FEED_PREFIX = [0x74]" "MISSING_BLOCK_METADATA_INPUT_FEED_PREFIX = [0x78]"
  "MESSAGE_RESULT_PREFIX = [0x72]" "LEGACY_DELAYED_MESSAGE_PREFIX = [0x64]"
  "RLP_DELAYED_MESSAGE_PREFIX = [0x65]" "PARENT_CHAIN_BLOCK_NUMBER_PREFIX = [0x70]"
  "SEQUENCER_BATCH_META_PREFIX = [0x73]" "DELAYED_SEQUENCED_PREFIX = [0x61]"
  by (simp_all add: MESSAGE_PREFIX_def BLOCK_HASH_INPUT_FEED_PREFIX_def
      BLOCK_METADATA_INPUT_FEED_PREFIX_def MISSING_BLOCK_METADATA_INPUT_FEED_PREFIX_def
      MESSAGE_RESULT_PREFIX_def LEGACY_DELAYED_MESSAGE_PREFIX_def RLP_DELAYED_MESSAGE_PREFIX_def
      PARENT_CHAIN_BLOCK_NUMBER_PREFIX_def SEQUENCER_BATCH_META_PREFIX_def
      DELAYED_SEQUENCED_PREFIX_def key_bytes_def of_char_def)

lemma count_keys_eval:
  "MESSAGE_COUNT_KEY = 0x5f # 0x6d # key_bytes ''essageCount''"
  "DELAYED_MESSAGE_COUNT_KEY = 0x5f # 0x64 # key_bytes ''elayedMessageCount''"
  "SEQUENCER_BATCH_COUNT_KEY = 0x5f # 0x73 # key_bytes ''equencerBatchCount''"
  by (simp_all add: MESSAGE_COUNT_KEY_def DELAYED_MESSAGE_COUNT_KEY_def
      SEQUENCER_BATCH_COUNT_KEY_def key_bytes_def of_char_def)

named_theorems key_simps "which database keys coincide"

lemma db_key_eq [key_simps]: "db_key [p] i = db_key [q] j \<longleftrightarrow> p = q \<and> i = j"
  by (auto simp: db_key_def uint64_to_key_def)

lemma count_key_neq_db_key [key_simps]:
  "p \<noteq> 0x5f \<Longrightarrow> MESSAGE_COUNT_KEY \<noteq> db_key [p] i"
  "p \<noteq> 0x5f \<Longrightarrow> DELAYED_MESSAGE_COUNT_KEY \<noteq> db_key [p] i"
  "p \<noteq> 0x5f \<Longrightarrow> SEQUENCER_BATCH_COUNT_KEY \<noteq> db_key [p] i"
  "p \<noteq> 0x5f \<Longrightarrow> db_key [p] i \<noteq> MESSAGE_COUNT_KEY"
  "p \<noteq> 0x5f \<Longrightarrow> db_key [p] i \<noteq> DELAYED_MESSAGE_COUNT_KEY"
  "p \<noteq> 0x5f \<Longrightarrow> db_key [p] i \<noteq> SEQUENCER_BATCH_COUNT_KEY"
  by (auto simp: db_key_def count_keys_eval)

lemma count_keys_distinct [key_simps]:
  "MESSAGE_COUNT_KEY \<noteq> DELAYED_MESSAGE_COUNT_KEY" "DELAYED_MESSAGE_COUNT_KEY \<noteq> MESSAGE_COUNT_KEY"
  "MESSAGE_COUNT_KEY \<noteq> SEQUENCER_BATCH_COUNT_KEY" "SEQUENCER_BATCH_COUNT_KEY \<noteq> MESSAGE_COUNT_KEY"
  "DELAYED_MESSAGE_COUNT_KEY \<noteq> SEQUENCER_BATCH_COUNT_KEY"
  "SEQUENCER_BATCH_COUNT_KEY \<noteq> DELAYED_MESSAGE_COUNT_KEY"
  by (auto simp: count_keys_eval)

section \<open>Ranges\<close>

text \<open>
  \<open>in_range p n k\<close>: the key \<open>k\<close> is one a scan with prefix \<open>p\<close> from index \<open>n\<close> visits.
\<close>

definition in_range :: "bytes \<Rightarrow> u64 \<Rightarrow> bytes \<Rightarrow> bool" where
  "in_range p n k \<longleftrightarrow> prefix p k \<and> p @ uint64_to_key n \<le> k"

lemma in_range_db_key [key_simps]: "in_range [p] n (db_key [q] i) \<longleftrightarrow> p = q \<and> n \<le> i"
  by (auto simp: in_range_def db_key_def uint64_to_key_def be64_le_iff)

lemma in_range_count_key [key_simps]:
  "p \<noteq> 0x5f \<Longrightarrow> \<not> in_range [p] n MESSAGE_COUNT_KEY"
  "p \<noteq> 0x5f \<Longrightarrow> \<not> in_range [p] n DELAYED_MESSAGE_COUNT_KEY"
  "p \<noteq> 0x5f \<Longrightarrow> \<not> in_range [p] n SEQUENCER_BATCH_COUNT_KEY"
  by (auto simp: in_range_def count_keys_eval)

lemmas [key_simps] = prefixes_eval

end
