(* ===== verification/Db.thy ===== *)
theory Db
  imports Dbkeys
begin

text \<open>
  The storage interface \<open>crates/inbox/src/db.rs\<close> (traits \<open>Database\<close>, \<open>Batch\<close>,
  \<open>Iterator\<close>), its only implementation \<open>crates/db-sled/src/lib.rs\<close>, and the helper
  \<open>crates/inbox/src/util.rs\<close>.  The store itself, the crate \<open>sled\<close>, is the parameter
  \<open>sled\<close>; the locale \<open>sled_store\<close> states what it documents: an ordered map of byte strings
  (here for a store without I/O errors).  The locale \<open>database\<close> is the contract the tracker
  and the streamer rely on; it is proved for the sled implementation.
\<close>

section \<open>The trait Database\<close>

text \<open>A batch queues puts and deletes; \<open>write\<close> performs them in the order they were queued.\<close>

datatype db_op = Put bytes bytes | Del bytes

type_synonym batch = "db_op list"

definition new_batch :: batch where
  "new_batch = []"

definition batch_put :: "batch \<Rightarrow> bytes \<Rightarrow> bytes \<Rightarrow> batch" where
  "batch_put b key val = b @ [Put key val]"

definition batch_delete :: "batch \<Rightarrow> bytes \<Rightarrow> batch" where
  "batch_delete b key = b @ [Del key]"

text \<open>
  A trait object \<open>Box<dyn Iterator>\<close> is represented by what a client's loop
  \<open>while it.next()\<close> sees of it: the entries in order, and the error \<open>it.error()\<close> reports at
  the end.  \<open>db_scan D s prefix start\<close> is the iterator \<open>new_iterator(prefix, start)\<close> returns.
\<close>

record 'db database =
  db_has :: "'db \<Rightarrow> bytes \<Rightarrow> bool result"
  db_get :: "'db \<Rightarrow> bytes \<Rightarrow> bytes result"
  db_put :: "bytes \<Rightarrow> bytes \<Rightarrow> ('db, unit) M"
  db_write :: "batch \<Rightarrow> ('db, unit) M"
  db_scan :: "'db \<Rightarrow> bytes \<Rightarrow> bytes \<Rightarrow> (bytes \<times> bytes) list \<times> error option"

definition not_found :: error where
  "not_found = Bail ''not found'' []"

lemma says_not_found_not_found [simp]: "says_not_found not_found"
  by (simp add: not_found_def)

section \<open>What a batch does to the contents\<close>

fun apply_op :: "db_op \<Rightarrow> (bytes \<rightharpoonup> bytes) \<Rightarrow> (bytes \<rightharpoonup> bytes)" where
  "apply_op (Put k v) m = m(k \<mapsto> v)"
| "apply_op (Del k) m = m(k := None)"

definition apply_ops :: "batch \<Rightarrow> (bytes \<rightharpoonup> bytes) \<Rightarrow> (bytes \<rightharpoonup> bytes)" where
  "apply_ops ops m = fold apply_op ops m"

lemma apply_ops_simps [simp]:
  "apply_ops [] m = m"
  "apply_ops (op # ops) m = apply_ops ops (apply_op op m)"
  "apply_ops (xs @ ys) m = apply_ops ys (apply_ops xs m)"
  by (simp_all add: apply_ops_def)

text \<open>\<open>wipe p n m\<close>: the contents without the entries of prefix \<open>p\<close> from index \<open>n\<close> on.\<close>

definition wipe :: "bytes \<Rightarrow> u64 \<Rightarrow> (bytes \<rightharpoonup> bytes) \<Rightarrow> (bytes \<rightharpoonup> bytes)" where
  "wipe p n m = (\<lambda>k. if in_range p n k then None else m k)"

lemma apply_ops_Del: "apply_ops (map Del ks) m = (\<lambda>k. if k \<in> set ks then None else m k)"
  by (induction ks arbitrary: m) auto

text \<open>
  Deleting the keys a scan of the contents \<open>m0\<close> found wipes the range of \<open>m\<close>, provided
  \<open>m\<close> holds nothing in the range that \<open>m0\<close> did not.
\<close>

lemma apply_ops_Del_wipe:
  assumes "set ks = {k \<in> dom m0. in_range p n k}"
    and "\<And>k. in_range p n k \<Longrightarrow> m k \<noteq> None \<Longrightarrow> m0 k \<noteq> None"
  shows "apply_ops (map Del ks) m = wipe p n m"
  using assms by (auto simp: apply_ops_Del wipe_def fun_eq_iff)

text \<open>\<open>below m m0\<close>: the contents \<open>m\<close> hold no key that \<open>m0\<close> does not.\<close>

definition below :: "(bytes \<rightharpoonup> bytes) \<Rightarrow> (bytes \<rightharpoonup> bytes) \<Rightarrow> bool" where
  "below m m0 \<longleftrightarrow> (\<forall>k. m k \<noteq> None \<longrightarrow> m0 k \<noteq> None)"

lemma below_refl [simp]: "below m m"
  by (simp add: below_def)

lemma below_wipe [simp]: "below m m0 \<Longrightarrow> below (wipe p n m) m0"
  by (auto simp: below_def wipe_def)

lemma wipe_apply [key_simps]: "wipe p n m k = (if in_range p n k then None else m k)"
  by (simp add: wipe_def)

section \<open>The contract\<close>

locale database =
  fixes D :: "'db database" and view :: "'db \<Rightarrow> bytes \<rightharpoonup> bytes"
  assumes has: "db_has D s k = Ok (view s k \<noteq> None)"
    and get: "db_get D s k = (case view s k of Some v \<Rightarrow> Ok v | None \<Rightarrow> Err not_found)"
    and put_ok: "fst (db_put D k v s) = Ok ()"
    and put_view: "view (snd (db_put D k v s)) = (view s)(k \<mapsto> v)"
    and write_ok: "fst (db_write D ops s) = Ok ()"
    and write_view: "view (snd (db_write D ops s)) = apply_ops ops (view s)"
    and scan_ok: "snd (db_scan D s p st) = None"
    and scan_entries:
      "set (fst (db_scan D s p st)) = {(k, v). view s k = Some v \<and> prefix p k \<and> p @ st \<le> k}"
    and scan_ascending: "sorted_wrt (<) (map fst (fst (db_scan D s p st)))"
begin

text \<open>The state a batch write leaves behind.\<close>

definition after :: "batch \<Rightarrow> 'db \<Rightarrow> 'db" where
  "after ops s = snd (db_write D ops s)"

lemma write_eq: "db_write D ops s = (Ok (), after ops s)"
  using write_ok [of ops s] by (simp add: after_def prod_eq_iff)

lemma view_after [simp]: "view (after ops s) = apply_ops ops (view s)"
  by (simp add: after_def write_view)

lemma get_Some [simp]: "view s k = Some v \<Longrightarrow> db_get D s k = Ok v"
  by (simp add: get)

lemma get_None [simp]: "view s k = None \<Longrightarrow> db_get D s k = Err not_found"
  by (simp add: get)

end

section \<open>delete_starting_at\<close>

definition delete_starting_at ::
    "'db database \<Rightarrow> 'db \<Rightarrow> batch \<Rightarrow> bytes \<Rightarrow> bytes \<Rightarrow> batch result" where
  "delete_starting_at D s b pfx start =
     (case db_scan D s pfx start of (entries, err) \<Rightarrow>
      let b = fold (\<lambda>(key, _) b. batch_delete b key) entries b in
      (case err of Some e \<Rightarrow> Err e | None \<Rightarrow> Ok b))"

definition scan_keys :: "'db database \<Rightarrow> 'db \<Rightarrow> bytes \<Rightarrow> u64 \<Rightarrow> bytes list" where
  "scan_keys D s p n = map fst (fst (db_scan D s p (uint64_to_key n)))"

lemma fold_batch_delete:
  "fold (\<lambda>(key, _) b. batch_delete b key) entries b = b @ map Del (map fst entries)"
  by (induction entries arbitrary: b) (auto simp: batch_delete_def)

context database begin

lemma set_scan_keys: "set (scan_keys D s p n) = {k \<in> dom (view s). in_range p n k}"
  unfolding scan_keys_def set_map scan_entries by (auto simp: in_range_def image_iff)

lemma delete_starting_at_eq:
  "delete_starting_at D s b p (uint64_to_key n) = Ok (b @ map Del (scan_keys D s p n))"
  using scan_ok [of s p "uint64_to_key n"]
  by (cases "db_scan D s p (uint64_to_key n)")
     (simp add: delete_starting_at_def scan_keys_def fold_batch_delete)

lemma apply_scan_keys:
  "(\<And>k. in_range p n k \<Longrightarrow> m k \<noteq> None \<Longrightarrow> view s k \<noteq> None) \<Longrightarrow>
   apply_ops (map Del (scan_keys D s p n)) m = wipe p n m"
  by (rule apply_ops_Del_wipe [OF set_scan_keys])

lemma apply_scan_keys_below [simp]:
  "below m (view s) \<Longrightarrow> apply_ops (map Del (scan_keys D s p n)) m = wipe p n m"
  by (rule apply_scan_keys) (simp add: below_def)

end

section \<open>sled\<close>

record 't sled =
  sled_insert :: "bytes \<Rightarrow> bytes \<Rightarrow> ('t, unit) M"
  sled_remove :: "bytes \<Rightarrow> ('t, unit) M"
  sled_flush :: "('t, unit) M"
  sled_contains_key :: "'t \<Rightarrow> bytes \<Rightarrow> bool result"
  sled_get :: "'t \<Rightarrow> bytes \<Rightarrow> bytes option result"
  sled_range :: "'t \<Rightarrow> bytes \<Rightarrow> (error + bytes \<times> bytes) list"

fun sled_batch_write :: "'t sled \<Rightarrow> batch \<Rightarrow> ('t, unit) M" where
  "sled_batch_write S [] = sled_flush S"
| "sled_batch_write S (op # ops) =
     bindM (case op of Put k v \<Rightarrow> sled_insert S k v | Del k \<Rightarrow> sled_remove S k)
       (\<lambda>_. sled_batch_write S ops)"

record SledIter =
  it_iter :: "(error + bytes \<times> bytes) list"
  it_current :: "(bytes \<times> bytes) option"
  it_error :: "error option"
  it_prefix :: bytes

definition sled_iter_new :: "'t sled \<Rightarrow> 't \<Rightarrow> bytes \<Rightarrow> bytes \<Rightarrow> SledIter" where
  "sled_iter_new S tree pfx start =
     \<lparr>it_iter = sled_range S tree (pfx @ start), it_current = None, it_error = None,
      it_prefix = pfx\<rparr>"

definition sled_iter_next :: "SledIter \<Rightarrow> bool \<times> SledIter" where
  "sled_iter_next it =
     (case it_iter it of
        Inr (k, v) # rest \<Rightarrow>
          (if \<not> prefix (it_prefix it) k then (False, it\<lparr>it_iter := rest, it_current := None\<rparr>)
           else (True, it\<lparr>it_iter := rest, it_current := Some (k, v)\<rparr>))
      | Inl e # rest \<Rightarrow> (False, it\<lparr>it_iter := rest, it_error := Some e, it_current := None\<rparr>)
      | [] \<Rightarrow> (False, it\<lparr>it_current := None\<rparr>))"

definition sled_iter_key :: "SledIter \<Rightarrow> bytes" where
  "sled_iter_key it = (case it_current it of Some (k, _) \<Rightarrow> k | None \<Rightarrow> [])"

definition sled_iter_value :: "SledIter \<Rightarrow> bytes" where
  "sled_iter_value it = (case it_current it of Some (_, v) \<Rightarrow> v | None \<Rightarrow> [])"

text \<open>What a client's loop \<open>while it.next() { .. it.key() .. it.value() .. }\<close> sees.\<close>

function sled_iter_drain :: "SledIter \<Rightarrow> (bytes \<times> bytes) list \<times> error option" where
  "sled_iter_drain it =
     (case sled_iter_next it of
        (True, it') \<Rightarrow>
          (case sled_iter_drain it' of
             (entries, err) \<Rightarrow> ((sled_iter_key it', sled_iter_value it') # entries, err))
      | (False, it') \<Rightarrow> ([], it_error it'))"
  by pat_completeness auto
termination
  by (relation "measure (\<lambda>it. length (it_iter it))")
     (auto simp: sled_iter_next_def split: list.splits sum.splits if_splits)

declare sled_iter_drain.simps [simp del]

definition sled_database :: "'t sled \<Rightarrow> 't database" where
  "sled_database S =
     \<lparr>db_has = sled_contains_key S,
      db_get = (\<lambda>t key. bindR (sled_get S t key)
        (\<lambda>r. case r of Some v \<Rightarrow> Ok v | None \<Rightarrow> Err (Bail ''not found'' []))),
      db_put = sled_insert S,
      db_write = sled_batch_write S,
      db_scan = (\<lambda>t pfx start. sled_iter_drain (sled_iter_new S t pfx start))\<rparr>"

text \<open>What the crate documents: an ordered map, with ranges in ascending key order.\<close>

locale sled_store =
  fixes S :: "'t sled" and view :: "'t \<Rightarrow> bytes \<rightharpoonup> bytes"
  assumes insert_ok: "fst (sled_insert S k v t) = Ok ()"
    and insert_view: "view (snd (sled_insert S k v t)) = (view t)(k \<mapsto> v)"
    and remove_ok: "fst (sled_remove S k t) = Ok ()"
    and remove_view: "view (snd (sled_remove S k t)) = (view t)(k := None)"
    and flush_ok: "fst (sled_flush S t) = Ok ()"
    and flush_view: "view (snd (sled_flush S t)) = view t"
    and contains_key: "sled_contains_key S t k = Ok (view t k \<noteq> None)"
    and sled_get: "sled_get S t k = Ok (view t k)"
    and range: "\<exists>es. sled_range S t lo = map Inr es \<and> sorted_wrt (<) (map fst es) \<and>
      set es = {(k, v). view t k = Some v \<and> lo \<le> k}"

section \<open>The implementation meets the contract\<close>

text \<open>
  The iterator stops at the first key that lacks the prefix.  In byte order the keys with a
  prefix are contiguous, so nothing after that key has it.
\<close>

lemma prefix_between:
  fixes k :: bytes
  assumes "p @ a \<le> k" "k \<le> p @ b"
  shows "prefix p k"
  using assms
proof (induction p arbitrary: k)
  case Nil
  then show ?case by simp
next
  case (Cons x p)
  then show ?case by (cases k) (auto simp: le_less)
qed

lemma sled_iter_drain_eq:
  assumes "sorted_wrt (<) (map fst es)" and "\<forall>e \<in> set es. pfx @ start \<le> fst e"
  shows "sled_iter_drain \<lparr>it_iter = map Inr es, it_current = c, it_error = None, it_prefix = pfx\<rparr> =
    (filter (prefix pfx \<circ> fst) es, None)"
  using assms
proof (induction es arbitrary: c)
  case Nil
  then show ?case by (subst sled_iter_drain.simps) (simp add: sled_iter_next_def)
next
  case (Cons e es)
  obtain k v where e: "e = (k, v)" by (cases e)
  show ?case
  proof (cases "prefix pfx k")
    case True
    with Cons e show ?thesis
      by (subst sled_iter_drain.simps)
         (simp add: sled_iter_next_def sled_iter_key_def sled_iter_value_def comp_def)
  next
    case False
    have "\<not> prefix pfx (fst e')" if "e' \<in> set es" for e'
    proof
      assume "prefix pfx (fst e')"
      then obtain b where b: "fst e' = pfx @ b" by (auto elim: prefixE)
      have "pfx @ start \<le> k" "k < fst e'"
        using Cons.prems e that by auto
      then have "prefix pfx k" using prefix_between [of pfx start k b] b by simp
      with False show False by simp
    qed
    then have "filter (prefix pfx \<circ> fst) es = []" by (simp add: filter_empty_conv)
    with False e show ?thesis
      by (subst sled_iter_drain.simps) (simp add: sled_iter_next_def comp_def)
  qed
qed

context sled_store begin

lemma batch_write_view:
  "fst (sled_batch_write S ops t) = Ok () \<and> view (snd (sled_batch_write S ops t)) = apply_ops ops (view t)"
proof (induction ops arbitrary: t)
  case Nil
  then show ?case by (simp add: flush_ok flush_view)
next
  case (Cons op ops)
  show ?case
  proof (cases op)
    case Put: (Put k v)
    obtain t' where "sled_insert S k v t = (Ok (), t')" "view t' = (view t)(k \<mapsto> v)"
      using insert_ok [of k v t] insert_view [of k v t] by (metis prod.collapse)
    with Put Cons show ?thesis by (simp add: bindM_def del: fun_upd_apply)
  next
    case Del: (Del k)
    obtain t' where "sled_remove S k t = (Ok (), t')" "view t' = (view t)(k := None)"
      using remove_ok [of k t] remove_view [of k t] by (metis prod.collapse)
    with Del Cons show ?thesis by (simp add: bindM_def del: fun_upd_apply)
  qed
qed

lemma scan_eq:
  obtains es where "sled_iter_drain (sled_iter_new S t p st) = (filter (prefix p \<circ> fst) es, None)"
    and "sorted_wrt (<) (map fst es)" and "set es = {(k, v). view t k = Some v \<and> p @ st \<le> k}"
proof -
  obtain es where es: "sled_range S t (p @ st) = map Inr es" "sorted_wrt (<) (map fst es)"
      "set es = {(k, v). view t k = Some v \<and> p @ st \<le> k}"
    using range by blast
  then have "sled_iter_drain (sled_iter_new S t p st) = (filter (prefix p \<circ> fst) es, None)"
    using sled_iter_drain_eq [of es p st None] by (auto simp: sled_iter_new_def)
  with es show thesis using that by blast
qed

sublocale database "sled_database S" view
proof
  fix s k v ops p st
  show "db_has (sled_database S) s k = Ok (view s k \<noteq> None)"
    by (simp add: sled_database_def contains_key)
  show "db_get (sled_database S) s k = (case view s k of Some v \<Rightarrow> Ok v | None \<Rightarrow> Err not_found)"
    by (simp add: sled_database_def sled_get not_found_def split: option.split)
  show "fst (db_put (sled_database S) k v s) = Ok ()"
    "view (snd (db_put (sled_database S) k v s)) = (view s)(k \<mapsto> v)"
    by (simp_all add: sled_database_def insert_ok insert_view)
  show "fst (db_write (sled_database S) ops s) = Ok ()"
    "view (snd (db_write (sled_database S) ops s)) = apply_ops ops (view s)"
    by (simp_all add: sled_database_def batch_write_view)
  obtain es where es: "sled_iter_drain (sled_iter_new S s p st) = (filter (prefix p \<circ> fst) es, None)"
      "sorted_wrt (<) (map fst es)" "set es = {(k, v). view s k = Some v \<and> p @ st \<le> k}"
    by (rule scan_eq)
  then show "snd (db_scan (sled_database S) s p st) = None"
    "set (fst (db_scan (sled_database S) s p st)) =
      {(k, v). view s k = Some v \<and> prefix p k \<and> p @ st \<le> k}"
    by (auto simp: sled_database_def)
  have "sorted_wrt (<) (map fst (filter (prefix p \<circ> fst) es))"
    using es(2) by (auto simp: sorted_wrt_map intro: sorted_wrt_filter)
  then show "sorted_wrt (<) (map fst (fst (db_scan (sled_database S) s p st)))"
    using es(1) by (simp add: sled_database_def)
qed

end

end
