(* ===== verification/Streamer.thy ===== *)
theory Streamer
  imports Db Message
begin

text \<open>
  \<open>crates/streamer/src/streamer.rs\<close>: the transaction streamer, which appends the messages of
  the chain to the database, drops them on a reorg, and has the execution engine digest them one
  by one.  \<open>D\<close> is the database, \<open>R\<close> the RLP crate, \<open>X\<close> the engine behind the trait
  \<open>ExecEngine\<close> (\<open>engine.rs\<close>), whose own state is a component next to the database.
\<close>

section \<open>Operations\<close>

definition unwrap_or :: "'a result \<Rightarrow> 'a \<Rightarrow> 'a result" where
  "unwrap_or r d = (case r of Err _ \<Rightarrow> Ok d | Ok x \<Rightarrow> Ok x | Panic \<Rightarrow> Panic | Diverge \<Rightarrow> Diverge)"

lemma unwrap_or_simps [simp]: "unwrap_or (Ok x) d = Ok x" "unwrap_or (Err e) d = Ok d"
  by (simp_all add: unwrap_or_def)

definition decode_all :: "'a codec \<Rightarrow> bytes \<Rightarrow> 'a result" where
  "decode_all c data = bindR (dec c data) (\<lambda>(x, _). Ok x)"

definition set_message_count :: "rlp \<Rightarrow> batch \<Rightarrow> u64 \<Rightarrow> batch" where
  "set_message_count R b count = batch_put b MESSAGE_COUNT_KEY (enc (rlp_u64 R) count)"

definition write_message ::
    "rlp \<Rightarrow> u64 \<Rightarrow> MessageWithMetadataAndBlockInfo \<Rightarrow> batch \<Rightarrow> u64 option \<Rightarrow> batch" where
  "write_message R msg_idx msg b track_block_metadata_from =
     (let b = batch_put b (db_key MESSAGE_PREFIX msg_idx) (enc (mwm_codec R) (message_with_meta msg));
          b = batch_put b (db_key BLOCK_HASH_INPUT_FEED_PREFIX msg_idx)
                (enc (bh_codec R) \<lparr>bh_block_hash = block_hash msg\<rparr>)
      in case track_block_metadata_from of
           None \<Rightarrow> b
         | Some start_from \<Rightarrow>
             if start_from \<le> msg_idx then
               (case block_metadata msg of
                  Some meta \<Rightarrow> batch_put b (db_key BLOCK_METADATA_INPUT_FEED_PREFIX msg_idx) meta
                | None \<Rightarrow> batch_put b (db_key MISSING_BLOCK_METADATA_INPUT_FEED_PREFIX msg_idx) [])
             else b)"

fun write_message_loop ::
    "rlp \<Rightarrow> u64 \<Rightarrow> MessageWithMetadataAndBlockInfo list \<Rightarrow> batch \<Rightarrow> u64 option \<Rightarrow> batch" where
  "write_message_loop R idx [] b track = b"
| "write_message_loop R idx (m # ms) b track =
     write_message_loop R (idx + 1) ms (write_message R idx m b track) track"

text \<open>A batch that is passed in is filled and then dropped: only a local batch is written.\<close>

definition write_messages ::
    "'db database \<Rightarrow> rlp \<Rightarrow> u64 \<Rightarrow> MessageWithMetadataAndBlockInfo list \<Rightarrow> batch option \<Rightarrow>
     u64 option \<Rightarrow> ('db, unit) M" where
  "write_messages D R first_msg_idx messages batch track_block_metadata_from =
     (let (b, local) = (case batch of None \<Rightarrow> (new_batch, True) | Some b \<Rightarrow> (b, False));
          b = write_message_loop R first_msg_idx messages b track_block_metadata_from;
          b = set_message_count R b (first_msg_idx + of_nat (length messages))
      in if local then db_write D b else okM ())"

definition add_messages_and_reorg ::
    "'db database \<Rightarrow> rlp \<Rightarrow> u64 \<Rightarrow> MessageWithMetadataAndBlockInfo list \<Rightarrow> u64 option \<Rightarrow> ('db, unit) M"
where
  "add_messages_and_reorg D R msg_idx_of_first_msg_to_add new_messages track_block_metadata_from =
     (if msg_idx_of_first_msg_to_add = 0 then bailM (Bail ''cannot reorg out init message'' [])
      else
      let start = be64 msg_idx_of_first_msg_to_add in
      bindM (readM (\<lambda>s. delete_starting_at D s new_batch MESSAGE_RESULT_PREFIX start)) (\<lambda>b.
      bindM (readM (\<lambda>s. delete_starting_at D s b BLOCK_HASH_INPUT_FEED_PREFIX start)) (\<lambda>b.
      bindM (readM (\<lambda>s. delete_starting_at D s b BLOCK_METADATA_INPUT_FEED_PREFIX start)) (\<lambda>b.
      bindM (readM (\<lambda>s. delete_starting_at D s b MISSING_BLOCK_METADATA_INPUT_FEED_PREFIX start)) (\<lambda>b.
      bindM (readM (\<lambda>s. delete_starting_at D s b MESSAGE_PREFIX start)) (\<lambda>b.
      let b = set_message_count R b msg_idx_of_first_msg_to_add in
      bindM (db_write D b) (\<lambda>_.
      if new_messages \<noteq> [] then
        write_messages D R msg_idx_of_first_msg_to_add new_messages None track_block_metadata_from
      else okM ())))))))"

definition message_count :: "'db database \<Rightarrow> rlp \<Rightarrow> 'db \<Rightarrow> u64 result" where
  "message_count D R s = bindR (db_get D s MESSAGE_COUNT_KEY) (decode_all (rlp_u64 R))"

definition get_message_count :: "'db database \<Rightarrow> rlp \<Rightarrow> 'db \<Rightarrow> u64 result" where
  "get_message_count D R s = message_count D R s"

definition get_head_message_index :: "'db database \<Rightarrow> rlp \<Rightarrow> 'db \<Rightarrow> u64 result" where
  "get_head_message_index D R s =
     bindR (message_count D R s) (\<lambda>count. if count = 0 then Ok (- 1) else Ok (count - 1))"

definition get_message :: "'db database \<Rightarrow> rlp \<Rightarrow> 'db \<Rightarrow> u64 \<Rightarrow> MessageWithMetadata result" where
  "get_message D R s index =
     bindR (db_get D s (db_key MESSAGE_PREFIX index)) (decode_all (mwm_codec R))"

text \<open>\<open>Ok(v) => .., Err(e) if e.to_string().contains("not found") => Ok(None), Err(e) => Err(e)\<close>\<close>

definition get_opt :: "'db database \<Rightarrow> 'db \<Rightarrow> bytes \<Rightarrow> (bytes \<Rightarrow> 'a option result) \<Rightarrow> 'a option result" where
  "get_opt D s key on_value =
     (case db_get D s key of
        Ok v \<Rightarrow> on_value v
      | Err e \<Rightarrow> (if says_not_found e then Ok None else Err e)
      | Panic \<Rightarrow> Panic
      | Diverge \<Rightarrow> Diverge)"

definition result_at_message_index ::
    "'db database \<Rightarrow> rlp \<Rightarrow> 'db \<Rightarrow> u64 \<Rightarrow> MessageResult option result" where
  "result_at_message_index D R s index =
     get_opt D s (db_key MESSAGE_RESULT_PREFIX index)
       (\<lambda>v. bindR (decode_all (result_codec R) v) (\<lambda>res. Ok (Some res)))"

definition block_metadata_at_message_index :: "'db database \<Rightarrow> 'db \<Rightarrow> u64 \<Rightarrow> bytes option result" where
  "block_metadata_at_message_index D s index =
     get_opt D s (db_key BLOCK_METADATA_INPUT_FEED_PREFIX index) (\<lambda>v. Ok (Some v))"

definition block_hash_at_message_index ::
    "'db database \<Rightarrow> rlp \<Rightarrow> 'db \<Rightarrow> u64 \<Rightarrow> b256 option result" where
  "block_hash_at_message_index D R s index =
     get_opt D s (db_key BLOCK_HASH_INPUT_FEED_PREFIX index)
       (\<lambda>v. bindR (decode_all (bh_codec R) v) (\<lambda>bh. Ok (bh_block_hash bh)))"

definition get_message_with_metadata_and_block_info ::
    "'db database \<Rightarrow> rlp \<Rightarrow> 'db \<Rightarrow> u64 \<Rightarrow> MessageWithMetadataAndBlockInfo result" where
  "get_message_with_metadata_and_block_info D R s index =
     bindR (get_message D R s index) (\<lambda>mwm.
     bindR (block_hash_at_message_index D R s index) (\<lambda>bh.
     bindR (block_metadata_at_message_index D s index) (\<lambda>meta.
     Ok \<lparr>message_with_meta = mwm, block_hash = bh, block_metadata = meta\<rparr>)))"

definition get_prev_prev_delayed_read :: "'db database \<Rightarrow> rlp \<Rightarrow> 'db \<Rightarrow> u64 \<Rightarrow> u64 result" where
  "get_prev_prev_delayed_read D R s msg_idx =
     (if msg_idx = 0 then Ok 0
      else case get_message D R s (msg_idx - 1) of
             Ok prev \<Rightarrow> Ok (delayed_messages_read prev)
           | Err e \<Rightarrow> (if says_not_found e then Ok 0 else Err e)
           | Panic \<Rightarrow> Panic
           | Diverge \<Rightarrow> Diverge)"

definition without_gas_cost :: "MessageWithMetadata \<Rightarrow> MessageWithMetadata" where
  "without_gas_cost m = m\<lparr>message := (message m)\<lparr>batch_gas_cost := None\<rparr>\<rparr>"

text \<open>
  The result: how many of the messages are duplicates of stored ones, whether the next one
  contradicts what is stored, the stored one; and the batch with the write-backs.
\<close>

fun count_duplicate_messages ::
    "'db database \<Rightarrow> rlp \<Rightarrow> 'db \<Rightarrow> u64 \<Rightarrow> u64 \<Rightarrow> MessageWithMetadataAndBlockInfo list \<Rightarrow> batch option \<Rightarrow>
     ((u64 \<times> bool \<times> MessageWithMetadata option) \<times> batch option) result" where
  "count_duplicate_messages D R s cur msg_idx [] b = Ok ((cur, False, None), b)"
| "count_duplicate_messages D R s cur msg_idx (m # ms) b =
     (case db_get D s (db_key MESSAGE_PREFIX msg_idx) of
        Err e \<Rightarrow> (if says_not_found e then Ok ((cur, False, None), b) else Err e)
      | Panic \<Rightarrow> Panic
      | Diverge \<Rightarrow> Diverge
      | Ok have_bytes \<Rightarrow>
          let want = enc (mwm_codec R) (message_with_meta m) in
          if have_bytes \<noteq> want then
            (case decode_all (mwm_codec R) have_bytes of
               Err _ \<Rightarrow> Ok ((cur, True, None), b)
             | Panic \<Rightarrow> Panic
             | Diverge \<Rightarrow> Diverge
             | Ok db_msg \<Rightarrow>
                 let next = message_with_meta m in
                 if (batch_gas_cost (message db_msg) = None \<or> batch_gas_cost (message next) = None)
                    \<and> without_gas_cost db_msg = without_gas_cost next
                 then
                   let b = (case b of
                              Some b \<Rightarrow>
                                (if batch_gas_cost (message next) \<noteq> None
                                 then Some (write_message R msg_idx m b None) else Some b)
                            | None \<Rightarrow> None)
                   in count_duplicate_messages D R s (cur + 1) (msg_idx + 1) ms b
                 else Ok ((cur, True, Some db_msg), b))
          else count_duplicate_messages D R s (cur + 1) (msg_idx + 1) ms b)"

fun check_delayed_reads :: "u64 \<Rightarrow> u64 \<Rightarrow> MessageWithMetadataAndBlockInfo list \<Rightarrow> unit result" where
  "check_delayed_reads last_delayed_read msg_idx [] = Ok ()"
| "check_delayed_reads last_delayed_read msg_idx (msg # msgs) =
     (let dm_read = delayed_messages_read (message_with_meta msg);
          diff = sat_sub dm_read last_delayed_read
      in if diff \<noteq> 0 \<and> diff \<noteq> 1 then
           Err (Bail (''attempted to insert jump from {} delayed messages read to {} delayed messages '' @
                      ''read at message index {}'')
                  [unat last_delayed_read, unat dm_read, unat msg_idx])
         else check_delayed_reads dm_read (msg_idx + 1) msgs)"

definition add_messages_and_end_batch_impl ::
    "'db database \<Rightarrow> rlp \<Rightarrow> u64 \<Rightarrow> bool \<Rightarrow> MessageWithMetadataAndBlockInfo list \<Rightarrow> u64 option \<Rightarrow>
     ('db, unit) M" where
  "add_messages_and_end_batch_impl D R first_msg_idx messages_are_confirmed messages
       track_block_metadata_from =
     bindM (readM (\<lambda>s. unwrap_or (get_message_count D R s) 0)) (\<lambda>db_count_now.
     if db_count_now \<noteq> first_msg_idx then
       bailM (Bail ''non-contiguous append: db_count={} first_msg_idx={}''
                [unat db_count_now, unat first_msg_idx])
     else
     bindM (readM (\<lambda>s. count_duplicate_messages D R s 0 first_msg_idx messages
               (if messages_are_confirmed then Some new_batch else None)))
       (\<lambda>((num_dups, is_reorg, _), _).
     if \<not> messages_are_confirmed \<and> is_reorg then okM ()
     else
     let confirmed_reorg = (messages_are_confirmed \<and> is_reorg);
         last_delayed_read =
           (if num_dups > 0
            then delayed_messages_read (message_with_meta (messages ! (unat num_dups - 1))) else 0);
         messages = (if num_dups > 0 then drop (unat num_dups) messages else messages);
         first_msg_idx = (if num_dups > 0 then first_msg_idx + num_dups else first_msg_idx)
     in
     bindM (if last_delayed_read = 0
            then readM (\<lambda>s. get_prev_prev_delayed_read D R s first_msg_idx)
            else okM last_delayed_read) (\<lambda>last_delayed_read.
     bindM (if messages \<noteq> [] then
              bindM (readM (\<lambda>s. unwrap_or (get_message_count D R s) 0)) (\<lambda>db_count.
              okM (if db_count < first_msg_idx \<and> last_delayed_read = 0
                   then delayed_messages_read (message_with_meta (hd messages))
                   else last_delayed_read))
            else okM last_delayed_read) (\<lambda>last_delayed_read.
     bindM (liftR (check_delayed_reads last_delayed_read first_msg_idx messages)) (\<lambda>_.
     if confirmed_reorg then
       add_messages_and_reorg D R first_msg_idx messages track_block_metadata_from
     else if messages = [] then okM ()
     else write_messages D R first_msg_idx messages None track_block_metadata_from)))))"

definition reorg_at_and_end_batch :: "'db database \<Rightarrow> rlp \<Rightarrow> u64 \<Rightarrow> ('db, unit) M" where
  "reorg_at_and_end_batch D R first_msg_idx_reorged =
     add_messages_and_reorg D R first_msg_idx_reorged [] None"

definition add_messages_and_end_batch ::
    "'db database \<Rightarrow> rlp \<Rightarrow> u64 \<Rightarrow> MessageWithMetadataAndBlockInfo list \<Rightarrow> u64 option \<Rightarrow> ('db, unit) M"
where
  "add_messages_and_end_batch D R first_msg_idx new_messages track_block_metadata_from =
     add_messages_and_end_batch_impl D R first_msg_idx False new_messages track_block_metadata_from"

definition add_confirmed_messages_and_end_batch ::
    "'db database \<Rightarrow> rlp \<Rightarrow> u64 \<Rightarrow> MessageWithMetadataAndBlockInfo list \<Rightarrow> u64 option \<Rightarrow> ('db, unit) M"
where
  "add_confirmed_messages_and_end_batch D R first_msg_idx new_messages track_block_metadata_from =
     add_messages_and_end_batch_impl D R first_msg_idx True new_messages track_block_metadata_from"

section \<open>Execution\<close>

record ('db, 'x) exec_engine =
  head_message_index :: "'db \<Rightarrow> 'x \<Rightarrow> u64 result"
  digest_message :: "'db \<Rightarrow> u64 \<Rightarrow> MessageWithMetadata \<Rightarrow> MessageWithMetadata option \<Rightarrow>
    ('x, MessageResult) M"

definition store_result :: "rlp \<Rightarrow> u64 \<Rightarrow> MessageResult \<Rightarrow> batch \<Rightarrow> batch" where
  "store_result R msg_idx res b =
     batch_put b (db_key MESSAGE_RESULT_PREFIX msg_idx) (enc (result_codec R) res)"

definition on_db :: "('db, 'a) M \<Rightarrow> ('db \<times> 'x, 'a) M" where
  "on_db m = (\<lambda>(s, x). case m s of (r, s') \<Rightarrow> (r, (s', x)))"

definition execute_next_msg ::
    "'db database \<Rightarrow> rlp \<Rightarrow> ('db, 'x) exec_engine \<Rightarrow> ('db \<times> 'x, bool) M" where
  "execute_next_msg D R X =
     bindM (readM (\<lambda>(s, x). get_head_message_index D R s)) (\<lambda>consensus_head.
     bindM (readM (\<lambda>(s, x). head_message_index X s x)) (\<lambda>exec_head.
     let msg_idx = (if exec_head = - 1 then 0 else exec_head + 1) in
     bindM (readM (\<lambda>(s, x). unwrap_or (get_message_count D R s) 0)) (\<lambda>message_count.
     if message_count \<le> msg_idx then okM False
     else
     bindM (readM (\<lambda>(s, x). get_message_with_metadata_and_block_info D R s msg_idx)) (\<lambda>msg_and_block.
     bindM (if msg_idx + 1 < message_count
            then bindM (readM (\<lambda>(s, x). get_message D R s (msg_idx + 1))) (\<lambda>m. okM (Some m))
            else okM None) (\<lambda>msg_for_prefetch.
     bindM (\<lambda>(s, x). case digest_message X s msg_idx (message_with_meta msg_and_block) msg_for_prefetch x
                     of (r, x') \<Rightarrow> (r, (s, x'))) (\<lambda>res.
     let b = store_result R msg_idx res new_batch in
     bindM (on_db (db_write D b)) (\<lambda>_.
     okM (msg_idx + 1 \<le> consensus_head))))))))"

text \<open>
  \<open>start\<close> repeats the step for ever; here a number of times.  An error is logged and the loop goes on.
\<close>

fun start_streamer ::
    "'db database \<Rightarrow> rlp \<Rightarrow> ('db, 'x) exec_engine \<Rightarrow> nat \<Rightarrow> ('db \<times> 'x, unit) M" where
  "start_streamer D R X 0 = okM ()"
| "start_streamer D R X (Suc n) =
     matchM (execute_next_msg D R X) (\<lambda>_. start_streamer D R X n) (\<lambda>_. start_streamer D R X n)"

end
