(* ===== verification/Tracker.thy ===== *)
theory Tracker
  imports Multiplexer Streamer
begin

text \<open>
  \<open>crates/inbox/src/tracker.rs\<close>: the inbox tracker, which checks the delayed messages and the
  sequencer batches the parent chain delivers against their accumulators, records them in the
  database, and turns batches into messages for the streamer.  It shares the database with the
  streamer and keeps an LRU cache of batch metadata (the crate \<open>lru\<close>, a parameter).
\<close>

section \<open>Data\<close>

record SnapSyncConfig =
  snap_enabled :: bool
  snap_delayed_count :: u64
  snap_batch_count :: u64
  snap_prev_batch_message_count :: u64

record BatchMetadata =
  accumulator :: b256
  bm_message_count :: u64
  bm_delayed_message_count :: u64
  parent_chain_block :: u64

text \<open>\<open>TimeBounds\<close> and \<open>SequencerInboxBatch\<close> of \<open>crates/inbox-bridge/src/types.rs\<close>.\<close>

record TimeBounds =
  tb_min_timestamp :: u64
  tb_max_timestamp :: u64
  tb_min_block_number :: u64
  tb_max_block_number :: u64

record SequencerInboxBatch =
  sequence_number :: u64
  before_inbox_acc :: b256
  after_inbox_acc :: b256
  after_message_count :: u64
  after_delayed_count :: u64
  after_delayed_acc :: b256
  time_bounds :: TimeBounds
  data_location :: u8
  bridge_address :: address
  parent_chain_block_number :: u64
  batch_block_hash :: b256
  tx_hash :: b256
  serialized :: bytes

record 'c lru =
  lru_get :: "u64 \<Rightarrow> 'c \<Rightarrow> BatchMetadata option \<times> 'c"
  lru_put :: "u64 \<Rightarrow> BatchMetadata \<Rightarrow> 'c \<Rightarrow> 'c"
  lru_pop :: "u64 \<Rightarrow> 'c \<Rightarrow> 'c"

text \<open>The code a tracker is linked with, and its state: the shared database and the cache.\<close>

record ('db, 'c) env =
  ev_db :: "'db database"
  ev_rlp :: rlp
  ev_keccak :: keccak
  ev_brotli :: brotli
  ev_lru :: "'c lru"

record ('db, 'c) tracker =
  tr_db :: 'db
  tr_cache :: 'c

type_synonym ('db, 'c, 'a) T = "(('db, 'c) tracker, 'a) M"

definition db_op :: "('db, 'a) M \<Rightarrow> ('db, 'c, 'a) T" where
  "db_op m = (\<lambda>t. case m (tr_db t) of (r, s) \<Rightarrow> (r, t\<lparr>tr_db := s\<rparr>))"

definition db_read :: "('db \<Rightarrow> 'a result) \<Rightarrow> ('db, 'c, 'a) T" where
  "db_read f = readM (\<lambda>t. f (tr_db t))"

definition cache_op :: "('c \<Rightarrow> 'c) \<Rightarrow> ('db, 'c, unit) T" where
  "cache_op f = (\<lambda>t. (Ok (), t\<lparr>tr_cache := f (tr_cache t)\<rparr>))"

definition no_metadata :: BatchMetadata where
  "no_metadata = \<lparr>accumulator = 0, bm_message_count = 0, bm_delayed_message_count = 0,
     parent_chain_block = 0\<rparr>"

section \<open>Initialisation and counters\<close>

definition put_if_missing ::
    "'db database \<Rightarrow> rlp \<Rightarrow> 'db \<Rightarrow> bytes \<Rightarrow> batch \<Rightarrow> batch result" where
  "put_if_missing D R s key b =
     bindR (db_has D s key) (\<lambda>has.
     Ok (if \<not> has then batch_put b key (enc (rlp_u64 R) 0) else b))"

definition initialize :: "'db database \<Rightarrow> rlp \<Rightarrow> ('db, unit) M" where
  "initialize D R =
     bindM (readM (\<lambda>s. put_if_missing D R s DELAYED_MESSAGE_COUNT_KEY new_batch)) (\<lambda>b.
     bindM (readM (\<lambda>s. put_if_missing D R s SEQUENCER_BATCH_COUNT_KEY b)) (\<lambda>b.
     bindM (readM (\<lambda>s. put_if_missing D R s MESSAGE_COUNT_KEY b)) (\<lambda>b.
     db_write D b)))"

definition read_u64 :: "'db database \<Rightarrow> rlp \<Rightarrow> 'db \<Rightarrow> bytes \<Rightarrow> u64 result" where
  "read_u64 D R s key = bindR (db_get D s key) (decode_all (rlp_u64 R))"

definition get_delayed_count :: "'db database \<Rightarrow> rlp \<Rightarrow> 'db \<Rightarrow> u64 result" where
  "get_delayed_count D R s = read_u64 D R s DELAYED_MESSAGE_COUNT_KEY"

section \<open>Delayed messages\<close>

text \<open>A stored delayed message: the accumulator before it, then the message in the legacy layout.\<close>

definition delayed_entry :: "string \<Rightarrow> bytes \<Rightarrow> (b256 \<times> L1IncomingMessage) result" where
  "delayed_entry too_short data =
     (if length data < 32 then Err (Bail too_short [])
      else bindR (parse_incoming_l1_message_legacy (drop 32 data))
             (\<lambda>msg. Ok (un_be256 (take 32 data), msg)))"

definition acc_after :: "keccak \<Rightarrow> b256 \<Rightarrow> L1IncomingMessage \<Rightarrow> b256" where
  "acc_after keccak256 prev msg = hash_after keccak256 prev (be256 (delayed_message_body_hash keccak256 msg))"

definition get_delayed_acc :: "'db database \<Rightarrow> keccak \<Rightarrow> 'db \<Rightarrow> u64 \<Rightarrow> b256 result" where
  "get_delayed_acc D K s seqnum =
     bindR (db_has D s (db_key RLP_DELAYED_MESSAGE_PREFIX seqnum)) (\<lambda>has.
     if has then
       bindR (db_get D s (db_key RLP_DELAYED_MESSAGE_PREFIX seqnum)) (\<lambda>data.
       bindR (delayed_entry ''delayed message entry missing accumulator'' data) (\<lambda>(prev, msg).
       Ok (acc_after K prev msg)))
     else
     bindR (db_has D s (db_key LEGACY_DELAYED_MESSAGE_PREFIX seqnum)) (\<lambda>has.
     if has then
       bindR (db_get D s (db_key LEGACY_DELAYED_MESSAGE_PREFIX seqnum)) (\<lambda>data.
       bindR (delayed_entry ''delayed message legacy entry missing accumulator'' data) (\<lambda>(prev, msg).
       Ok (acc_after K prev msg)))
     else Err (Bail ''accumulator not found: delayed {}'' [unat seqnum])))"

definition legacy_get_delayed_message_and_accumulator ::
    "'db database \<Rightarrow> 'db \<Rightarrow> u64 \<Rightarrow> (L1IncomingMessage \<times> b256) result" where
  "legacy_get_delayed_message_and_accumulator D s seqnum =
     bindR (db_get D s (db_key LEGACY_DELAYED_MESSAGE_PREFIX seqnum)) (\<lambda>data.
     bindR (delayed_entry ''delayed message legacy entry missing accumulator'' data) (\<lambda>(acc, msg).
     Ok (msg, acc)))"

definition get_delayed_message_accumulator_and_parent_chain_block_number ::
    "'db database \<Rightarrow> 'db \<Rightarrow> u64 \<Rightarrow> (L1IncomingMessage \<times> b256 \<times> u64) result" where
  "get_delayed_message_accumulator_and_parent_chain_block_number D s seqnum =
     bindR (db_has D s (db_key RLP_DELAYED_MESSAGE_PREFIX seqnum)) (\<lambda>has.
     if has then
       bindR (db_get D s (db_key RLP_DELAYED_MESSAGE_PREFIX seqnum)) (\<lambda>data.
       bindR (delayed_entry ''delayed message new entry missing accumulator'' data) (\<lambda>(acc, msg).
       bindR (db_has D s (db_key PARENT_CHAIN_BLOCK_NUMBER_PREFIX seqnum)) (\<lambda>has_block.
       bindR (if has_block then
                bindR (db_get D s (db_key PARENT_CHAIN_BLOCK_NUMBER_PREFIX seqnum)) (\<lambda>v.
                if length v \<noteq> 8 then Err (Bail ''invalid parent chain block number encoding'' [])
                else Ok (un_be64 v))
              else Ok (block_number (header msg))) (\<lambda>parent_block.
       Ok (msg, acc, parent_block)))))
     else
       bindR (legacy_get_delayed_message_and_accumulator D s seqnum) (\<lambda>(msg, acc).
       Ok (msg, acc, 0)))"

definition get_delayed_message :: "'db database \<Rightarrow> 'db \<Rightarrow> u64 \<Rightarrow> L1IncomingMessage result" where
  "get_delayed_message D s seqnum =
     bindR (get_delayed_message_accumulator_and_parent_chain_block_number D s seqnum)
       (\<lambda>(msg, _, _). Ok msg)"

definition get_delayed_message_bytes :: "'db database \<Rightarrow> 'db \<Rightarrow> u64 \<Rightarrow> bytes result" where
  "get_delayed_message_bytes D s seqnum =
     bindR (get_delayed_message D s seqnum) serialize_incoming_l1_message_legacy"

section \<open>Batch metadata\<close>

definition encode_metadata :: "rlp \<Rightarrow> BatchMetadata \<Rightarrow> bytes" where
  "encode_metadata R meta =
     enc (rlp_b256 R) (accumulator meta) @ enc (rlp_u64 R) (bm_message_count meta)
     @ enc (rlp_u64 R) (bm_delayed_message_count meta) @ enc (rlp_u64 R) (parent_chain_block meta)"

definition decode_metadata :: "rlp \<Rightarrow> bytes \<Rightarrow> BatchMetadata result" where
  "decode_metadata R data =
     bindR (dec (rlp_b256 R) data) (\<lambda>(acc, bytes).
     bindR (dec (rlp_u64 R) bytes) (\<lambda>(msg_count, bytes).
     bindR (dec (rlp_u64 R) bytes) (\<lambda>(delayed_count, bytes).
     bindR (dec (rlp_u64 R) bytes) (\<lambda>(parent_block, bytes).
     Ok \<lparr>accumulator = acc, bm_message_count = msg_count,
         bm_delayed_message_count = delayed_count, parent_chain_block = parent_block\<rparr>))))"

definition get_batch_metadata :: "('db, 'c) env \<Rightarrow> u64 \<Rightarrow> ('db, 'c, BatchMetadata) T" where
  "get_batch_metadata ev seqnum =
     bindM (\<lambda>t. case lru_get (ev_lru ev) seqnum (tr_cache t) of (m, c) \<Rightarrow> (Ok m, t\<lparr>tr_cache := c\<rparr>)) (\<lambda>cached.
     case cached of
       Some m \<Rightarrow> okM m
     | None \<Rightarrow>
         bindM (db_read (\<lambda>s. db_has (ev_db ev) s (db_key SEQUENCER_BATCH_META_PREFIX seqnum))) (\<lambda>has.
         if \<not> has then bailM (Bail ''accumulator not found: no metadata for batch {}'' [unat seqnum])
         else
         bindM (db_read (\<lambda>s. db_get (ev_db ev) s (db_key SEQUENCER_BATCH_META_PREFIX seqnum))) (\<lambda>data.
         bindM (liftR (decode_metadata (ev_rlp ev) data)) (\<lambda>meta.
         bindM (cache_op (lru_put (ev_lru ev) seqnum meta)) (\<lambda>_.
         okM meta)))))"

definition get_batch_message_count :: "('db, 'c) env \<Rightarrow> u64 \<Rightarrow> ('db, 'c, u64) T" where
  "get_batch_message_count ev seqnum =
     bindM (get_batch_metadata ev seqnum) (\<lambda>m. okM (bm_message_count m))"

definition get_batch_parent_chain_block :: "('db, 'c) env \<Rightarrow> u64 \<Rightarrow> ('db, 'c, u64) T" where
  "get_batch_parent_chain_block ev seqnum =
     bindM (get_batch_metadata ev seqnum) (\<lambda>m. okM (parent_chain_block m))"

definition get_batch_acc :: "('db, 'c) env \<Rightarrow> u64 \<Rightarrow> ('db, 'c, b256) T" where
  "get_batch_acc ev seqnum =
     bindM (get_batch_metadata ev seqnum) (\<lambda>m. okM (accumulator m))"

text \<open>The repair loop: down to the last batch that has metadata.\<close>

function repair_count :: "'db database \<Rightarrow> 'db \<Rightarrow> u64 \<Rightarrow> bool \<Rightarrow> (u64 \<times> bool) result" where
  "repair_count D s count repaired =
     (if count > 0 then
        bindR (db_has D s (db_key SEQUENCER_BATCH_META_PREFIX (count - 1))) (\<lambda>has.
        if has then Ok (count, repaired) else repair_count D s (count - 1) True)
      else Ok (count, repaired))"
  by pat_completeness auto
termination
  by (relation "measure (\<lambda>(D, s, count, repaired). unat count)") (auto simp: unat_minus_one unat_gt_0)

declare repair_count.simps [simp del]

definition get_batch_count :: "'db database \<Rightarrow> rlp \<Rightarrow> ('db, u64) M" where
  "get_batch_count D R =
     bindM (readM (\<lambda>s. read_u64 D R s SEQUENCER_BATCH_COUNT_KEY)) (\<lambda>count.
     if count = 0 then okM 0
     else
     bindM (readM (\<lambda>s. repair_count D s count False)) (\<lambda>(count, repaired).
     bindM (if repaired
            then db_write D (batch_put new_batch SEQUENCER_BATCH_COUNT_KEY (enc (rlp_u64 R) count))
            else okM ()) (\<lambda>_.
     okM count)))"

text \<open>The cache entries of the deleted keys are dropped while the keys are read.\<close>

definition metadata_key_index :: "bytes \<Rightarrow> u64 option" where
  "metadata_key_index key =
     (let prefix_len = length SEQUENCER_BATCH_META_PREFIX in
      if length key \<ge> prefix_len + 8 then Some (un_be64 (take 8 (drop prefix_len key))) else None)"

definition delete_batch_metadata_starting_at :: "('db, 'c) env \<Rightarrow> u64 \<Rightarrow> ('db, 'c, unit) T" where
  "delete_batch_metadata_starting_at ev start_index = (\<lambda>t.
     case db_scan (ev_db ev) (tr_db t) SEQUENCER_BATCH_META_PREFIX (uint64_to_key start_index) of
       (entries, err) \<Rightarrow>
         let b = fold (\<lambda>(key, _) b. batch_delete b key) entries new_batch;
             c = fold (\<lambda>(key, _) c. case metadata_key_index key of
                          Some idx \<Rightarrow> lru_pop (ev_lru ev) idx c | None \<Rightarrow> c) entries (tr_cache t);
             t = t\<lparr>tr_cache := c\<rparr>
         in (case err of Some e \<Rightarrow> (Err e, t) | None \<Rightarrow> db_op (db_write (ev_db ev) b) t))"

section \<open>Recording delayed messages\<close>

text \<open>The iteration over the batches that sequenced a dropped delayed message.\<close>

fun reorg_seq_batches ::
    "rlp \<Rightarrow> bool \<Rightarrow> u64 \<Rightarrow> (bytes \<times> bytes) list \<Rightarrow> batch \<Rightarrow> u64 option \<Rightarrow> (batch \<times> u64 option) result" where
  "reorg_seq_batches R can_reorg new_delayed_count [] b to_count = Ok (b, to_count)"
| "reorg_seq_batches R can_reorg new_delayed_count ((key, val) # entries) b to_count =
     bindR (decode_all (rlp_u64 R) val) (\<lambda>batch_seq_num.
     if \<not> can_reorg then
       Err (Bail (''reorging of sequencer batch number {} via delayed messages reorg to count {} '' @
                  ''disabled'') [unat batch_seq_num, unat new_delayed_count])
     else
       reorg_seq_batches R can_reorg new_delayed_count entries (batch_delete b key)
         (case to_count of None \<Rightarrow> Some batch_seq_num | Some n \<Rightarrow> Some n))"

definition set_delayed_count_reorg_and_write_batch ::
    "('db, 'c) env \<Rightarrow> batch \<Rightarrow> u64 \<Rightarrow> u64 \<Rightarrow> bool \<Rightarrow> ('db, 'c, batch) T" where
  "set_delayed_count_reorg_and_write_batch ev b first_new_delayed_message_pos new_delayed_count
       can_reorg_batches =
     (if first_new_delayed_message_pos > new_delayed_count then
        bailM (Bail ''firstNewDelayedMessagePos {} is after newDelayedCount {}''
                 [unat first_new_delayed_message_pos, unat new_delayed_count])
      else
      let D = ev_db ev; R = ev_rlp ev; start = uint64_to_key new_delayed_count in
      bindM (db_read (\<lambda>s. delete_starting_at D s b RLP_DELAYED_MESSAGE_PREFIX start)) (\<lambda>b.
      bindM (db_read (\<lambda>s. delete_starting_at D s b PARENT_CHAIN_BLOCK_NUMBER_PREFIX start)) (\<lambda>b.
      bindM (db_read (\<lambda>s. delete_starting_at D s b LEGACY_DELAYED_MESSAGE_PREFIX start)) (\<lambda>b.
      let b = batch_put b DELAYED_MESSAGE_COUNT_KEY (enc (rlp_u64 R) new_delayed_count) in
      bindM (db_read (\<lambda>s.
        case db_scan D s DELAYED_SEQUENCED_PREFIX (uint64_to_key (first_new_delayed_message_pos + 1)) of
          (entries, err) \<Rightarrow>
            bindR (reorg_seq_batches R can_reorg_batches new_delayed_count entries b None) (\<lambda>r.
            case err of Some e \<Rightarrow> Err e | None \<Rightarrow> Ok r))) (\<lambda>(b, reorg_seq_batches_to_count).
      case reorg_seq_batches_to_count of
        Some count \<Rightarrow>
          let b = batch_put b SEQUENCER_BATCH_COUNT_KEY (enc (rlp_u64 R) count) in
          bindM (delete_batch_metadata_starting_at ev count) (\<lambda>_. okM b)
      | None \<Rightarrow> okM b)))))"

definition reorg_delayed_to :: "('db, 'c) env \<Rightarrow> u64 \<Rightarrow> ('db, 'c, unit) T" where
  "reorg_delayed_to ev new_delayed_count =
     bindM (set_delayed_count_reorg_and_write_batch ev new_batch new_delayed_count new_delayed_count True)
       (\<lambda>b. db_op (db_write (ev_db ev) b))"

type_synonym delayed_msg = "u64 \<times> b256 \<times> bytes"

text \<open>The skip loop of snap sync; \<open>None\<close> when nothing is left.\<close>

fun skip_to :: "u64 \<Rightarrow> b256 \<Rightarrow> delayed_msg list \<Rightarrow> (u64 \<times> b256 \<times> delayed_msg list) option" where
  "skip_to first_keep next_acc [] = None"
| "skip_to first_keep next_acc ((pos, acc, bytes) # msgs) =
     (let next_acc = (if pos + 1 = first_keep then acc else next_acc) in
      if pos < first_keep then skip_to first_keep next_acc msgs
      else Some (pos, next_acc, (pos, acc, bytes) # msgs))"

fun delayed_puts ::
    "keccak \<Rightarrow> delayed_msg list \<Rightarrow> u64 \<Rightarrow> b256 \<Rightarrow> batch \<Rightarrow> (u64 \<times> b256 \<times> batch) result" where
  "delayed_puts K [] pos next_acc b = Ok (pos, next_acc, b)"
| "delayed_puts K ((seqnum, before_acc, msg_bytes) # msgs) pos next_acc b =
     (if seqnum \<noteq> pos then
        Err (Bail ''unexpected delayed sequence number {}, expected {}'' [unat seqnum, unat pos])
      else
      bindR (parse_incoming_l1_message_legacy msg_bytes) (\<lambda>msg.
      let computed_after = acc_after K next_acc msg in
      if next_acc \<noteq> before_acc then
        Err (Bail ''previous delayed accumulator mismatch for message {}'' [unat seqnum])
      else
        delayed_puts K msgs (pos + 1) computed_after
          (batch_put b (db_key RLP_DELAYED_MESSAGE_PREFIX seqnum) (be256 next_acc @ msg_bytes))))"

definition add_delayed_messages ::
    "('db, 'c) env \<Rightarrow> delayed_msg list \<Rightarrow> SnapSyncConfig option \<Rightarrow> ('db, 'c, unit) T" where
  "add_delayed_messages ev messages snap_sync =
     (if messages = [] then okM ()
      else
      let pos = fst (hd messages);
          kept = (case snap_sync of
                    Some cfg \<Rightarrow>
                      (if snap_enabled cfg \<and> pos < snap_delayed_count cfg then
                         skip_to (if snap_delayed_count cfg > 0 then snap_delayed_count cfg - 1
                                  else snap_delayed_count cfg) 0 messages
                       else Some (pos, 0, messages))
                  | None \<Rightarrow> Some (pos, 0, messages))
      in
      case kept of
        None \<Rightarrow> okM ()
      | Some (pos, next_acc, msgs) \<Rightarrow>
      bindM (if pos > 0 then
               bindM (db_read (\<lambda>s. ok_or_none (get_delayed_acc (ev_db ev) (ev_keccak ev) s (pos - 1)))) (\<lambda>r.
               case r of Some prev \<Rightarrow> okM prev
                       | None \<Rightarrow> bailM (Bail ''missing previous delayed message'' []))
             else okM next_acc) (\<lambda>next_acc.
      bindM (liftR (delayed_puts (ev_keccak ev) msgs pos next_acc new_batch)) (\<lambda>(end_pos, _, b).
      bindM (set_delayed_count_reorg_and_write_batch ev b pos end_pos True) (\<lambda>b.
      db_op (db_write (ev_db ev) b)))))"

section \<open>Recording batches\<close>

fun check_batches ::
    "'db database \<Rightarrow> keccak \<Rightarrow> 'db \<Rightarrow> SequencerInboxBatch list \<Rightarrow> u64 \<Rightarrow> b256 \<Rightarrow> (u64 \<times> b256) result" where
  "check_batches D K s [] pos next_acc = Ok (pos, next_acc)"
| "check_batches D K s (b # bs) pos next_acc =
     (if sequence_number b \<noteq> pos then
        Err (Bail ''unexpected batch sequence number {} expected {}'' [unat (sequence_number b), unat pos])
      else if next_acc \<noteq> before_inbox_acc b then
        Err (Bail ''previous batch accumulator mismatch'' [])
      else
      bindR (if after_delayed_count b > 0 then
               bindR (ok_or_none (get_delayed_acc D K s (after_delayed_count b - 1))) (\<lambda>have_delayed.
               if have_delayed \<noteq> Some (after_delayed_acc b) then
                 Err (Bail ''delayed message accumulator doesn't match sequencer batch'' [])
               else Ok ())
             else Ok ()) (\<lambda>_.
      check_batches D K s bs (pos + 1) (after_inbox_acc b)))"

definition l2_segment :: "bytes \<Rightarrow> bool" where
  "l2_segment seg \<longleftrightarrow> seg \<noteq> [] \<and> (hd seg = 0 \<or> hd seg = 1)"

definition batch_metadata :: "SequencerMessage \<Rightarrow> SequencerInboxBatch \<Rightarrow> BatchMetadata \<Rightarrow> BatchMetadata" where
  "batch_metadata seq_msg b last_meta =
     (let l2_count = of_nat (length (filter l2_segment (segments seq_msg)));
          delayed_inc = sat_sub (after_delayed_count b) (bm_delayed_message_count last_meta)
      in \<lparr>accumulator = after_inbox_acc b,
          bm_message_count = bm_message_count last_meta + l2_count + delayed_inc,
          bm_delayed_message_count = after_delayed_count b,
          parent_chain_block = parent_chain_block_number b\<rparr>)"

fun batch_puts ::
    "rlp \<Rightarrow> brotli \<Rightarrow> SequencerInboxBatch list \<Rightarrow> BatchMetadata \<Rightarrow> batch \<Rightarrow> (u64 \<times> BatchMetadata) list \<Rightarrow>
     (batch \<times> (u64 \<times> BatchMetadata) list) result" where
  "batch_puts R brotli [] last_meta db_batch to_cache = Ok (db_batch, to_cache)"
| "batch_puts R brotli (b # bs) last_meta db_batch to_cache =
     bindR (parse_sequencer_message R brotli (sequence_number b) (Some (batch_block_hash b)) (serialized b))
       (\<lambda>seq_msg.
     let meta = batch_metadata seq_msg b last_meta;
         db_batch = batch_put db_batch (db_key SEQUENCER_BATCH_META_PREFIX (sequence_number b))
                      (encode_metadata R meta);
         db_batch = (if after_delayed_count b > bm_delayed_message_count last_meta
                     then batch_put db_batch (db_key DELAYED_SEQUENCED_PREFIX (after_delayed_count b))
                            (enc (rlp_u64 R) (sequence_number b))
                     else db_batch)
     in batch_puts R brotli bs meta db_batch (to_cache @ [(sequence_number b, meta)]))"

definition add_sequencer_batches ::
    "('db, 'c) env \<Rightarrow> SequencerInboxBatch list \<Rightarrow> ('db, 'c, unit) T" where
  "add_sequencer_batches ev batches =
     (if batches = [] then okM ()
      else
      let D = ev_db ev; R = ev_rlp ev; pos = sequence_number (hd batches) in
      bindM (if pos > 0 then get_batch_metadata ev (pos - 1) else okM no_metadata) (\<lambda>prev_meta.
      bindM (db_read (\<lambda>s. delete_starting_at D s new_batch DELAYED_SEQUENCED_PREFIX
                       (uint64_to_key (bm_delayed_message_count prev_meta + 1)))) (\<lambda>db_batch.
      bindM (db_read (\<lambda>s. check_batches D (ev_keccak ev) s batches pos (accumulator prev_meta))) (\<lambda>(pos, _).
      bindM (liftR (batch_puts R (ev_brotli ev) batches prev_meta db_batch [])) (\<lambda>(db_batch, to_cache).
      bindM (delete_batch_metadata_starting_at ev pos) (\<lambda>_.
      let db_batch = batch_put db_batch SEQUENCER_BATCH_COUNT_KEY (enc (rlp_u64 R) pos) in
      bindM (db_op (db_write D db_batch)) (\<lambda>_.
      cache_op (fold (\<lambda>(seq, meta) c. lru_put (ev_lru ev) seq meta c) to_cache))))))))"

section \<open>Finding and dropping batches\<close>

fun find_loop :: "('db, 'c) env \<Rightarrow> u64 \<Rightarrow> nat \<Rightarrow> u64 \<Rightarrow> u64 \<Rightarrow> ('db, 'c, u64 \<times> bool) T" where
  "find_loop ev pos 0 low high = liftR Diverge"
| "find_loop ev pos (Suc fuel) low high =
     (let mid = (low + high) div 2 in
      bindM (get_batch_message_count ev mid) (\<lambda>count.
      if count < pos then
        (let low = mid + 1 in
         if high = low then okM (high, True) else find_loop ev pos fuel low high)
      else if count = pos then okM (mid + 1, True)
      else if count = pos + 1 \<or> mid = low then okM (mid, True)
      else
        (let high = mid in
         if high = low then okM (high, True) else find_loop ev pos fuel low high)))"

definition find_inbox_batch_containing_message :: "('db, 'c) env \<Rightarrow> u64 \<Rightarrow> ('db, 'c, u64 \<times> bool) T" where
  "find_inbox_batch_containing_message ev pos =
     bindM (db_op (get_batch_count (ev_db ev) (ev_rlp ev))) (\<lambda>batch_count.
     if batch_count = 0 then okM (0, False)
     else
     let low = 0; high = batch_count - 1 in
     bindM (get_batch_message_count ev high) (\<lambda>last_count.
     if last_count \<le> pos then okM (0, False)
     else find_loop ev pos (unat batch_count) low high))"

definition reorg_batches_to_db :: "('db, 'c) env \<Rightarrow> u64 \<Rightarrow> ('db, 'c, u64) T" where
  "reorg_batches_to_db ev count =
     bindM (if count > 0 then
              matchM (get_batch_metadata ev (count - 1)) okM
                (\<lambda>e. bailM (Wrap ''attempted to reorg to future batch count: {}'' e))
            else okM no_metadata) (\<lambda>prev_batch_meta.
     bindM (db_read (\<lambda>s. delete_starting_at (ev_db ev) s new_batch DELAYED_SEQUENCED_PREFIX
                      (uint64_to_key (bm_delayed_message_count prev_batch_meta + 1)))) (\<lambda>db_batch.
     bindM (delete_batch_metadata_starting_at ev count) (\<lambda>_.
     let db_batch = batch_put db_batch SEQUENCER_BATCH_COUNT_KEY (enc (rlp_u64 (ev_rlp ev)) count) in
     bindM (db_op (db_write (ev_db ev) db_batch)) (\<lambda>_.
     okM (bm_message_count prev_batch_meta)))))"

section \<open>Streaming batches\<close>

text \<open>\<open>TrackerBackend\<close>: the batches handed in, read one after the other.\<close>

record TrackerBackend =
  tb_batches :: "SequencerInboxBatch list"
  tb_batch_idx :: nat
  tb_pos_within :: u64

definition build_backend :: "SequencerInboxBatch list \<Rightarrow> TrackerBackend" where
  "build_backend batches = \<lparr>tb_batches = batches, tb_batch_idx = 0, tb_pos_within = 0\<rparr>"

definition current_batch :: "TrackerBackend \<Rightarrow> SequencerInboxBatch option" where
  "current_batch b =
     (if tb_batch_idx b < length (tb_batches b) then Some (tb_batches b ! tb_batch_idx b) else None)"

definition tracker_backend :: "'db database \<Rightarrow> 'db \<Rightarrow> TrackerBackend inbox_backend" where
  "tracker_backend D s =
     \<lparr>peek_sequencer_inbox = (\<lambda>b. case current_batch b of
          None \<Rightarrow> (Err (Bail ''read past end of specified sequencer batches'' []), b)
        | Some x \<Rightarrow> (Ok (serialized x, Some (batch_block_hash x)), b)),
      get_sequencer_inbox_position = (\<lambda>b. case current_batch b of Some x \<Rightarrow> sequence_number x | None \<Rightarrow> 0),
      advance_sequencer_inbox = (\<lambda>b.
        if tb_batch_idx b < length (tb_batches b) then b\<lparr>tb_batch_idx := tb_batch_idx b + 1\<rparr> else b),
      get_position_within_message = tb_pos_within,
      set_position_within_message = (\<lambda>pos b. b\<lparr>tb_pos_within := pos\<rparr>),
      read_delayed_inbox = (\<lambda>b seqnum. get_delayed_message D s seqnum)\<rparr>"

text \<open>Enough for every batch: a pop takes a segment or a delayed message, or ends the batch.\<close>

definition pop_fuel :: "SequencerInboxBatch list \<Rightarrow> nat" where
  "pop_fuel batches = length batches * (2 ^ 64 + 100 * 1024 + 2) + 1"

definition pop_batches ::
    "('db, 'c) env \<Rightarrow> SequencerInboxBatch list \<Rightarrow> u64 \<Rightarrow> 'db \<Rightarrow>
     MessageWithMetadataAndBlockInfo list result" where
  "pop_batches ev batches last_delayed s =
     fst (pop_all (tracker_backend (ev_db ev) s) (ev_rlp ev) (ev_brotli ev) (pop_fuel batches) []
            (new_multiplexer (build_backend batches) last_delayed))"

text \<open>
  Where the stream of messages continues: the position of the first message and the delayed
  messages read before it, or nothing when the batches do not fit the stored messages.
\<close>

definition last_delayed_of :: "'db database \<Rightarrow> rlp \<Rightarrow> 'db \<Rightarrow> BatchMetadata \<Rightarrow> u64 result" where
  "last_delayed_of D R s prev_meta =
     (if bm_delayed_message_count prev_meta = 0 then
        bindR (ok_or_none (get_delayed_count D R s)) (\<lambda>r.
        Ok (case r of Some cur_delayed \<Rightarrow> cur_delayed | None \<Rightarrow> bm_delayed_message_count prev_meta))
      else Ok (bm_delayed_message_count prev_meta))"

definition align_window ::
    "('db, 'c) env \<Rightarrow> u64 \<Rightarrow> BatchMetadata \<Rightarrow> u64 \<Rightarrow> ('db, 'c, (u64 \<times> u64) option) T" where
  "align_window ev first_seq prev_meta db_count =
     (if db_count = bm_message_count prev_meta
      then okM (Some (bm_message_count prev_meta, bm_delayed_message_count prev_meta))
      else
      let aligned = bindM (db_read (\<lambda>s. last_delayed_of (ev_db ev) (ev_rlp ev) s prev_meta))
                      (\<lambda>last_delayed. okM (Some (db_count, last_delayed))) in
      bindM (matchM (db_op (get_batch_count (ev_db ev) (ev_rlp ev))) okM (\<lambda>_. okM 0)) (\<lambda>batch_count.
      if batch_count = 0 \<and> first_seq = 0 \<and> db_count > 0 then aligned
      else
        matchM (find_inbox_batch_containing_message ev db_count)
          (\<lambda>(batch_idx, ok). if ok \<and> batch_idx = first_seq then aligned else okM None)
          (\<lambda>_. okM None)))"

definition add_sequencer_batches_and_stream ::
    "('db, 'c) env \<Rightarrow> SequencerInboxBatch list \<Rightarrow> ('db, 'c, unit) T" where
  "add_sequencer_batches_and_stream ev batches =
     (if batches = [] then okM ()
      else
      let D = ev_db ev; R = ev_rlp ev; first_seq = sequence_number (hd batches) in
      bindM (if first_seq > 0 then get_batch_metadata ev (first_seq - 1) else okM no_metadata) (\<lambda>prev_meta.
      bindM (db_read (\<lambda>s. read_u64 D R s MESSAGE_COUNT_KEY)) (\<lambda>db_count.
      bindM (align_window ev first_seq prev_meta db_count) (\<lambda>window.
      case window of
        None \<Rightarrow> okM ()
      | Some (first_msg, last_delayed) \<Rightarrow>
          bindM (db_read (pop_batches ev batches last_delayed)) (\<lambda>out.
          if out = [] then okM ()
          else
          bindM (db_read (\<lambda>s. read_u64 D R s MESSAGE_COUNT_KEY)) (\<lambda>cur_db_count.
          if cur_db_count \<noteq> first_msg then
            bailM (Bail ''non-contiguous append: db_count {} != expected {}''
                     [unat cur_db_count, unat first_msg])
          else
          bindM (db_op (add_confirmed_messages_and_end_batch D R first_msg out None)) (\<lambda>_.
          add_sequencer_batches ev batches)))))))"

end
