(* ===== verification/Bridge.thy ===== *)
theory Bridge
  imports Tracker
begin

text \<open>
  \<open>crates/inbox-bridge/src\<close>: the views of the parent chain.  \<open>traits.rs\<close> and
  \<open>types.rs\<close> are the interfaces the reader and the genesis bootstrap use; \<open>eth_sequencer.rs\<close>,
  \<open>eth_delayed.rs\<close> and \<open>header_reader.rs\<close> implement them over JSON-RPC.  The RPC calls
  themselves (\<open>RpcClient::call\<close> over \<open>reqwest\<close> and \<open>serde_json\<close>) are parameters, actions on
  an unknown world, as are the hexadecimal codecs of the crates \<open>hex\<close> and
  \<open>alloy_primitives\<close>; what the code does with the answers is modelled.
\<close>

section \<open>Types and traits\<close>

record DelayedInboxMessage =
  dim_seq_num :: u64
  dim_block_hash :: b256
  dim_before_inbox_acc :: b256
  dim_message :: L1IncomingMessage
  dim_parent_chain_block_number :: u64

text \<open>\<open>expect\<close> on the serialization.\<close>

definition dim_after_inbox_acc :: "keccak \<Rightarrow> DelayedInboxMessage \<Rightarrow> b256 result" where
  "dim_after_inbox_acc K m =
     (case serialize_incoming_l1_message_legacy (dim_message m) of
        Ok ser \<Rightarrow> Ok (hash_after K (dim_before_inbox_acc m) ser)
      | Err _ \<Rightarrow> Panic | Panic \<Rightarrow> Panic | Diverge \<Rightarrow> Diverge)"

record 'w DelayedBridge =
  bridge_message_count :: "u64 \<Rightarrow> ('w, u64) M"
  bridge_accumulator :: "u64 \<Rightarrow> u64 \<Rightarrow> b256 \<Rightarrow> ('w, b256) M"
  bridge_lookup :: "u64 \<Rightarrow> u64 \<Rightarrow> ('w, DelayedInboxMessage list) M"

record 'w SequencerInbox =
  inbox_batch_count :: "u64 \<Rightarrow> ('w, u64) M"
  inbox_accumulator :: "u64 \<Rightarrow> u64 \<Rightarrow> ('w, b256) M"
  inbox_lookup :: "u64 \<Rightarrow> u64 \<Rightarrow> ('w, SequencerInboxBatch list) M"
  inbox_message_bytes :: "u64 \<Rightarrow> u64 \<Rightarrow> b256 \<Rightarrow> b256 \<Rightarrow> ('w, bytes \<times> b256 \<times> u64 list) M"
  inbox_tx_input :: "b256 \<Rightarrow> ('w, bytes \<times> b256 list) M"

text \<open>A header is its number.\<close>

record 'w L1HeaderReader =
  last_header :: "('w, u64) M"
  latest_safe_block_nr :: "('w, u64) M"
  latest_finalized_block_nr :: "('w, u64) M"

section \<open>The answers of the RPC server\<close>

record RpcLog =
  log_address :: string
  log_data :: string
  log_topics :: "string list"
  log_blockNumber :: "string option"
  log_blockHash :: "string option"
  log_transactionHash :: "string option"

record RpcReceipt =
  rc_blockNumber :: "string option"
  rc_blockHash :: "string option"
  rc_logs :: "RpcLog list"

record RpcTx =
  tx_input :: string
  tx_blobs :: "string list option"

datatype block_range = Blocks u64 u64 | BlockHash b256

record log_filter =
  lf_blocks :: block_range
  lf_address :: "address list"
  lf_topics :: "b256 list list"

datatype block_id = BlockNumber u64 | BlockId b256

record 'w rpc =
  eth_call :: "address \<Rightarrow> bytes \<Rightarrow> block_id \<Rightarrow> ('w, string) M"
  eth_getLogs :: "log_filter \<Rightarrow> ('w, RpcLog list) M"
  eth_getTransactionReceipt :: "string \<Rightarrow> ('w, RpcReceipt) M"
  eth_getTransactionByHash :: "string \<Rightarrow> ('w, RpcTx) M"
  eth_getBlockByHash :: "string \<Rightarrow> ('w, string) M"
  eth_getBlockByNumber :: "string \<Rightarrow> ('w, string option) M"
  eth_blockNumber :: "('w, string) M"

text \<open>The codecs: \<open>hex::decode\<close>, \<open>FromStr\<close> and \<open>{:#x}\<close> of \<open>B256\<close> and \<open>Address\<close>.\<close>

record hexlib =
  hex_decode :: "string \<Rightarrow> bytes result"
  b256_from_str :: "string \<Rightarrow> b256 result"
  address_from_str :: "string \<Rightarrow> address result"
  fmt_b256 :: "b256 \<Rightarrow> string"
  fmt_address :: "address \<Rightarrow> string"

section \<open>Text and words\<close>

text \<open>\<open>trim_start_matches("0x")\<close> removes the prefix as often as it stands there.\<close>

fun trim_0x :: "string \<Rightarrow> string" where
  "trim_0x (a # b # s) = (if a = CHR ''0'' \<and> b = CHR ''x'' then trim_0x s else a # b # s)"
| "trim_0x s = s"

definition hex_digit :: "char \<Rightarrow> nat option" where
  "hex_digit c =
     (let n = of_char c :: nat in
      if 48 \<le> n \<and> n \<le> 57 then Some (n - 48)
      else if 97 \<le> n \<and> n \<le> 102 then Some (n - 87)
      else if 65 \<le> n \<and> n \<le> 70 then Some (n - 55)
      else None)"

fun hex_digits :: "nat \<Rightarrow> string \<Rightarrow> nat option" where
  "hex_digits acc [] = Some acc"
| "hex_digits acc (c # s) =
     (case hex_digit c of
        Some d \<Rightarrow> (if 16 * acc + d < 2 ^ 64 then hex_digits (16 * acc + d) s else None)
      | None \<Rightarrow> None)"

text \<open>\<open>u64::from_str_radix(s, 16)\<close>: a plus sign may come first, then at least one digit.\<close>

definition u64_from_hex :: "string \<Rightarrow> u64 option" where
  "u64_from_hex s =
     (let ds = (case s of c # r \<Rightarrow> if c = CHR ''+'' then r else s | [] \<Rightarrow> s) in
      if ds = [] then None else map_option of_nat (hex_digits 0 ds))"

definition ascii_lower :: "char \<Rightarrow> char" where
  "ascii_lower c =
     (let n = of_char c :: nat in if 65 \<le> n \<and> n \<le> 90 then char_of (n + 32) else c)"

definition eq_ignore_ascii_case :: "string \<Rightarrow> string \<Rightarrow> bool" where
  "eq_ignore_ascii_case a b \<longleftrightarrow> map ascii_lower a = map ascii_lower b"

text \<open>\<open>&data[a..b]\<close>, and \<open>U256::to::<u64>\<close>, which panics when the number does not fit.\<close>

definition slice :: "nat \<Rightarrow> nat \<Rightarrow> bytes \<Rightarrow> bytes result" where
  "slice a b xs = (if a \<le> b \<and> b \<le> length xs then Ok (take (b - a) (drop a xs)) else Panic)"

definition to_u64 :: "u256 \<Rightarrow> u64 result" where
  "to_u64 v = (if unat v < 2 ^ 64 then Ok (of_nat (unat v)) else Panic)"

definition u64_at_word :: "bytes \<Rightarrow> nat \<Rightarrow> u64 result" where
  "u64_at_word data a = bindR (slice a (a + 32) data) (\<lambda>w. to_u64 (un_be256 w))"

definition b256_at_word :: "bytes \<Rightarrow> nat \<Rightarrow> b256 result" where
  "b256_at_word data a = bindR (slice a (a + 32) data) (\<lambda>w. Ok (un_be256 w))"

text \<open>\<open>B256::from_str(s).unwrap_or_default()\<close> and its like.\<close>

definition or_zero :: "('a::zero) result \<Rightarrow> 'a" where
  "or_zero r = (case r of Ok x \<Rightarrow> x | _ \<Rightarrow> 0)"

definition opt_b256 :: "hexlib \<Rightarrow> string option \<Rightarrow> b256" where
  "opt_b256 H s = (case s of Some h \<Rightarrow> or_zero (b256_from_str H h) | None \<Rightarrow> 0)"

definition opt_u64 :: "string option \<Rightarrow> u64" where
  "opt_u64 s =
     (case s of Some h \<Rightarrow> (case u64_from_hex (trim_0x h) of Some n \<Rightarrow> n | None \<Rightarrow> 0) | None \<Rightarrow> 0)"

definition encode_selector :: "keccak \<Rightarrow> string \<Rightarrow> bytes" where
  "encode_selector K sig = take 4 (be256 (K (key_bytes sig)))"

definition SIG_BATCH_COUNT :: string where "SIG_BATCH_COUNT = ''batchCount()''"
definition SIG_INBOX_ACCS :: string where "SIG_INBOX_ACCS = ''inboxAccs(uint256)''"
definition SIG_DELAYED_COUNT :: string where "SIG_DELAYED_COUNT = ''delayedMessageCount()''"
definition SIG_DELAYED_INBOX_ACCS :: string where "SIG_DELAYED_INBOX_ACCS = ''delayedInboxAccs(uint256)''"
definition SIG_SEND_L2_FROM_ORIGIN :: string where
  "SIG_SEND_L2_FROM_ORIGIN = ''sendL2MessageFromOrigin(bytes)''"
definition EVT_MESSAGE_DELIVERED :: string where
  "EVT_MESSAGE_DELIVERED =
     ''MessageDelivered(uint256,bytes32,address,uint8,address,bytes32,uint256,uint64)''"
definition EVT_INBOX_MESSAGE_DELIVERED :: string where
  "EVT_INBOX_MESSAGE_DELIVERED = ''InboxMessageDelivered(uint256,bytes)''"
definition EVT_INBOX_MESSAGE_FROM_ORIGIN :: string where
  "EVT_INBOX_MESSAGE_FROM_ORIGIN = ''InboxMessageDeliveredFromOrigin(uint256)''"
definition EVT_SEQUENCER_BATCH_DELIVERED :: string where
  "EVT_SEQUENCER_BATCH_DELIVERED =
     ''SequencerBatchDelivered(uint256,bytes32,bytes32,bytes32,uint256,(uint64,uint64,uint64,uint64),uint8)''"
definition EVT_SEQUENCER_BATCH_DATA :: string where
  "EVT_SEQUENCER_BATCH_DATA = ''SequencerBatchData(uint256,bytes)''"

definition event_topic :: "keccak \<Rightarrow> string \<Rightarrow> b256" where
  "event_topic K evt = K (key_bytes evt)"

end
