(* ===== verification/Genesis.thy ===== *)
theory Genesis
  imports Bridge "HOL-Library.AList"
begin

text \<open>
  \<open>crates/node/src/genesis.rs\<close>: the genesis of a chain, computed from the init message found
  among the delayed messages.  The account storage, a \<open>BTreeMap\<close>, is an association list.  The
  construction of a chain specification from a genesis is the crate \<open>reth_chainspec\<close>'s and a
  parameter; so is the fetching of a baked genesis header.
\<close>

section \<open>Storage slots\<close>

type_synonym storage = "(b256 \<times> b256) list"

definition ARBOS_ADDR :: address where
  "ARBOS_ADDR = 0xA4B05FFFFFFFFFFFFFFFFFFFFFFFFFFFFFFFFFFF"
definition L2_GAS_LIMIT :: u64 where "L2_GAS_LIMIT = push_bit 50 1"

definition VERSION_OFFSET :: u64 where "VERSION_OFFSET = 0"
definition UPGRADE_VERSION_OFFSET :: u64 where "UPGRADE_VERSION_OFFSET = 1"
definition UPGRADE_TIMESTAMP_OFFSET :: u64 where "UPGRADE_TIMESTAMP_OFFSET = 2"
definition NETWORK_FEE_ACCOUNT_OFFSET :: u64 where "NETWORK_FEE_ACCOUNT_OFFSET = 3"
definition CHAIN_ID_OFFSET :: u64 where "CHAIN_ID_OFFSET = 4"
definition GENESIS_BLOCK_NUM_OFFSET :: u64 where "GENESIS_BLOCK_NUM_OFFSET = 5"
definition INFRA_FEE_ACCOUNT_OFFSET :: u64 where "INFRA_FEE_ACCOUNT_OFFSET = 6"
definition BROTLI_LEVEL_OFFSET :: u64 where "BROTLI_LEVEL_OFFSET = 7"
definition NATIVE_TOKEN_ENABLED_FROM_TIME_OFFSET :: u64 where "NATIVE_TOKEN_ENABLED_FROM_TIME_OFFSET = 8"

definition L1_PRICING_SUBSPACE :: u8 where "L1_PRICING_SUBSPACE = 0"
definition L2_PRICING_SUBSPACE :: u8 where "L2_PRICING_SUBSPACE = 1"
definition CHAIN_CONFIG_SUBSPACE :: u8 where "CHAIN_CONFIG_SUBSPACE = 7"

definition L2_SPEED_LIMIT_PER_SECOND_OFFSET :: u64 where "L2_SPEED_LIMIT_PER_SECOND_OFFSET = 0"
definition L2_PER_BLOCK_GAS_LIMIT_OFFSET :: u64 where "L2_PER_BLOCK_GAS_LIMIT_OFFSET = 1"
definition L2_BASE_FEE_WEI_OFFSET :: u64 where "L2_BASE_FEE_WEI_OFFSET = 2"
definition L2_MIN_BASE_FEE_WEI_OFFSET :: u64 where "L2_MIN_BASE_FEE_WEI_OFFSET = 3"
definition L2_GAS_BACKLOG_OFFSET :: u64 where "L2_GAS_BACKLOG_OFFSET = 4"
definition L2_PRICING_INERTIA_OFFSET :: u64 where "L2_PRICING_INERTIA_OFFSET = 5"
definition L2_BACKLOG_TOLERANCE_OFFSET :: u64 where "L2_BACKLOG_TOLERANCE_OFFSET = 6"
definition PRICE_PER_UNIT_OFFSET :: u64 where "PRICE_PER_UNIT_OFFSET = 7"

definition INITIAL_SPEED_LIMIT_PER_SECOND_V0 :: u64 where "INITIAL_SPEED_LIMIT_PER_SECOND_V0 = 1000000"
definition INITIAL_PER_BLOCK_GAS_LIMIT_V0 :: u64 where "INITIAL_PER_BLOCK_GAS_LIMIT_V0 = 20 * 1000000"
definition INITIAL_MIN_BASE_FEE_WEI :: "128 word" where "INITIAL_MIN_BASE_FEE_WEI = 100000000"
definition INITIAL_BASE_FEE_WEI :: "128 word" where "INITIAL_BASE_FEE_WEI = INITIAL_MIN_BASE_FEE_WEI"
definition INITIAL_PRICING_INERTIA :: u64 where "INITIAL_PRICING_INERTIA = 102"
definition INITIAL_BACKLOG_TOLERANCE :: u64 where "INITIAL_BACKLOG_TOLERANCE = 10"

lemmas genesis_offsets =
  VERSION_OFFSET_def UPGRADE_VERSION_OFFSET_def UPGRADE_TIMESTAMP_OFFSET_def NETWORK_FEE_ACCOUNT_OFFSET_def
  CHAIN_ID_OFFSET_def GENESIS_BLOCK_NUM_OFFSET_def INFRA_FEE_ACCOUNT_OFFSET_def BROTLI_LEVEL_OFFSET_def
  NATIVE_TOKEN_ENABLED_FROM_TIME_OFFSET_def L2_SPEED_LIMIT_PER_SECOND_OFFSET_def
  L2_PER_BLOCK_GAS_LIMIT_OFFSET_def L2_BASE_FEE_WEI_OFFSET_def L2_MIN_BASE_FEE_WEI_OFFSET_def
  L2_GAS_BACKLOG_OFFSET_def L2_PRICING_INERTIA_OFFSET_def L2_BACKLOG_TOLERANCE_OFFSET_def
  PRICE_PER_UNIT_OFFSET_def

text \<open>\<open>B256\<close> and \<open>U256\<close> are the same word here, so \<open>be_u256\<close> is the identity.\<close>

definition be_u256 :: "u256 \<Rightarrow> b256" where
  "be_u256 val = un_be256 (be256 val)"

definition be_u64 :: "u64 \<Rightarrow> b256" where
  "be_u64 val = be_u256 (ucast val)"

text \<open>The first 31 bytes of the key select a hashed page, the last one the place in it.\<close>

definition map_slot :: "keccak \<Rightarrow> bytes \<Rightarrow> b256 \<Rightarrow> b256" where
  "map_slot K storage_key key =
     (let key_bytes = be256 key; boundary = 31;
          hashed = be256 (K (storage_key @ take boundary key_bytes))
      in un_be256 (take boundary hashed @ [key_bytes ! boundary]))"

definition subspace :: "keccak \<Rightarrow> bytes \<Rightarrow> u8 \<Rightarrow> bytes" where
  "subspace K storage_key sid = be256 (K (storage_key @ [sid]))"

definition put_slot :: "keccak \<Rightarrow> bytes \<Rightarrow> u64 \<Rightarrow> b256 \<Rightarrow> storage \<Rightarrow> storage" where
  "put_slot K storage_key offset val st = AList.update (map_slot K storage_key (be_u64 offset)) val st"

text \<open>The loop over the words of a byte string; the last word holds the rest at its end.\<close>

function write_words :: "keccak \<Rightarrow> bytes \<Rightarrow> bytes \<Rightarrow> u64 \<Rightarrow> storage \<Rightarrow> storage" where
  "write_words K storage_key rest offset st =
     (if 32 \<le> length rest then
        write_words K storage_key (drop 32 rest) (offset + 1)
          (put_slot K storage_key offset (un_be256 (take 32 rest)) st)
      else if rest \<noteq> [] then
        put_slot K storage_key offset (un_be256 (replicate (32 - length rest) 0 @ rest)) st
      else st)"
  by pat_completeness auto
termination
  by (relation "measure (\<lambda>(K, storage_key, rest, offset, st). length rest)") auto

declare write_words.simps [simp del]

definition write_bytes :: "keccak \<Rightarrow> bytes \<Rightarrow> bytes \<Rightarrow> storage \<Rightarrow> storage" where
  "write_bytes K storage_key data st =
     write_words K storage_key data 1 (put_slot K storage_key 0 (be_u64 (of_nat (length data))) st)"

definition build_minimal_arbos_storage :: "keccak \<Rightarrow> u64 \<Rightarrow> bytes option \<Rightarrow> u256 \<Rightarrow> storage" where
  "build_minimal_arbos_storage K chainid chain_config_bytes l1_base_fee_wei =
     (let root_key = [];
          st = [];
          st = put_slot K root_key VERSION_OFFSET (be_u64 1) st;
          st = put_slot K root_key UPGRADE_VERSION_OFFSET (be_u64 0) st;
          st = put_slot K root_key UPGRADE_TIMESTAMP_OFFSET (be_u64 0) st;
          st = put_slot K root_key NETWORK_FEE_ACCOUNT_OFFSET 0 st;
          st = put_slot K root_key CHAIN_ID_OFFSET (be_u256 (ucast chainid)) st;
          st = put_slot K root_key GENESIS_BLOCK_NUM_OFFSET (be_u64 0) st;
          st = put_slot K root_key INFRA_FEE_ACCOUNT_OFFSET 0 st;
          st = put_slot K root_key BROTLI_LEVEL_OFFSET (be_u64 0) st;
          st = put_slot K root_key NATIVE_TOKEN_ENABLED_FROM_TIME_OFFSET (be_u64 0) st;
          st = (case chain_config_bytes of
                  Some cfg \<Rightarrow> write_bytes K (subspace K root_key CHAIN_CONFIG_SUBSPACE) cfg st
                | None \<Rightarrow> st);
          l2_space = subspace K root_key L2_PRICING_SUBSPACE;
          st = put_slot K l2_space L2_SPEED_LIMIT_PER_SECOND_OFFSET (be_u64 INITIAL_SPEED_LIMIT_PER_SECOND_V0) st;
          st = put_slot K l2_space L2_PER_BLOCK_GAS_LIMIT_OFFSET (be_u64 INITIAL_PER_BLOCK_GAS_LIMIT_V0) st;
          st = put_slot K l2_space L2_BASE_FEE_WEI_OFFSET (be_u256 (ucast INITIAL_BASE_FEE_WEI)) st;
          st = put_slot K l2_space L2_MIN_BASE_FEE_WEI_OFFSET (be_u256 (ucast INITIAL_MIN_BASE_FEE_WEI)) st;
          st = put_slot K l2_space L2_GAS_BACKLOG_OFFSET (be_u64 0) st;
          st = put_slot K l2_space L2_PRICING_INERTIA_OFFSET (be_u64 INITIAL_PRICING_INERTIA) st;
          st = put_slot K l2_space L2_BACKLOG_TOLERANCE_OFFSET (be_u64 INITIAL_BACKLOG_TOLERANCE) st;
          l1_space = subspace K root_key L1_PRICING_SUBSPACE
      in put_slot K l1_space PRICE_PER_UNIT_OFFSET (be_u256 l1_base_fee_wei) st)"

section \<open>The scan for the init message\<close>

lemma window_advances:
  assumes "start \<le> (latest :: u64)" and "min (sat_add start 9999) latest \<noteq> latest"
  shows "unat (sat_add (min (sat_add start 9999) latest) 1) > unat start"
    and "unat (min (sat_add start 9999) latest) < unat latest"
proof -
  let ?stop = "min (sat_add start 9999) latest"
  have ge: "unat start \<le> unat ?stop"
    using assms(1) unat_lt64 [of start] by (auto simp: min_def unat_sat_add word_le_nat_alt simp del: unat_lt64)
  show lt: "unat ?stop < unat latest" using assms(2) by (metis min.cobounded2 order_le_less word_less_nat_alt)
  then have "unat ?stop + 1 \<le> 2 ^ 64 - 1" using unat_lt64 [of latest] by (simp del: unat_lt64)
  with ge show "unat (sat_add ?stop 1) > unat start" by (simp add: unat_sat_add)
qed

text \<open>Windows of at most 10000 blocks; the first message of kind 11 ends the scan.\<close>

function scan_init ::
    "'w DelayedBridge \<Rightarrow> u64 \<Rightarrow> u64 \<Rightarrow> ('w, L1IncomingMessage option) M" where
  "scan_init B start latest =
     (if start \<le> latest then
        (let stop = min (sat_add start 9999) latest in
         bindM (bridge_lookup B start stop) (\<lambda>msgs.
         case find (\<lambda>m. kind (header (dim_message m)) = 11) msgs of
           Some found \<Rightarrow> okM (Some (dim_message found))
         | None \<Rightarrow>
             if stop = latest then okM None
             else scan_init B (sat_add stop 1) latest))
      else okM None)"
  by pat_completeness auto

termination
proof (relation "measure (\<lambda>(B, start, latest). unat latest + 1 - unat start)", simp, goal_cases)
  case (1 B start latest stop msgs)
  then show ?case
    using window_advances [of start latest] by (simp add: word_le_nat_alt)
qed

declare scan_init.simps [simp del]

record GenesisAccount =
  acct_nonce :: "u64 option"
  acct_balance :: u256
  acct_code :: "bytes option"
  acct_storage :: "storage option"

text \<open>The fields of \<open>alloy_genesis::Genesis\<close> the code sets; the others keep the crate's defaults.\<close>

record Genesis =
  gen_nonce :: u64
  gen_difficulty :: u256
  gen_timestamp :: u64
  gen_gas_limit :: u64
  gen_base_fee_per_gas :: "128 word option"
  gen_mix_hash :: b256
  gen_coinbase :: address
  gen_chain_id :: u64
  gen_london_block :: "u64 option"
  gen_cancun_time :: "u64 option"
  gen_alloc :: "(address \<times> GenesisAccount) list option"

definition genesis_of :: "keccak \<Rightarrow> ParsedInitMessage \<Rightarrow> Genesis" where
  "genesis_of K parsed =
     (let chainid = (case chain_id_u64 parsed of Some n \<Rightarrow> n | None \<Rightarrow> 421614);
          alloc_storage = build_minimal_arbos_storage K chainid (chain_config_json parsed)
                            (ParsedInitMessage.initial_l1_base_fee parsed)
      in \<lparr>gen_nonce = 1, gen_difficulty = 1, gen_timestamp = 0, gen_gas_limit = L2_GAS_LIMIT,
          gen_base_fee_per_gas = Some INITIAL_BASE_FEE_WEI, gen_mix_hash = 0, gen_coinbase = 0,
          gen_chain_id = chainid, gen_london_block = Some 0, gen_cancun_time = Some 0,
          gen_alloc =
            (if alloc_storage \<noteq> [] then
               Some [(ARBOS_ADDR, \<lparr>acct_nonce = Some 1, acct_balance = 0, acct_code = None,
                                  acct_storage = Some alloc_storage\<rparr>)]
             else None)\<rparr>)"

text \<open>
  The latest block to scan: the safe one, else the finalized one, else a guess.  \<open>from_genesis\<close> makes
  the specification and takes the chain id that is set on it afterwards.
\<close>

definition scan_limit :: "'w L1HeaderReader \<Rightarrow> u64 \<Rightarrow> ('w, u64) M" where
  "scan_limit HR from_block =
     matchM (latest_safe_block_nr HR) okM
       (\<lambda>_. matchM (latest_finalized_block_nr HR) okM (\<lambda>_. okM (from_block + 100000)))"

definition build_spec_from_init_message ::
    "keccak \<Rightarrow> (Genesis \<Rightarrow> u64 \<Rightarrow> 'spec) \<Rightarrow> 'w DelayedBridge \<Rightarrow> 'w L1HeaderReader \<Rightarrow> u64 \<Rightarrow>
     ('w, 'spec option) M" where
  "build_spec_from_init_message K from_genesis B HR deployed_at =
     bindM (scan_limit HR deployed_at) (\<lambda>latest.
     bindM (scan_init B deployed_at latest) (\<lambda>init_msg_opt.
     case init_msg_opt of
       None \<Rightarrow> okM None
     | Some init_msg \<Rightarrow>
         bindM (liftR (parse_init_message init_msg)) (\<lambda>parsed.
         okM (Some (from_genesis (genesis_of K parsed) (gen_chain_id (genesis_of K parsed)))))))"

end
