(* ===== verification/Reader.thy ===== *)
theory Reader
  imports Bridge
begin

text \<open>
  \<open>crates/inbox-reader/src/reader.rs\<close>: the loop that follows the parent chain and feeds the tracker.
  One iteration waits for the chain to be high enough, compares the counts and accumulators of the
  chain with those recorded, and fetches what is missing in a window of blocks.  The chain is the
  three traits of the bridge; what wakes the loop (a header, a closed subscription, the timer) is an
  action of the world.  Logging is left out.
\<close>

record InboxReaderConfig =
  delay_blocks :: u64
  check_delay_ms :: u64
  min_blocks_to_read :: u64
  default_blocks_to_read :: u64
  target_messages_read :: u64
  max_blocks_to_read :: u64
  read_mode :: string

definition default_reader_config :: InboxReaderConfig where
  "default_reader_config =
     \<lparr>delay_blocks = 0, check_delay_ms = 5000, min_blocks_to_read = 1, default_blocks_to_read = 200,
      target_messages_read = 500, max_blocks_to_read = 5000, read_mode = ''latest''\<rparr>"

datatype wake = Header u64 | Closed | Tick

text \<open>
  The parts a reader is made of, and the state it runs on: the tracker, the world, and its own flag and
  counters.  The configuration is the one the node hands in, the same at every call.
\<close>

record ('db, 'c, 'w) InboxReader =
  rd_env :: "('db, 'c) env"
  delayed_bridge :: "'w DelayedBridge"
  sequencer_inbox :: "'w SequencerInbox"
  l1_reader :: "'w L1HeaderReader"
  next_wake :: "('w, wake) M"
  first_message_block :: u64
  rd_config :: InboxReaderConfig

record ('db, 'c, 'w) reader_state =
  rs_tracker :: "('db, 'c) tracker"
  rs_world :: 'w
  caught_up :: bool
  last_seen_batch_count :: u64
  last_read_batch_count :: u64

type_synonym ('db, 'c, 'w, 'a) R = "(('db, 'c, 'w) reader_state, 'a) M"

definition on_tracker :: "('db, 'c, 'a) T \<Rightarrow> ('db, 'c, 'w, 'a) R" where
  "on_tracker m = (\<lambda>s. case m (rs_tracker s) of (r, t) \<Rightarrow> (r, s\<lparr>rs_tracker := t\<rparr>))"

definition on_chain :: "('w, 'a) M \<Rightarrow> ('db, 'c, 'w, 'a) R" where
  "on_chain m = (\<lambda>s. case m (rs_world s) of (r, w) \<Rightarrow> (r, s\<lparr>rs_world := w\<rparr>))"

text \<open>\<open>match m { Ok(v) => v, Err(_) => d }\<close>.\<close>

definition or_else :: "('s, 'a) M \<Rightarrow> 'a \<Rightarrow> ('s, 'a) M" where
  "or_else m d = matchM m okM (\<lambda>_. okM d)"

section \<open>Where to read\<close>

definition get_next_block_to_read :: "('db, 'c, 'w) InboxReader \<Rightarrow> ('db, 'c, 'w, u64) R" where
  "get_next_block_to_read rd =
     (let D = ev_db (rd_env rd); R = ev_rlp (rd_env rd) in
      bindM (on_tracker (db_read (get_delayed_count D R))) (\<lambda>delayed_count.
      if delayed_count = 0 then okM (first_message_block rd)
      else
      bindM (on_tracker (db_read (\<lambda>s.
        get_delayed_message_accumulator_and_parent_chain_block_number D s (delayed_count - 1))))
        (\<lambda>(_, _, parent_block).
      okM (max parent_block (first_message_block rd)))))"

definition get_prev_block_for_reorg :: "('db, 'c, 'w) InboxReader \<Rightarrow> u64 \<Rightarrow> u64 \<Rightarrow> u64 result" where
  "get_prev_block_for_reorg rd from_block max_blocks_backwards =
     (if from_block \<le> first_message_block rd then Err (Bail ''can't get older messages'' [])
      else Ok (max (sat_sub from_block max_blocks_backwards) (first_message_block rd)))"

text \<open>
  Waiting.  Every wake-up reads a height, until one is high enough; the first argument bounds the
  number of wake-ups that are followed.
\<close>

definition safe_or_finalized :: "('db, 'c, 'w) InboxReader \<Rightarrow> ('db, 'c, 'w, u64) R" where
  "safe_or_finalized rd =
     bindM (on_chain (if read_mode (rd_config rd) = ''safe'' then latest_safe_block_nr (l1_reader rd)
                      else latest_finalized_block_nr (l1_reader rd))) (\<lambda>n.
     if n = 0 then bailM (Bail ''unable to fetch latest {} block'' []) else okM n)"

fun wait_finality :: "('db, 'c, 'w) InboxReader \<Rightarrow> nat \<Rightarrow> u64 \<Rightarrow> u64 \<Rightarrow> ('db, 'c, 'w, u64) R" where
  "wait_finality rd 0 from_block height = (if height \<le> from_block then liftR Diverge else okM height)"
| "wait_finality rd (Suc n) from_block height =
     (if height \<le> from_block then
        bindM (on_chain (next_wake rd)) (\<lambda>_.
        bindM (safe_or_finalized rd) (wait_finality rd n from_block))
      else okM height)"

fun wait_latest :: "('db, 'c, 'w) InboxReader \<Rightarrow> nat \<Rightarrow> u64 \<Rightarrow> u64 \<Rightarrow> ('db, 'c, 'w, u64) R" where
  "wait_latest rd 0 needed height = (if height \<ge> needed then okM height else liftR Diverge)"
| "wait_latest rd (Suc n) needed height =
     (if height \<ge> needed then okM height
      else
        bindM (on_chain (next_wake rd)) (\<lambda>w.
        bindM (case w of Header h \<Rightarrow> okM h | _ \<Rightarrow> on_chain (last_header (l1_reader rd)))
          (wait_latest rd n needed)))"

definition below_head :: "('db, 'c, 'w) InboxReader \<Rightarrow> u64 \<Rightarrow> u64" where
  "below_head rd height =
     (let d = delay_blocks (rd_config rd);
          h = (if d > 0 then (if height \<ge> d then height - d else 0) else height)
      in max h (first_message_block rd))"

text \<open>The height to read at, and the block to read from.\<close>

definition await_height :: "('db, 'c, 'w) InboxReader \<Rightarrow> nat \<Rightarrow> u64 \<Rightarrow> ('db, 'c, 'w, u64 \<times> u64) R" where
  "await_height rd wakes from_block =
     (let cfg = rd_config rd in
      if read_mode cfg \<noteq> ''latest'' then
        bindM (safe_or_finalized rd) (\<lambda>height.
        let from_block = (if from_block > height + 1 then height else from_block) in
        bindM (wait_finality rd wakes from_block height) (\<lambda>height. okM (height, from_block)))
      else
        bindM (on_chain (last_header (l1_reader rd))) (\<lambda>height.
        let needed = sat_add from_block (delay_blocks cfg + sat_sub (min_blocks_to_read cfg) 1) in
        bindM (wait_latest rd wakes needed height) (\<lambda>height.
        let height = below_head rd height in okM (height, min from_block height))))"

section \<open>What is missing\<close>

text \<open>
  The delayed messages: more on the chain are missing, fewer make the tracker drop the surplus; then
  the accumulators of the last common one are compared.  An error of the chain reads as zero.
\<close>

definition check_delayed :: "('db, 'c, 'w) InboxReader \<Rightarrow> u64 \<Rightarrow> ('db, 'c, 'w, bool \<times> bool) R" where
  "check_delayed rd height =
     (let ev = rd_env rd; D = ev_db ev; R = ev_rlp ev in
      bindM (or_else (on_chain (bridge_message_count (delayed_bridge rd) height)) 0) (\<lambda>l1_count.
      bindM (on_tracker (db_read (get_delayed_count D R))) (\<lambda>our_latest.
      let missing = our_latest < l1_count; checking = (if missing then our_latest else l1_count) in
      bindM (if our_latest > l1_count then on_tracker (reorg_delayed_to ev l1_count) else okM ()) (\<lambda>_.
      if checking > 0 then
        bindM (or_else (on_chain (bridge_accumulator (delayed_bridge rd) (checking - 1) height 0)) 0) (\<lambda>l1_acc.
        bindM (on_tracker (db_read (\<lambda>s. get_delayed_acc D (ev_keccak ev) s (checking - 1)))) (\<lambda>db_acc.
        okM (missing, db_acc \<noteq> l1_acc)))
      else okM (missing, False)))))"

text \<open>The batches: the count seen, the count compared, and whether some are missing or differ.\<close>

definition check_sequencer ::
    "('db, 'c, 'w) InboxReader \<Rightarrow> u64 \<Rightarrow> ('db, 'c, 'w, u64 \<times> u64 \<times> bool \<times> bool) R" where
  "check_sequencer rd height =
     (let ev = rd_env rd; our_count = on_tracker (db_op (get_batch_count (ev_db ev) (ev_rlp ev))) in
      matchM (on_chain (inbox_batch_count (sequencer_inbox rd) height))
        (\<lambda>seen.
          bindM our_count (\<lambda>our_latest.
          let missing = our_latest < seen; checking = min our_latest seen in
          if checking > 0 then
            bindM (or_else (on_chain (inbox_accumulator (sequencer_inbox rd) (checking - 1) height)) 0) (\<lambda>l1_acc.
            bindM (on_tracker (get_batch_acc ev (checking - 1))) (\<lambda>db_acc.
            okM (seen, checking, missing, db_acc \<noteq> l1_acc)))
          else okM (seen, checking, missing, False)))
        (\<lambda>_. bindM our_count (\<lambda>seen. okM (seen, seen, True, False))))"

section \<open>Fetching delayed messages\<close>

fun delayed_tuples :: "DelayedInboxMessage list \<Rightarrow> delayed_msg list result" where
  "delayed_tuples [] = Ok []"
| "delayed_tuples (m # ms) =
     bindR (serialize_incoming_l1_message_legacy (dim_message m)) (\<lambda>bytes.
     bindR (delayed_tuples ms) (\<lambda>ts. Ok ((dim_seq_num m, dim_before_inbox_acc m, bytes) # ts)))"

text \<open>The number of messages recorded; an error of the chain or of the tracker is none.\<close>

definition fetch_delayed :: "('db, 'c, 'w) InboxReader \<Rightarrow> u64 \<Rightarrow> u64 \<Rightarrow> ('db, 'c, 'w, u64) R" where
  "fetch_delayed rd from_block to_block =
     matchM (on_chain (bridge_lookup (delayed_bridge rd) from_block to_block))
       (\<lambda>delayed.
         if delayed = [] then okM 0
         else
         bindM (liftR (delayed_tuples delayed)) (\<lambda>tuples.
         matchM (on_tracker (add_delayed_messages (rd_env rd) tuples None))
           (\<lambda>_. okM (of_nat (length delayed))) (\<lambda>_. okM 0)))
       (\<lambda>_. okM 0)"

section \<open>Fetching batches\<close>

definition window_header :: "SequencerInboxBatch \<Rightarrow> bytes" where
  "window_header b =
     be64 (tb_min_timestamp (time_bounds b)) @ be64 (tb_max_timestamp (time_bounds b))
     @ be64 (tb_min_block_number (time_bounds b)) @ be64 (tb_max_block_number (time_bounds b))
     @ be64 (after_delayed_count b)"

text \<open>
  The bytes argument of a call: the first word of the parameters that can be read as the offset of a
  byte string.  The first argument is the number of words left.
\<close>

fun find_dynamic :: "nat \<Rightarrow> nat \<Rightarrow> bytes \<Rightarrow> bytes option result" where
  "find_dynamic 0 i params = Ok None"
| "find_dynamic (Suc n) i params =
     bindR (b256_at_word params (i * 32)) (\<lambda>off_word.
     if unat off_word \<ge> 2 ^ 64 then find_dynamic n (i + 1) params
     else
     let off = of_nat (unat off_word) :: u64 in
     if unat (off + 32) \<le> length params then
       bindR (slice (unat off) (unat (off + 32)) params) (\<lambda>len_bytes.
       let len_word = un_be256 len_bytes in
       if unat len_word \<ge> 2 ^ 64 then find_dynamic n (i + 1) params
       else
       let stop = off + 32 + of_nat (unat len_word) in
       if unat stop \<le> length params then
         bindR (slice (unat (off + 32)) (unat stop) params) (\<lambda>bytes. Ok (Some bytes))
       else find_dynamic n (i + 1) params)
     else find_dynamic n (i + 1) params)"

text \<open>
  The data of a batch by where it is.  The errors of this \<open>match\<close> leave the whole function, not
  only the batch.
\<close>

definition batch_data :: "('db, 'c, 'w) InboxReader \<Rightarrow> SequencerInboxBatch \<Rightarrow> ('db, 'c, 'w, bytes \<times> b256) R" where
  "batch_data rd b =
     (if data_location b = 0 then
        bindM (on_chain (inbox_tx_input (sequencer_inbox rd) (tx_hash b))) (\<lambda>(input, _).
        if length input < 4 + 32 then bailM (Bail ''tx input too short for batch data'' [])
        else
        let params = drop 4 input in
        bindM (liftR (find_dynamic (length params div 32) 0 params)) (\<lambda>found. case found of
          Some bytes \<Rightarrow> okM (bytes, batch_block_hash b)
        | None \<Rightarrow> bailM (Bail ''could not locate dynamic bytes in tx input'' [])))
      else if data_location b = 1 then
        bindM (on_chain (inbox_message_bytes (sequencer_inbox rd) (parent_chain_block_number b)
                 (sequence_number b) (tx_hash b) (batch_block_hash b))) (\<lambda>(bytes, bh, _).
        okM (bytes, bh))
      else if data_location b = 2 then okM ([], batch_block_hash b)
      else if data_location b = 3 then bailM (Bail ''BatchDataBlobHashes not yet supported'' [])
      else bailM (Bail ''invalid data_location {}'' [unat (data_location b)]))"

fun fill_batches ::
    "('db, 'c, 'w) InboxReader \<Rightarrow> SequencerInboxBatch list \<Rightarrow> ('db, 'c, 'w, SequencerInboxBatch list) R" where
  "fill_batches rd [] = okM []"
| "fill_batches rd (b # bs) =
     bindM (batch_data rd b) (\<lambda>(data_bytes, bh).
     let b = b\<lparr>serialized := window_header b @ data_bytes,
               batch_block_hash := (if batch_block_hash b = 0 then bh else batch_block_hash b)\<rparr> in
     bindM (fill_batches rd bs) (\<lambda>good. okM (b # good)))"

definition max_of :: "u64 \<Rightarrow> u64 list \<Rightarrow> u64" where
  "max_of d xs = (if xs = [] then d else fold max xs (hd xs))"

definition min_of :: "u64 \<Rightarrow> u64 list \<Rightarrow> u64" where
  "min_of d xs = (if xs = [] then d else fold min xs (hd xs))"

text \<open>The delayed messages the batches read are fetched first when the tracker has fewer.\<close>

definition backfill ::
    "('db, 'c, 'w) InboxReader \<Rightarrow> u64 \<Rightarrow> u64 \<Rightarrow> SequencerInboxBatch list \<Rightarrow> ('db, 'c, 'w, unit) R" where
  "backfill rd from_block to_block good =
     (let ev = rd_env rd; D = ev_db ev; R = ev_rlp ev;
          need_delayed_to = max_of 0 (map after_delayed_count good) in
      bindM (on_tracker (db_read (get_delayed_count D R))) (\<lambda>have_delayed.
      if need_delayed_to > have_delayed then
        bindM (if have_delayed > 0 then
                 matchM (on_tracker (db_read (\<lambda>s.
                   get_delayed_message_accumulator_and_parent_chain_block_number D s (have_delayed - 1))))
                   (\<lambda>(_, _, parent_block). okM (max parent_block (first_message_block rd)))
                   (\<lambda>_. okM from_block)
               else okM from_block) (\<lambda>start_block.
        matchM (on_chain (bridge_lookup (delayed_bridge rd) start_block
                 (max_of to_block (map parent_chain_block_number good))))
          (\<lambda>delayed.
            bindM (liftR (delayed_tuples delayed)) (\<lambda>tuples.
            if tuples = [] then okM ()
            else or_else (on_tracker (add_delayed_messages ev tuples None)) ()))
          (\<lambda>_. okM ()))
      else okM ()))"

text \<open>The number of the next batch: down to the last batch whose metadata can be read.\<close>

fun probe_metadata :: "('db, 'c) env \<Rightarrow> nat \<Rightarrow> ('db, 'c, 'w, u64) R" where
  "probe_metadata ev 0 = okM 0"
| "probe_metadata ev (Suc n) =
     matchM (on_tracker (get_batch_metadata ev (of_nat (Suc n)))) (\<lambda>_. okM (of_nat (Suc n)))
       (\<lambda>_. probe_metadata ev n)"

definition expected_batch :: "('db, 'c, 'w) InboxReader \<Rightarrow> ('db, 'c, 'w, u64) R" where
  "expected_batch rd =
     (let ev = rd_env rd in
      bindM (or_else (on_tracker (db_op (get_batch_count (ev_db ev) (ev_rlp ev)))) 0) (\<lambda>our_latest.
      if our_latest > 0 then
        bindM (probe_metadata ev (unat (our_latest - 1))) (\<lambda>probe. okM (probe + 1))
      else okM 0))"

text \<open>The run of consecutive batches from the expected one on, in a list sorted by number.\<close>

fun contiguous :: "u64 \<Rightarrow> SequencerInboxBatch list \<Rightarrow> SequencerInboxBatch list" where
  "contiguous expected [] = []"
| "contiguous expected (b # bs) =
     (if sequence_number b = expected then b # contiguous (sat_add expected 1) bs
      else if sequence_number b > expected then []
      else contiguous expected bs)"

record window =
  win_from :: u64
  win_blocks :: u64

text \<open>
  Handing over: the window may be moved back when the batches begin after the expected one.  Gives the
  number of batches recorded and the count seen.
\<close>

definition deliver ::
    "('db, 'c, 'w) InboxReader \<Rightarrow> window \<Rightarrow> u64 \<Rightarrow> SequencerInboxBatch list \<Rightarrow>
     ('db, 'c, 'w, u64 \<times> u64 \<times> window) R" where
  "deliver rd win seen good =
     bindM (expected_batch rd) (\<lambda>our_latest.
     let sorted_batches = sort_key sequence_number good;
         min_seen = min_of (- 1) (map sequence_number sorted_batches);
         filtered = contiguous our_latest sorted_batches in
     if filtered = [] then
       okM (0, seen,
         if our_latest > 0 \<and> min_seen > our_latest then
           \<lparr>win_from = (case get_prev_block_for_reorg rd (win_from win) (win_blocks win) of
                         Ok n \<Rightarrow> n | _ \<Rightarrow> first_message_block rd),
            win_blocks = min_blocks_to_read (rd_config rd)\<rparr>
         else win)
     else
       matchM (on_tracker (add_sequencer_batches_and_stream (rd_env rd) filtered))
         (\<lambda>_. okM (of_nat (length filtered), max seen (sequence_number (last filtered) + 1), win))
         (\<lambda>_. okM (0, seen, win)))"

definition fetch_batches ::
    "('db, 'c, 'w) InboxReader \<Rightarrow> window \<Rightarrow> u64 \<Rightarrow> u64 \<Rightarrow> ('db, 'c, 'w, u64 \<times> u64 \<times> window) R" where
  "fetch_batches rd win to_block seen =
     bindM (or_else (on_chain (inbox_lookup (sequencer_inbox rd) (win_from win) to_block)) []) (\<lambda>batches.
     bindM (fill_batches rd batches) (\<lambda>good.
     if good = [] then okM (0, seen, win)
     else bindM (backfill rd (win_from win) to_block good) (\<lambda>_. deliver rd win seen good)))"

section \<open>The loop\<close>

text \<open>How the size of the window follows the number of messages and batches read.\<close>

definition next_blocks :: "InboxReaderConfig \<Rightarrow> u64 \<Rightarrow> u64 \<Rightarrow> u64" where
  "next_blocks cfg have_messages blocks =
     (let blocks = (if have_messages = 0 then sat_add blocks ((blocks + 4) div 5)
                    else if have_messages \<ge> sat_mul (target_messages_read cfg) 3 div 2
                    then sat_sub blocks ((blocks + 4) div 5)
                    else blocks) in
      if blocks < min_blocks_to_read cfg then min_blocks_to_read cfg
      else if blocks > max_blocks_to_read cfg then max_blocks_to_read cfg
      else blocks)"

definition store_counts :: "u64 \<Rightarrow> u64 \<Rightarrow> ('db, 'c, 'w, unit) R" where
  "store_counts read_count seen =
     (\<lambda>s. (Ok (), s\<lparr>last_read_batch_count := read_count, last_seen_batch_count := seen\<rparr>))"

definition mark_caught_up :: "('db, 'c, 'w) InboxReader \<Rightarrow> ('db, 'c, 'w, unit) R" where
  "mark_caught_up rd =
     (\<lambda>s. (Ok (), if \<not> caught_up s \<and> read_mode (rd_config rd) = ''latest'' then s\<lparr>caught_up := True\<rparr> else s))"

definition reader_iteration ::
    "('db, 'c, 'w) InboxReader \<Rightarrow> nat \<Rightarrow> window \<Rightarrow> ('db, 'c, 'w, window) R" where
  "reader_iteration rd wakes win =
     (let cfg = rd_config rd in
      bindM (await_height rd wakes (win_from win)) (\<lambda>(height, from_block).
      let win = win\<lparr>win_from := from_block\<rparr> in
      bindM (check_delayed rd height) (\<lambda>(missing_delayed, reorging_delayed).
      bindM (check_sequencer rd height) (\<lambda>(seen, checking, missing_sequencer, reorging_sequencer).
      if \<not> missing_delayed \<and> \<not> reorging_delayed \<and> \<not> missing_sequencer \<and> \<not> reorging_sequencer then
        bindM (store_counts checking seen) (\<lambda>_.
        bindM (mark_caught_up rd) (\<lambda>_.
        okM \<lparr>win_from = sat_add height 1, win_blocks = default_blocks_to_read cfg\<rparr>))
      else
        let to_block = min (sat_add from_block (win_blocks win)) height in
        bindM (if missing_delayed \<or> reorging_delayed then fetch_delayed rd from_block to_block
               else okM 0) (\<lambda>delayed_len.
        bindM (if missing_sequencer \<or> reorging_sequencer then fetch_batches rd win to_block seen
               else okM (0, seen, win)) (\<lambda>(batches_len, seen, win).
        bindM (store_counts checking seen) (\<lambda>_.
        let have_messages = delayed_len + batches_len;
            blocks = next_blocks cfg have_messages (win_blocks win) in
        if reorging_delayed \<or> reorging_sequencer then
          bindM (liftR (get_prev_block_for_reorg rd (win_from win) blocks)) (\<lambda>prev.
          okM \<lparr>win_from = prev, win_blocks = min_blocks_to_read cfg\<rparr>)
        else
          okM \<lparr>win_from = (if have_messages > 0 then sat_add to_block 1 else win_from win),
               win_blocks = blocks\<rparr>)))))))"

text \<open>\<open>start\<close> runs iterations until one fails; here a number of them.\<close>

fun reader_iterations :: "('db, 'c, 'w) InboxReader \<Rightarrow> nat \<Rightarrow> nat \<Rightarrow> window \<Rightarrow> ('db, 'c, 'w, window) R" where
  "reader_iterations rd wakes 0 win = okM win"
| "reader_iterations rd wakes (Suc n) win =
     bindM (reader_iteration rd wakes win) (reader_iterations rd wakes n)"

definition start_reader :: "('db, 'c, 'w) InboxReader \<Rightarrow> nat \<Rightarrow> nat \<Rightarrow> ('db, 'c, 'w, window) R" where
  "start_reader rd wakes n =
     bindM (get_next_block_to_read rd) (\<lambda>from_block.
     reader_iterations rd wakes n
       \<lparr>win_from = from_block, win_blocks = default_blocks_to_read (rd_config rd)\<rparr>)"

section \<open>Queries\<close>

text \<open>Down the batches to the last one posted at or below a block.\<close>

fun recent_block_search :: "('db, 'c) env \<Rightarrow> u64 \<Rightarrow> nat \<Rightarrow> ('db, 'c, 'w, u64) R" where
  "recent_block_search ev parent_block 0 = okM 0"
| "recent_block_search ev parent_block (Suc n) =
     bindM (on_tracker (get_batch_metadata ev (of_nat n))) (\<lambda>meta.
     if parent_chain_block meta \<le> parent_block then okM (bm_message_count meta)
     else recent_block_search ev parent_block n)"

definition recent_parent_chain_block_to_msg :: "('db, 'c, 'w) InboxReader \<Rightarrow> u64 \<Rightarrow> ('db, 'c, 'w, u64) R" where
  "recent_parent_chain_block_to_msg rd parent_block =
     bindM (on_tracker (db_op (get_batch_count (ev_db (rd_env rd)) (ev_rlp (rd_env rd))))) (\<lambda>count.
     recent_block_search (rd_env rd) parent_block (unat count))"

definition get_safe_msg_count :: "('db, 'c, 'w) InboxReader \<Rightarrow> ('db, 'c, 'w, u64) R" where
  "get_safe_msg_count rd =
     bindM (on_chain (latest_safe_block_nr (l1_reader rd))) (recent_parent_chain_block_to_msg rd)"

definition get_finalized_msg_count :: "('db, 'c, 'w) InboxReader \<Rightarrow> ('db, 'c, 'w, u64) R" where
  "get_finalized_msg_count rd =
     bindM (on_chain (latest_finalized_block_nr (l1_reader rd))) (recent_parent_chain_block_to_msg rd)"

definition get_sequencer_message_bytes :: "('db, 'c, 'w) InboxReader \<Rightarrow> u64 \<Rightarrow> ('db, 'c, 'w, bytes \<times> b256) R" where
  "get_sequencer_message_bytes rd seqno =
     bindM (on_tracker (get_batch_metadata (rd_env rd) seqno)) (\<lambda>meta.
     bindM (on_chain (inbox_message_bytes (sequencer_inbox rd) (parent_chain_block meta) seqno 0 0))
       (\<lambda>(bytes, bh, _). okM (bytes, bh)))"

end
