(* ===== verification/Poster.thy ===== *)
theory Poster
  imports Streamer Bridge
begin

text \<open>
  \<open>crates/batch-poster/src/poster.rs\<close> and \<open>crates/node/src/segment_source.rs\<close>: building a
  batch from the messages of the log and posting it.  The parent chain, the wallet, the ABI encoder
  and the compressor are parameters; \<open>'n\<close> is the state of the node and of the world the poster
  runs in.
\<close>

section \<open>The segments of the log\<close>

record NodeSegmentSource =
  last_posted_msg_idx :: u64
  src_max_bytes :: nat

definition new_segment_source :: "nat \<Rightarrow> NodeSegmentSource" where
  "new_segment_source n = \<lparr>last_posted_msg_idx = 0, src_max_bytes = n\<rparr>"

text \<open>
  The loop over \<open>start_idx..=head_idx\<close>: the first argument is the number of indices left.  It
  gives the segments and the last index taken.
\<close>

fun take_segments ::
    "'db database \<Rightarrow> rlp \<Rightarrow> 'db \<Rightarrow> nat \<Rightarrow> nat \<Rightarrow> u64 \<Rightarrow> nat \<Rightarrow> bytes list \<Rightarrow> u64 \<Rightarrow> (bytes list \<times> u64) result" where
  "take_segments D R s budget 0 idx used segs last_taken = Ok (segs, last_taken)"
| "take_segments D R s budget (Suc left) idx used segs last_taken =
     bindR (ok_or_none (get_message_with_metadata_and_block_info D R s idx)) (\<lambda>r.
     case r of
       None \<Rightarrow> Ok (segs, last_taken)
     | Some msg \<Rightarrow>
         (let l2 = l2msg (message (message_with_meta msg)) in
          if used + length l2 > budget then Ok (segs, last_taken)
          else take_segments D R s budget left (idx + 1) (used + length l2) (segs @ [l2]) idx))"

definition next_segments ::
    "'db database \<Rightarrow> rlp \<Rightarrow> 'db \<Rightarrow> nat \<Rightarrow> (NodeSegmentSource, bytes list) M" where
  "next_segments D R s max_bytes = (\<lambda>src.
     let budget = (if max_bytes = 0 then src_max_bytes src else max_bytes);
         start_idx = last_posted_msg_idx src + 1 in
     case ok_or_none (get_head_message_index D R s) of
       Ok None \<Rightarrow> (Ok [], src)
     | Ok (Some head_idx) \<Rightarrow>
         (if head_idx < start_idx then (Ok [], src)
          else
          (case take_segments D R s budget (unat head_idx + 1 - unat start_idx) start_idx 0 []
                  (sat_sub start_idx 1) of
             Ok (segs, last_taken) \<Rightarrow>
               (Ok segs, if last_taken \<ge> start_idx then src\<lparr>last_posted_msg_idx := last_taken\<rparr> else src)
           | Err e \<Rightarrow> (Err e, src) | Panic \<Rightarrow> (Panic, src) | Diverge \<Rightarrow> (Diverge, src)))
     | Err e \<Rightarrow> (Err e, src) | Panic \<Rightarrow> (Panic, src) | Diverge \<Rightarrow> (Diverge, src))"

section \<open>The poster\<close>

datatype ParentChainBound = Latest | Safe | Finalized | Ignore

definition parse_bound :: "string \<Rightarrow> ParentChainBound" where
  "parse_bound s =
     (let t = map ascii_lower s in
      if t = ''safe'' then Safe else if t = ''finalized'' then Finalized
      else if t = ''ignore'' then Ignore else Latest)"

record L1Bounds =
  min_ts :: u64
  max_ts :: u64
  min_block :: u64
  max_block :: u64

record BatchPosterConfig =
  cfg_enabled :: bool
  cfg_use_4844 :: bool
  cfg_l1_rpc_url :: string
  cfg_sequencer_inbox :: address
  cfg_parent_chain_bound :: string
  cfg_poster_private_key_hex :: "string option"

record l1_block =
  l1b_number :: u64
  l1b_timestamp :: u64
  l1b_base_fee :: "u64 option"

record post_call =
  pc_sequenceNumber :: u256
  pc_data :: bytes
  pc_afterDelayedMessagesRead :: u256
  pc_gasRefunder :: address
  pc_prevMessageCount :: u256
  pc_newMessageCount :: u256

record tx_request =
  txr_to :: address
  txr_input :: bytes
  txr_value :: u256

text \<open>
  The parent chain: parsing its address, a block by its tag, sending a transaction under a key; and
  the ABI encoder and the compressor.
\<close>

record 'n parent_chain =
  parse_url :: "string \<Rightarrow> unit result"
  get_block_by_number :: "ParentChainBound \<Rightarrow> ('n, l1_block option) M"
  parse_key :: "string \<Rightarrow> unit result"
  send_transaction :: "tx_request \<Rightarrow> ('n, b256) M"
  abi_encode :: "post_call \<Rightarrow> bytes"
  brotli_compress :: "bytes \<Rightarrow> bytes result"

text \<open>The trait \<open>SegmentSource\<close>.\<close>

record 'n segment_source =
  ss_max_bytes :: "'n \<Rightarrow> nat"
  ss_next_segments :: "nat \<Rightarrow> ('n, bytes list) M"

record 'n BatchPoster =
  bp_cfg :: BatchPosterConfig
  delayed_count_fn :: "('n \<Rightarrow> u64) option"
  bp_segment_source :: "'n segment_source option"

text \<open>\<open>impl SegmentSource for NodeSegmentSource\<close>: the node is its database and the source.\<close>

record 'db poster_node =
  pn_db :: 'db
  pn_source :: NodeSegmentSource

definition node_segment_source :: "'db database \<Rightarrow> rlp \<Rightarrow> 'db poster_node segment_source" where
  "node_segment_source D R =
     \<lparr>ss_max_bytes = (\<lambda>n. src_max_bytes (pn_source n)),
      ss_next_segments = (\<lambda>max_bytes n.
        case next_segments D R (pn_db n) max_bytes (pn_source n) of (r, src) \<Rightarrow> (r, n\<lparr>pn_source := src\<rparr>))\<rparr>"

text \<open>The poster's own state beside the node's.\<close>

record 'n poster_state =
  last_after_delayed :: "u64 option"
  node_state :: 'n

definition on_node :: "('n, 'a) M \<Rightarrow> ('n poster_state, 'a) M" where
  "on_node m = (\<lambda>st. case m (node_state st) of (r, n) \<Rightarrow> (r, st\<lparr>node_state := n\<rparr>))"

definition unbounded :: L1Bounds where
  "unbounded = \<lparr>min_ts = 0, max_ts = - 1, min_block = 0, max_block = - 1\<rparr>"

definition resolve_l1_bounds :: "'n parent_chain \<Rightarrow> BatchPosterConfig \<Rightarrow> ('n, L1Bounds) M" where
  "resolve_l1_bounds P cfg =
     (let bound = parse_bound (cfg_parent_chain_bound cfg) in
      if bound = Ignore then okM unbounded
      else
      bindM (liftR (parse_url P (cfg_l1_rpc_url cfg))) (\<lambda>_.
      matchM (get_block_by_number P bound)
        (\<lambda>block. case block of
           None \<Rightarrow> okM unbounded
         | Some b \<Rightarrow> okM \<lparr>min_ts = 0, max_ts = l1b_timestamp b, min_block = 0, max_block = l1b_number b\<rparr>)
        (\<lambda>_. okM unbounded)))"

definition batch_header :: "L1Bounds \<Rightarrow> u64 \<Rightarrow> bytes" where
  "batch_header b after_delayed =
     be64 (min_ts b) @ be64 (max_ts b) @ be64 (min_block b) @ be64 (max_block b) @ be64 after_delayed"

definition build_batch_bytes ::
    "'n parent_chain \<Rightarrow> rlp \<Rightarrow> 'n BatchPoster \<Rightarrow> ('n poster_state, bytes option) M" where
  "build_batch_bytes P R bp = (\<lambda>st.
     let after_delayed = (case delayed_count_fn bp of Some f \<Rightarrow> f (node_state st) | None \<Rightarrow> 0) in
     if last_after_delayed st = Some after_delayed then (Ok None, st)
     else
     (bindM (on_node (resolve_l1_bounds P (bp_cfg bp))) (\<lambda>bounds.
      bindM (case bp_segment_source bp of
               Some src \<Rightarrow> on_node (\<lambda>n. ss_next_segments src (ss_max_bytes src n) n)
             | None \<Rightarrow> okM []) (\<lambda>segs.
      bindM (liftR (brotli_compress P (concat (map (enc (rlp_bytes R)) segs)))) (\<lambda>comp.
      okM (Some (batch_header bounds after_delayed @ 0x01 # comp))))))
       (st\<lparr>last_after_delayed := Some after_delayed\<rparr>))"

definition fetch_l1_base_fee_wei :: "'n parent_chain \<Rightarrow> BatchPosterConfig \<Rightarrow> ('n, u64 option) M" where
  "fetch_l1_base_fee_wei P cfg =
     bindM (liftR (ok_or_none (parse_url P (cfg_l1_rpc_url cfg)))) (\<lambda>url.
     case url of
       None \<Rightarrow> okM None
     | Some _ \<Rightarrow>
         matchM (get_block_by_number P Latest)
           (\<lambda>block. okM (case block of Some b \<Rightarrow> l1b_base_fee b | None \<Rightarrow> None)) (\<lambda>_. okM None))"

definition post_to_l1 :: "'n parent_chain \<Rightarrow> BatchPosterConfig \<Rightarrow> bytes \<Rightarrow> ('n poster_state, b256) M" where
  "post_to_l1 P cfg payload = (\<lambda>st.
     case cfg_poster_private_key_hex cfg of
       None \<Rightarrow> (Ok 0, st)
     | Some key_hex \<Rightarrow>
         (bindM (liftR (parse_key P key_hex)) (\<lambda>_.
          bindM (liftR (parse_url P (cfg_l1_rpc_url cfg))) (\<lambda>_.
          let after_delayed = (case last_after_delayed st of Some n \<Rightarrow> ucast n | None \<Rightarrow> 0);
              calldata = abi_encode P
                \<lparr>pc_sequenceNumber = 0, pc_data = payload, pc_afterDelayedMessagesRead = after_delayed,
                 pc_gasRefunder = 0, pc_prevMessageCount = 0, pc_newMessageCount = 0\<rparr> in
          on_node (send_transaction P
            \<lparr>txr_to = cfg_sequencer_inbox cfg, txr_input = calldata, txr_value = 0\<rparr>)))) st)"

text \<open>One tick of the loop of \<open>start\<close>, and a number of ticks; an error ends the loop.\<close>

definition poster_tick :: "'n parent_chain \<Rightarrow> rlp \<Rightarrow> 'n BatchPoster \<Rightarrow> ('n poster_state, unit) M" where
  "poster_tick P R bp =
     bindM (build_batch_bytes P R bp) (\<lambda>r. case r of
       None \<Rightarrow> okM ()
     | Some bytes \<Rightarrow>
         bindM (on_node (fetch_l1_base_fee_wei P (bp_cfg bp))) (\<lambda>_.
         bindM (post_to_l1 P (bp_cfg bp) bytes) (\<lambda>_. okM ())))"

fun poster_ticks :: "'n parent_chain \<Rightarrow> rlp \<Rightarrow> 'n BatchPoster \<Rightarrow> nat \<Rightarrow> ('n poster_state, unit) M" where
  "poster_ticks P R bp 0 = okM ()"
| "poster_ticks P R bp (Suc n) = bindM (poster_tick P R bp) (\<lambda>_. poster_ticks P R bp n)"

definition start_poster :: "'n parent_chain \<Rightarrow> rlp \<Rightarrow> 'n BatchPoster \<Rightarrow> nat \<Rightarrow> ('n poster_state, unit) M" where
  "start_poster P R bp n =
     (if \<not> cfg_enabled (bp_cfg bp) then okM () else poster_ticks P R bp n)"

end
