(* ===== verification/NodeConfig.thy ===== *)
theory NodeConfig
  imports Genesis Reader Poster
begin

text \<open>
  \<open>bin/arb-nitro-rs/src/main.rs\<close> and, of \<open>crates/node/src\<close>, \<open>config.rs\<close>, \<open>chaininfo.rs\<close>,
  the part of \<open>service.rs\<close> that decides what the node runs with, and the genesis fetched from a node
  (\<open>genesis.rs\<close>).  Files, environment, JSON and the parsers of other crates are parameters.
\<close>

section \<open>The command line\<close>

definition starts_with :: "string \<Rightarrow> string \<Rightarrow> bool" where
  "starts_with arg pat \<longleftrightarrow> take (length pat) arg = pat"

definition value_options :: "string list" where
  "value_options =
     [''--network'', ''--sync-till-block'', ''--conf.file'', ''--rpc-host'', ''--rpc-port'', ''--ws-port'',
      ''--feed-port'', ''--l1-rpc-url'', ''--sequencer-inbox'', ''--delayed-bridge'',
      ''--first-message-block'', ''--chaininfo-file'', ''--db-path'', ''--beacon-url'',
      ''--secondary-beacon-url'', ''--beacon-authorization'', ''--beacon-blob-directory'']"

definition supported_options :: "string list" where
  "supported_options =
     [''--network'', ''--sync-till-block'', ''--sequencer'', ''--conf.file'', ''--rpc-host'', ''--rpc-port'',
      ''--ws-port'', ''--feed-enable'', ''--feed-port'', ''--poster-enable'', ''--poster-4844-enable'',
      ''--validator-enable'', ''--l1-rpc-url'', ''--sequencer-inbox'', ''--delayed-bridge'',
      ''--first-message-block'', ''--chaininfo-file'', ''--db-path'', ''--beacon-url'',
      ''--secondary-beacon-url'', ''--beacon-authorization'', ''--beacon-blob-directory'']"

definition is_supported :: "string \<Rightarrow> bool" where
  "is_supported arg \<longleftrightarrow> list_ex (starts_with arg) supported_options"

definition takes_value :: "string \<Rightarrow> bool" where
  "takes_value arg \<longleftrightarrow> list_ex (starts_with arg) value_options"

text \<open>An option that takes a value keeps the argument after it, whatever that is.\<close>

fun filter_rest :: "string list \<Rightarrow> string list" where
  "filter_rest [] = []"
| "filter_rest [arg] = (if is_supported arg then [arg] else [])"
| "filter_rest (arg # val # args) =
     (if is_supported arg then
        (if takes_value arg \<and> CHR ''='' \<notin> set arg then arg # val # filter_rest args
         else arg # filter_rest (val # args))
      else filter_rest (val # args))"

text \<open>The arguments handed to the parser; \<open>None\<close> when only help or the version is printed.\<close>

definition main_arguments :: "string list \<Rightarrow> string list option" where
  "main_arguments args =
     (if list_ex (\<lambda>a. a = ''-h'' \<or> a = ''--help'' \<or> a = ''-V'' \<or> a = ''--version'') args then None
      else Some (case args of [] \<Rightarrow> [] | bin # rest \<Rightarrow> bin # filter_rest rest))"

record NodeArgs =
  arg_l1_rpc_url :: "string option"
  arg_l2_rpc_url :: "string option"
  arg_sequencer_inbox :: "string option"
  arg_delayed_bridge :: "string option"
  arg_first_message_block :: "u64 option"
  arg_chaininfo_file :: "string option"
  arg_network :: "string option"
  arg_sync_till_block :: u64
  arg_sequencer :: bool
  arg_conf_file :: "string option"
  arg_rpc_host :: string
  arg_rpc_port :: "16 word"
  arg_ws_port :: "16 word"
  arg_feed_enable :: bool
  arg_feed_port :: "16 word"
  arg_poster_enable :: bool
  arg_poster_4844_enable :: bool
  arg_validator_enable :: bool
  arg_db_path :: string
  arg_beacon_url :: "string option"
  arg_secondary_beacon_url :: "string option"
  arg_beacon_authorization :: "string option"
  arg_beacon_blob_directory :: "string option"

section \<open>Known chains\<close>

record RollupAddresses =
  ra_bridge :: string
  ra_inbox :: string
  ra_sequencer_inbox :: string
  ra_rollup :: string
  ra_deployed_at :: "u64 option"

record ChainInfo =
  ci_chain_id :: "u64 option"
  ci_chain_name :: "string option"
  ci_rollup :: "RollupAddresses option"

definition select_by_chain_id :: "ChainInfo list \<Rightarrow> u64 \<Rightarrow> ChainInfo option" where
  "select_by_chain_id cs cid = find (\<lambda>c. ci_chain_id c = Some cid) cs"

definition select_by_name :: "ChainInfo list \<Rightarrow> string \<Rightarrow> ChainInfo option" where
  "select_by_name cs name = find (\<lambda>c. ci_chain_name c = Some name) cs"

text \<open>The embedded table, as \<open>chaininfo/arbitrum_chain_info.json\<close> has it, read by \<open>load_embedded\<close>.\<close>

definition embedded_chains :: "ChainInfo list" where
  "embedded_chains =
     [\<lparr>ci_chain_id = None, ci_chain_name = Some ''arb1'', ci_rollup = Some
         \<lparr>ra_bridge = ''0x8315177ab297ba92a06054ce80a67ed4dbd7ed3a'',
          ra_inbox = ''0x4dbd4fc535ac27206064b68ffcf827b0a60bab3f'',
          ra_sequencer_inbox = ''0x1c479675ad559dc151f6ec7ed3fbf8cee79582b6'',
          ra_rollup = ''0x5ef0d09d1e6204141b4d37530808ed19f60fba35'',
          ra_deployed_at = Some 15411056\<rparr>\<rparr>,
      \<lparr>ci_chain_id = None, ci_chain_name = Some ''nova'', ci_rollup = Some
         \<lparr>ra_bridge = ''0xc1ebd02f738644983b6c4b2d440b8e77dde276bd'',
          ra_inbox = ''0xc4448b71118c9071bcb9734a0eac55d18a153949'',
          ra_sequencer_inbox = ''0x211e1c4c7f1bf5351ac850ed10fd68cffcf6c21b'',
          ra_rollup = ''0xfb209827c58283535b744575e11953dcc4bead88'',
          ra_deployed_at = Some 15016829\<rparr>\<rparr>,
      \<lparr>ci_chain_id = None, ci_chain_name = Some ''goerli-rollup'', ci_rollup = Some
         \<lparr>ra_bridge = ''0xaf4159a80b6cc41ed517db1c453d1ef5c2e4db72'',
          ra_inbox = ''0x6bebc4925716945d46f0ec336d5c2564f419682c'',
          ra_sequencer_inbox = ''0x0484a87b144745a2e5b7c359552119b6ea2917a9'',
          ra_rollup = ''0x45e5caea8768f42b385a366d3551ad1e0cbfab17'',
          ra_deployed_at = Some 7217526\<rparr>\<rparr>,
      \<lparr>ci_chain_id = None, ci_chain_name = Some ''arb-dev-test'', ci_rollup = None\<rparr>,
      \<lparr>ci_chain_id = None, ci_chain_name = Some ''anytrust-dev-test'', ci_rollup = None\<rparr>,
      \<lparr>ci_chain_id = Some 421614, ci_chain_name = Some ''sepolia-rollup'', ci_rollup = Some
         \<lparr>ra_bridge = ''0x38f918D0E9F1b721EDaA41302E399fa1B79333a9'',
          ra_inbox = ''0xaAe29B0366299461418F5324a79Afc425BE5ae21'',
          ra_sequencer_inbox = ''0x6c97864CE4bEf387dE0b3310A44230f7E3F1be0D'',
          ra_rollup = ''0xd80810638dbDF9081b72C1B33c65375e807281C8'',
          ra_deployed_at = Some 4139226\<rparr>\<rparr>,
      \<lparr>ci_chain_id = Some 23011913, ci_chain_name = Some ''stylus-testnet'', ci_rollup = Some
         \<lparr>ra_bridge = ''0x35aa95ac4747D928E2Cd42FE4461F6D9d1826346'',
          ra_inbox = ''0xe1e3b1CBaCC870cb6e5F4Bdf246feB6eB5cD351B'',
          ra_sequencer_inbox = ''0x00A0F15b79d1D3e5991929FaAbCF2AA65623530c'',
          ra_rollup = ''0x94db9E36d9336cD6F9FfcAd399dDa6Cc05299898'',
          ra_deployed_at = Some 1847\<rparr>\<rparr>]"

definition network_chain_id :: "string option \<Rightarrow> u64" where
  "network_chain_id network =
     (case network of
        Some n \<Rightarrow> if n = ''sepolia'' then 421614 else if n = ''local'' then 1337 else 421614
      | None \<Rightarrow> 421614)"

definition select_chain :: "ChainInfo list \<Rightarrow> u64 \<Rightarrow> ChainInfo result" where
  "select_chain cs cid =
     (case select_by_chain_id cs cid of
        Some c \<Rightarrow> Ok c
      | None \<Rightarrow>
          (case select_by_name cs ''sepolia-rollup'' of
             Some c \<Rightarrow> Ok c
           | None \<Rightarrow> Err (Bail ''sepolia chain info not found'' [])))"

section \<open>What the node runs with\<close>

text \<open>
  The environment of the process: reading a file, the parsers of JSON and of chain tables, variables,
  and the accessors of a parsed value.
\<close>

record 'v host =
  read_file :: "string \<Rightarrow> error + string"
  parse_json :: "string \<Rightarrow> error + 'v"
  parse_chains :: "string \<Rightarrow> error + ChainInfo list"
  env_var :: "string \<Rightarrow> string option"
  pointer :: "'v \<Rightarrow> string \<Rightarrow> 'v option"
  get_field :: "'v \<Rightarrow> string \<Rightarrow> 'v option"
  value_str :: "'v \<Rightarrow> string option"
  value_bool :: "'v \<Rightarrow> bool option"
  value_u64 :: "'v \<Rightarrow> u64 option"
  value_array :: "'v \<Rightarrow> 'v list option"
  parse_address :: "string \<Rightarrow> error + address"

record node_settings =
  set_l1_rpc :: string
  set_delayed_bridge :: "address option"
  set_sequencer_inbox :: "address option"
  set_poster_enable :: bool
  set_parent_chain_bound :: "string option"
  set_poster_privkey :: "string option"
  set_feed_enable :: bool
  set_feed_port :: "16 word"
  set_rpc_host :: string
  set_rpc_http_port :: "16 word"
  set_rpc_ws_port :: "16 word"

definition ok_of :: "error + 'a \<Rightarrow> 'a option" where
  "ok_of r = (case r of Inr x \<Rightarrow> Some x | Inl _ \<Rightarrow> None)"

definition or_default :: "'a option \<Rightarrow> 'a \<Rightarrow> 'a" where
  "or_default x d = (case x of Some v \<Rightarrow> v | None \<Rightarrow> d)"

text \<open>\<open>if let Some(v) = x { st = f(v, st) }\<close>.\<close>

definition when_some :: "'a option \<Rightarrow> ('a \<Rightarrow> 's \<Rightarrow> 's) \<Rightarrow> 's \<Rightarrow> 's" where
  "when_some x f st = (case x of Some v \<Rightarrow> f v st | None \<Rightarrow> st)"

definition initial_settings :: "'v host \<Rightarrow> NodeArgs \<Rightarrow> node_settings" where
  "initial_settings F a =
     \<lparr>set_l1_rpc = (case arg_l1_rpc_url a of
         Some v \<Rightarrow> v | None \<Rightarrow> or_default (env_var F ''NITRO_L1_RPC'') ''http://localhost:8545''),
      set_delayed_bridge = Option.bind (arg_delayed_bridge a) (\<lambda>s. ok_of (parse_address F s)),
      set_sequencer_inbox = Option.bind (arg_sequencer_inbox a) (\<lambda>s. ok_of (parse_address F s)),
      set_poster_enable = arg_poster_enable a,
      set_parent_chain_bound = None,
      set_poster_privkey = env_var F ''NITRO_L1_POSTER_KEY'',
      set_feed_enable = arg_feed_enable a,
      set_feed_port = arg_feed_port a,
      set_rpc_host = arg_rpc_host a,
      set_rpc_http_port = arg_rpc_port a,
      set_rpc_ws_port = arg_ws_port a\<rparr>"

text \<open>The chain's own file: two names for each address, the second one only when nothing is set yet.\<close>

definition info_address :: "'v host \<Rightarrow> 'v option \<Rightarrow> address option" where
  "info_address F x = Option.bind (Option.bind x (value_str F)) (\<lambda>s. ok_of (parse_address F s))"

definition apply_info :: "'v host \<Rightarrow> 'v \<Rightarrow> node_settings \<Rightarrow> node_settings" where
  "apply_info F info st =
     (let st = when_some (info_address F (get_field F info ''bridge''))
                 (\<lambda>a. set_delayed_bridge_update (\<lambda>_. Some a)) st;
          st = when_some (info_address F (get_field F info ''sequencerInbox''))
                 (\<lambda>a. set_sequencer_inbox_update (\<lambda>_. Some a)) st;
          st = (if set_delayed_bridge st = None then
                  when_some (info_address F (pointer F info ''/contracts/Bridge/address''))
                    (\<lambda>a. set_delayed_bridge_update (\<lambda>_. Some a)) st
                else st)
      in if set_sequencer_inbox st = None then
           when_some (info_address F (pointer F info ''/contracts/SequencerInbox/address''))
             (\<lambda>a. set_sequencer_inbox_update (\<lambda>_. Some a)) st
         else st)"

definition apply_conf :: "'v host \<Rightarrow> 'v \<Rightarrow> node_settings \<Rightarrow> node_settings" where
  "apply_conf F v st =
     (let str = (\<lambda>p. Option.bind (pointer F v p) (value_str F));
          boolean = (\<lambda>p. Option.bind (pointer F v p) (value_bool F));
          num = (\<lambda>p. Option.bind (pointer F v p) (value_u64 F));
          st = when_some (str ''/parent-chain/connection/url'') (\<lambda>x. set_l1_rpc_update (\<lambda>_. x)) st;
          st = when_some (boolean ''/node/batch-poster/enable'') (\<lambda>x. set_poster_enable_update (\<lambda>_. x)) st;
          st = when_some (str ''/node/batch-poster/l1-block-bound'')
                 (\<lambda>x. set_parent_chain_bound_update (\<lambda>_. Some x)) st;
          st = when_some (str ''/node/batch-poster/parent-chain-wallet/private-key'')
                 (\<lambda>x. set_poster_privkey_update (\<lambda>_. Some x)) st;
          st = when_some (boolean ''/node/feed/output/enable'') (\<lambda>x. set_feed_enable_update (\<lambda>_. x)) st;
          st = when_some (num ''/node/feed/output/port'') (\<lambda>x. set_feed_port_update (\<lambda>_. ucast x)) st;
          st = when_some (str ''/http/addr'') (\<lambda>x. set_rpc_host_update (\<lambda>_. x)) st;
          st = when_some (str ''/ws/addr'') (\<lambda>x. set_rpc_host_update (\<lambda>_. x)) st;
          st = when_some (num ''/http/port'') (\<lambda>x. set_rpc_http_port_update (\<lambda>_. ucast x)) st;
          st = when_some (num ''/ws/port'') (\<lambda>x. set_rpc_ws_port_update (\<lambda>_. ucast x)) st;
          info_files = or_default (Option.bind (pointer F v ''/chain/info-files'') (value_array F)) [];
          info_path = Option.bind (case info_files of x # _ \<Rightarrow> Some x | [] \<Rightarrow> None) (value_str F);
          info_text = Option.bind info_path (\<lambda>p. ok_of (read_file F p))
      in when_some (Option.bind info_text (\<lambda>t. ok_of (parse_json F t))) (apply_info F) st)"

definition resolve_settings :: "'v host \<Rightarrow> NodeArgs \<Rightarrow> node_settings" where
  "resolve_settings F a =
     (let text = Option.bind (arg_conf_file a) (\<lambda>p. ok_of (read_file F p));
          conf = Option.bind text (\<lambda>t. ok_of (parse_json F t))
      in when_some conf (apply_conf F) (initial_settings F a))"

definition of_sum :: "error + 'a \<Rightarrow> 'a result" where
  "of_sum r = (case r of Inr x \<Rightarrow> Ok x | Inl e \<Rightarrow> Err e)"

definition load_chains :: "'v host \<Rightarrow> NodeArgs \<Rightarrow> ChainInfo list result" where
  "load_chains F a =
     (case arg_chaininfo_file a of
        Some path \<Rightarrow> bindR (of_sum (read_file F path)) (\<lambda>t. of_sum (parse_chains F t))
      | None \<Rightarrow> Ok embedded_chains)"

text \<open>The chain, the addresses of its two contracts and the block they were deployed at.\<close>

record chain_choice =
  ch_entry :: ChainInfo
  ch_delayed_bridge :: address
  ch_sequencer_inbox :: address
  ch_deployed_at :: u64

definition choose_chain :: "'v host \<Rightarrow> NodeArgs \<Rightarrow> node_settings \<Rightarrow> chain_choice result" where
  "choose_chain F a st =
     bindR (load_chains F a) (\<lambda>cs.
     bindR (select_chain cs (network_chain_id (arg_network a))) (\<lambda>entry.
     case ci_rollup entry of
       None \<Rightarrow> Err (Bail ''rollup addresses missing'' [])
     | Some rollup \<Rightarrow>
         bindR (of_sum (parse_address F (ra_bridge rollup))) (\<lambda>json_bridge.
         bindR (of_sum (parse_address F (ra_sequencer_inbox rollup))) (\<lambda>json_seq_inbox.
         Ok \<lparr>ch_entry = entry,
             ch_delayed_bridge = or_default (set_delayed_bridge st) json_bridge,
             ch_sequencer_inbox = or_default (set_sequencer_inbox st) json_seq_inbox,
             ch_deployed_at = or_default (ra_deployed_at rollup) 0\<rparr>))))"

section \<open>The genesis\<close>

text \<open>The answer of a node to \<open>eth_getBlockByNumber\<close>: the fields of its block 0, when it has one.\<close>

definition is_sepolia :: "ChainInfo \<Rightarrow> bool" where
  "is_sepolia c \<longleftrightarrow>
     map ascii_lower (or_default (ci_chain_name c) []) = ''sepolia-rollup'' \<or> ci_chain_id c = Some 421614"

definition build_spec_from_baked_genesis ::
    "(string \<Rightarrow> ('w, (string \<rightharpoonup> string) option) M) \<Rightarrow>
     (u64 \<Rightarrow> string \<Rightarrow> string \<Rightarrow> string \<Rightarrow> string \<Rightarrow> string \<Rightarrow> 'spec result) \<Rightarrow>
     ChainInfo \<Rightarrow> string \<Rightarrow> ('w, 'spec) M" where
  "build_spec_from_baked_genesis fetch_block_0 from_header entry l2_rpc_url =
     (if \<not> is_sepolia entry then bailM (Bail ''baked genesis only supported for sepolia-rollup'' [])
      else
      bindM (fetch_block_0 l2_rpc_url) (\<lambda>r. case r of
        None \<Rightarrow> bailM (Bail ''no block 0 result'' [])
      | Some block \<Rightarrow>
          (let field = (\<lambda>name d. or_default (block name) d) in
           if field ''parentHash'' [] \<noteq> ''0x'' @ replicate 64 (CHR ''0'') then
             bailM (Bail ''invalid parent hash for genesis'' [])
           else
             liftR (from_header (or_default (ci_chain_id entry) 421614) (field ''baseFeePerGas'' ''0x0'')
               (field ''timestamp'' ''0x0'') (field ''stateRoot'' ''0x0'') (field ''gasLimit'' ''0x0'')
               (field ''extraData'' ''0x'')))))"

definition default_l2_rpc :: string where
  "default_l2_rpc = ''https://arb-sepolia.g.alchemy.com/v2/lC2HDPB2Vs7-p-UPkgKD-VqFulU5elyk''"

definition build_spec ::
    "'v host \<Rightarrow> NodeArgs \<Rightarrow> chain_choice \<Rightarrow> (ChainInfo \<Rightarrow> string \<Rightarrow> ('w, 'spec) M) \<Rightarrow>
     (u64 \<Rightarrow> ('w, 'spec option) M) \<Rightarrow> ('w, 'spec) M" where
  "build_spec F a ch baked from_init =
     (if is_sepolia (ch_entry ch) then
        baked (ch_entry ch)
          (case arg_l2_rpc_url a of Some u \<Rightarrow> u | None \<Rightarrow> or_default (env_var F ''NITRO_L2_RPC'') default_l2_rpc)
      else
        bindM (from_init (ch_deployed_at ch)) (\<lambda>r. case r of
          Some spec \<Rightarrow> okM spec
        | None \<Rightarrow> bailM (Bail ''init message not found; no baked genesis path for this chain'' [])))"

section \<open>The parts the node starts\<close>

definition node_reader_config :: InboxReaderConfig where
  "node_reader_config =
     default_reader_config\<lparr>check_delay_ms := 5000, default_blocks_to_read := 200, max_blocks_to_read := 5000\<rparr>"

text \<open>\<open>str::parse::<u64>\<close>: a plus sign may come first, then at least one decimal digit.\<close>

fun dec_digits :: "nat \<Rightarrow> string \<Rightarrow> nat option" where
  "dec_digits acc [] = Some acc"
| "dec_digits acc (c # s) =
     (let n = of_char c :: nat in
      if 48 \<le> n \<and> n \<le> 57 \<and> 10 * acc + (n - 48) < 2 ^ 64 then dec_digits (10 * acc + (n - 48)) s
      else None)"

definition u64_from_dec :: "string \<Rightarrow> u64 option" where
  "u64_from_dec s =
     (let ds = (case s of c # r \<Rightarrow> if c = CHR ''+'' then r else s | [] \<Rightarrow> s) in
      if ds = [] then None else map_option of_nat (dec_digits 0 ds))"

definition first_msg_block :: "'v host \<Rightarrow> NodeArgs \<Rightarrow> chain_choice \<Rightarrow> u64" where
  "first_msg_block F a ch =
     (case arg_first_message_block a of
        Some v \<Rightarrow> v
      | None \<Rightarrow>
          or_default (Option.bind (env_var F ''NITRO_FIRST_MESSAGE_BLOCK'') u64_from_dec) (ch_deployed_at ch))"

definition node_poster_config :: "NodeArgs \<Rightarrow> node_settings \<Rightarrow> chain_choice \<Rightarrow> BatchPosterConfig option" where
  "node_poster_config a st ch =
     (if set_poster_enable st then
        Some \<lparr>cfg_enabled = True, cfg_use_4844 = arg_poster_4844_enable a, cfg_l1_rpc_url = set_l1_rpc st,
              cfg_sequencer_inbox = ch_sequencer_inbox ch,
              cfg_parent_chain_bound = or_default (set_parent_chain_bound st) ''latest'',
              cfg_poster_private_key_hex = set_poster_privkey st\<rparr>
      else None)"

end
