(* ===== verification/EngineAdapter.thy ===== *)
theory EngineAdapter
  imports Streamer
begin

text \<open>
  \<open>crates/node/src/engine_adapter.rs\<close>: the execution engine behind the streamer.  It finds the
  last executed message by looking for stored results, and digests a message by driving the
  handles of \<open>reth\<close> (the beacon engine and the payload builder), which are parameters: their
  calls act on a world \<open>'w\<close> of their own.
\<close>

section \<open>The handles of reth\<close>

datatype PayloadStatusEnum = Valid | Invalid string | Syncing | Accepted

record ForkchoiceState =
  head_block_hash :: b256
  safe_block_hash :: b256
  finalized_block_hash :: b256

text \<open>
  Payload attributes differ only in the timestamp; the other fields are constants of the source.
  \<open>send_new_payload\<close> answers with an id, an error of the builder, or nothing when the channel to
  it is closed; \<open>resolve_kind\<close> answers with the built block or an error, or nothing.
\<close>

datatype send_reply = PayloadId nat | PayloadError string | ChannelClosed

record BuiltPayload =
  block_hash_of :: b256
  header_timestamp :: u64
  extra_data :: bytes

record 'w beacon_handle =
  fork_choice_updated :: "ForkchoiceState \<Rightarrow> u64 option \<Rightarrow> ('w, PayloadStatusEnum) M"

record 'w builder_handle =
  send_new_payload :: "b256 \<Rightarrow> u64 \<Rightarrow> 'w \<Rightarrow> send_reply \<times> 'w"
  resolve_kind :: "nat \<Rightarrow> 'w \<Rightarrow> BuiltPayload result option \<times> 'w"

record 'w RethExecEngine =
  beacon_engine_handle :: "'w beacon_handle option"
  payload_builder_handle :: "'w builder_handle option"
  genesis_hash :: b256

record 'w engine_state =
  last_timestamp :: u64
  world :: 'w

definition on_world :: "('w, 'a) M \<Rightarrow> ('w engine_state, 'a) M" where
  "on_world m = (\<lambda>x. case m (world x) of (r, w) \<Rightarrow> (r, x\<lparr>world := w\<rparr>))"

definition map_errM :: "('s, 'a) M \<Rightarrow> (error \<Rightarrow> error) \<Rightarrow> ('s, 'a) M" where
  "map_errM m f = (\<lambda>s. case m s of (r, s') \<Rightarrow> (mapErr r f, s'))"

section \<open>The head\<close>

text \<open>The search runs down from the last stored message to the first one with a result.\<close>

function head_search :: "'db database \<Rightarrow> 'db \<Rightarrow> u64 \<Rightarrow> u64 result" where
  "head_search D s i =
     bindR (db_has D s (db_key MESSAGE_RESULT_PREFIX i)) (\<lambda>has.
     if has then Ok i
     else if i = 0 then Ok (- 1)
     else head_search D s (i - 1))"
  by pat_completeness auto
termination
  by (relation "measure (\<lambda>(D, s, i). unat i)") (auto simp: unat_minus_one unat_gt_0)

declare head_search.simps [simp del]

definition reth_head_message_index :: "'db database \<Rightarrow> rlp \<Rightarrow> 'db \<Rightarrow> u64 result" where
  "reth_head_message_index D R s =
     bindR (db_get D s MESSAGE_COUNT_KEY) (\<lambda>data.
     bindR (mapErr (decode_all (rlp_u64 R) data) (Wrap ''failed to decode message count: {e}'')) (\<lambda>count.
     if count = 0 then Ok (- 1) else head_search D s (count - 1)))"

definition reth_result_at_message_index :: "'db database \<Rightarrow> rlp \<Rightarrow> 'db \<Rightarrow> u64 \<Rightarrow> MessageResult result" where
  "reth_result_at_message_index D R s msg_idx =
     bindR (db_get D s (db_key MESSAGE_RESULT_PREFIX msg_idx)) (\<lambda>data.
     mapErr (decode_all (result_codec R) data) (Wrap ''failed to decode MessageResult: {e}''))"

section \<open>Digesting a message\<close>

definition digest_parent_hash ::
    "'db database \<Rightarrow> rlp \<Rightarrow> b256 \<Rightarrow> 'db \<Rightarrow> u64 \<Rightarrow> b256 result" where
  "digest_parent_hash D R genesis s msg_idx =
     (if msg_idx = 0 then Ok genesis
      else
      bindR (db_get D s (db_key MESSAGE_RESULT_PREFIX (msg_idx - 1))) (\<lambda>data.
      bindR (mapErr (decode_all (result_codec R) data) (Wrap ''failed to decode prev MessageResult: {e}''))
        (\<lambda>prev. Ok (res_block_hash prev))))"

text \<open>\<open>next_timestamp prev ts\<close>: a block is never older than, or as old as, the one before it.\<close>

definition next_timestamp :: "u64 \<Rightarrow> u64 \<Rightarrow> u64" where
  "next_timestamp prev ts = (if ts \<le> prev then sat_add prev 1 else ts)"

text \<open>
  The retry loop of \<open>send_new_payload\<close>.  A missing parent is retried up to 60 times, a closed
  channel while fewer than 10 attempts were made; both count the same attempts.
\<close>

function send_new_payload_loop ::
    "'w builder_handle \<Rightarrow> b256 \<Rightarrow> u64 \<Rightarrow> nat \<Rightarrow> ('w, nat) M" where
  "send_new_payload_loop B parent ts attempts = (\<lambda>w.
     case send_new_payload B parent ts w of
       (PayloadId i, w') \<Rightarrow> (Ok i, w')
     | (PayloadError txt, w') \<Rightarrow>
         (if contains_text ''missing parent header'' txt \<and> attempts < 60
          then send_new_payload_loop B parent ts (attempts + 1) w'
          else (Err (Wrap ''failed to get payload id: {e}'' (Ext txt)), w'))
     | (ChannelClosed, w') \<Rightarrow>
         (if attempts < 10 then send_new_payload_loop B parent ts (attempts + 1) w'
          else (Err (Bail ''failed to get payload id: channel closed'' []), w')))"
  by pat_completeness auto
termination
  by (relation "measure (\<lambda>(B, parent, ts, attempts). 60 - attempts)") auto

declare send_new_payload_loop.simps [simp del]

definition send_root_of :: "bytes \<Rightarrow> b256" where
  "send_root_of extra = (if length extra \<ge> 32 then un_be256 (take 32 extra) else 0)"

definition same_forkchoice :: "b256 \<Rightarrow> ForkchoiceState" where
  "same_forkchoice h = \<lparr>head_block_hash = h, safe_block_hash = h, finalized_block_hash = h\<rparr>"

definition reth_digest_message ::
    "'db database \<Rightarrow> rlp \<Rightarrow> 'w RethExecEngine \<Rightarrow> 'db \<Rightarrow> u64 \<Rightarrow> MessageWithMetadata \<Rightarrow>
     MessageWithMetadata option \<Rightarrow> ('w engine_state, MessageResult) M" where
  "reth_digest_message D R E s msg_idx msg msg_for_prefetch =
     (case beacon_engine_handle E of
        None \<Rightarrow> bailM (Bail ''missing beacon engine handle'' [])
      | Some beacon \<Rightarrow>
     (case payload_builder_handle E of
        None \<Rightarrow> bailM (Bail ''missing payload builder handle'' [])
      | Some builder \<Rightarrow>
     bindM (liftR (digest_parent_hash D R (genesis_hash E) s msg_idx)) (\<lambda>parent_hash.
     bindM (\<lambda>x. let ts = next_timestamp (last_timestamp x) (timestamp (header (message msg)))
                in (Ok ts, x\<lparr>last_timestamp := ts\<rparr>)) (\<lambda>ts.
     bindM (if msg_idx = 0 then
              bindM (on_world (map_errM (fork_choice_updated beacon (same_forkchoice (genesis_hash E)) None)
                       (Wrap ''engine initial fork_choice_updated error: {e}''))) (\<lambda>_. okM ())
            else okM ()) (\<lambda>_.
     bindM (on_world (map_errM (fork_choice_updated beacon (same_forkchoice parent_hash) None)
                       (Wrap ''engine pre fork_choice_updated error: {e}''))) (\<lambda>pre_resp.
     case pre_resp of
       Invalid e \<Rightarrow> bailM (Wrap ''engine pre fork_choice_updated invalid: {:?}'' (Ext e))
     | _ \<Rightarrow>
     bindM (on_world (map_errM (fork_choice_updated beacon (same_forkchoice parent_hash) (Some ts))
                       (Wrap ''engine fork_choice_updated(with attrs) error: {e}''))) (\<lambda>fcu_with_attrs.
     case fcu_with_attrs of
       Invalid e \<Rightarrow> bailM (Wrap ''engine fork_choice_updated with attrs invalid: {:?}'' (Ext e))
     | _ \<Rightarrow>
     bindM (on_world (send_new_payload_loop builder parent_hash ts 0)) (\<lambda>pid.
     bindM (on_world (\<lambda>w. case resolve_kind builder pid w of
                          (None, w') \<Rightarrow> (Err (Bail ''payload resolve channel closed'' []), w')
                        | (Some r, w') \<Rightarrow> (r, w'))) (\<lambda>built.
     bindM (on_world (map_errM (fork_choice_updated beacon
                \<lparr>head_block_hash = block_hash_of built, safe_block_hash = parent_hash,
                 finalized_block_hash = parent_hash\<rparr> None)
              (Wrap ''engine fork_choice_updated error: {e}''))) (\<lambda>fcu_resp.
     if fcu_resp = Valid \<or> fcu_resp = Syncing then
       bindM (\<lambda>x. (Ok (), x\<lparr>last_timestamp := max (last_timestamp x) (header_timestamp built)\<rparr>)) (\<lambda>_.
       okM \<lparr>res_block_hash = block_hash_of built, send_root = send_root_of (extra_data built)\<rparr>)
     else bailM (Bail ''engine fork_choice_updated not valid/syncing: {:?}'' [])))))))))))"

definition reth_engine ::
    "'db database \<Rightarrow> rlp \<Rightarrow> 'w RethExecEngine \<Rightarrow> ('db, 'w engine_state) exec_engine" where
  "reth_engine D R E =
     \<lparr>head_message_index = (\<lambda>s x. reth_head_message_index D R s),
      digest_message = reth_digest_message D R E\<rparr>"

end
