(* ===== verification/EthSequencer.thy ===== *)
theory EthSequencer
  imports Bridge
begin

text \<open>
  \<open>crates/inbox-bridge/src/eth_sequencer.rs\<close>: the sequencer inbox contract read over RPC.  The
  batch events are decoded word by word; the bytes of a batch posted in an event are looked up by
  block, by transaction, or in the receipt of the transaction.
\<close>

record EthSequencerInbox =
  inbox_addr :: address

section \<open>Counts and accumulators\<close>

definition eth_get_batch_count ::
    "keccak \<Rightarrow> hexlib \<Rightarrow> 'w rpc \<Rightarrow> EthSequencerInbox \<Rightarrow> u64 \<Rightarrow> ('w, u64) M" where
  "eth_get_batch_count K H rpc I height =
     bindM (eth_call rpc (inbox_addr I) (encode_selector K SIG_BATCH_COUNT) (BlockNumber height)) (\<lambda>res_hex.
     liftR (bindR (hex_decode H (trim_0x res_hex)) (\<lambda>res.
       if length res < 32 then Err (Bail ''short returndata for batchCount'' [])
       else bindR (slice 0 32 res) (\<lambda>w.
         if unat (un_be256 w) < 2 ^ 64 then Ok (of_nat (unat (un_be256 w)))
         else Err (Bail ''count overflow'' [])))))"

definition eth_get_accumulator ::
    "keccak \<Rightarrow> hexlib \<Rightarrow> 'w rpc \<Rightarrow> EthSequencerInbox \<Rightarrow> u64 \<Rightarrow> u64 \<Rightarrow> ('w, b256) M" where
  "eth_get_accumulator K H rpc I seqno height =
     bindM (eth_call rpc (inbox_addr I) (encode_selector K SIG_INBOX_ACCS @ be256 (ucast seqno))
              (BlockNumber height)) (\<lambda>res_hex.
     liftR (bindR (hex_decode H (trim_0x res_hex)) (\<lambda>res.
       if length res < 32 then Err (Bail ''short returndata for inboxAccs'' [])
       else b256_at_word res 0)))"

section \<open>Batch events\<close>

text \<open>
  The words of the event from the delayed accumulator on.  With four topics the accumulator after
  the batch is the last topic, with three it is the first word and the others move up.
\<close>

definition delivered_words ::
    "bytes \<Rightarrow> nat \<Rightarrow> (b256 \<times> u64 \<times> TimeBounds \<times> u256) result" where
  "delivered_words data off =
     bindR (b256_at_word data off) (\<lambda>delayed_acc.
     bindR (u64_at_word data (off + 32)) (\<lambda>after_delayed_count.
     bindR (u64_at_word data (off + 64)) (\<lambda>min_ts.
     bindR (u64_at_word data (off + 96)) (\<lambda>max_ts.
     bindR (u64_at_word data (off + 128)) (\<lambda>min_bn.
     bindR (u64_at_word data (off + 160)) (\<lambda>max_bn.
     bindR (b256_at_word data (off + 192)) (\<lambda>data_loc.
     Ok (delayed_acc, after_delayed_count,
         \<lparr>tb_min_timestamp = min_ts, tb_max_timestamp = max_ts,
          tb_min_block_number = min_bn, tb_max_block_number = max_bn\<rparr>, data_loc))))))))"

text \<open>One log; \<open>None\<close> when it is skipped.\<close>

definition decode_delivered :: "hexlib \<Rightarrow> RpcLog \<Rightarrow> SequencerInboxBatch option result" where
  "decode_delivered H lg =
     bindR (hex_decode H (trim_0x (log_data lg))) (\<lambda>data.
     if length (log_topics lg) < 3 \<or> length data < 32 * 7 then Ok None
     else
     bindR (to_u64 (or_zero (b256_from_str H (log_topics lg ! 1)))) (\<lambda>seq.
     let before_acc = or_zero (b256_from_str H (log_topics lg ! 2)) in
     bindR (if length (log_topics lg) \<ge> 4
            then bindR (delivered_words data 0) (\<lambda>ws.
                 Ok (or_zero (b256_from_str H (log_topics lg ! 3)), ws))
            else bindR (b256_at_word data 0) (\<lambda>after_acc.
                 bindR (delivered_words data 32) (\<lambda>ws. Ok (after_acc, ws))))
       (\<lambda>(after_acc, delayed_acc, delayed_count, bounds, data_loc).
     Ok (Some
       \<lparr>sequence_number = seq, before_inbox_acc = before_acc, after_inbox_acc = after_acc,
        after_message_count = 0, after_delayed_count = delayed_count, after_delayed_acc = delayed_acc,
        time_bounds = bounds, data_location = of_nat (unat data_loc mod 256),
        bridge_address = or_zero (address_from_str H (log_address lg)),
        parent_chain_block_number = opt_u64 (log_blockNumber lg),
        batch_block_hash = opt_b256 H (log_blockHash lg), tx_hash = opt_b256 H (log_transactionHash lg),
        serialized = []\<rparr>))))"

fun decode_all_delivered :: "hexlib \<Rightarrow> RpcLog list \<Rightarrow> SequencerInboxBatch list result" where
  "decode_all_delivered H [] = Ok []"
| "decode_all_delivered H (lg # logs) =
     bindR (decode_delivered H lg) (\<lambda>r.
     bindR (decode_all_delivered H logs) (\<lambda>bs.
     Ok (case r of Some b \<Rightarrow> b # bs | None \<Rightarrow> bs)))"

definition eth_lookup_batches_in_range ::
    "keccak \<Rightarrow> hexlib \<Rightarrow> 'w rpc \<Rightarrow> EthSequencerInbox \<Rightarrow> u64 \<Rightarrow> u64 \<Rightarrow> ('w, SequencerInboxBatch list) M" where
  "eth_lookup_batches_in_range K H rpc I from_block to_block =
     bindM (eth_getLogs rpc
              \<lparr>lf_blocks = Blocks from_block to_block, lf_address = [inbox_addr I],
               lf_topics = [[event_topic K EVT_SEQUENCER_BATCH_DELIVERED]]\<rparr>) (\<lambda>logs.
     liftR (decode_all_delivered H logs))"

section \<open>The bytes of a batch\<close>

text \<open>The log among those of the block: the only one, or the one of the transaction.\<close>

definition choose_log :: "hexlib \<Rightarrow> b256 \<Rightarrow> RpcLog list \<Rightarrow> RpcLog option" where
  "choose_log H tx logs =
     (if length logs = 1 then Some (hd logs)
      else if length logs > 1 \<and> tx \<noteq> 0 then
        find (\<lambda>l. case log_transactionHash l of
                    Some th \<Rightarrow> eq_ignore_ascii_case th (fmt_b256 H tx) | None \<Rightarrow> False) logs
      else None)"

definition receipt_log :: "hexlib \<Rightarrow> address \<Rightarrow> b256 \<Rightarrow> b256 \<Rightarrow> RpcLog list \<Rightarrow> RpcLog option" where
  "receipt_log H addr topic0 topic1 logs =
     find (\<lambda>l. eq_ignore_ascii_case (log_address l) (fmt_address H addr) \<and>
               length (log_topics l) \<ge> 2 \<and>
               eq_ignore_ascii_case (log_topics l ! 0) (fmt_b256 H topic0) \<and>
               eq_ignore_ascii_case (log_topics l ! 1) (fmt_b256 H topic1)) logs"

text \<open>
  The payload of the event: its length is the second word, its bytes follow.  The sum of the length
  and 64 is a machine integer.
\<close>

definition batch_data_bytes :: "bytes \<Rightarrow> bytes result" where
  "batch_data_bytes data =
     (if length data < 64 then Err (Bail ''invalid SequencerBatchData encoding'' [])
      else
      bindR (u64_at_word data 32) (\<lambda>len.
      if length data < unat (64 + len) then Err (Bail ''short SequencerBatchData payload'' [])
      else slice 64 (unat (64 + len)) data))"

definition eth_get_sequencer_message_bytes_in_block ::
    "keccak \<Rightarrow> hexlib \<Rightarrow> 'w rpc \<Rightarrow> EthSequencerInbox \<Rightarrow> u64 \<Rightarrow> u64 \<Rightarrow> b256 \<Rightarrow> b256 \<Rightarrow>
     ('w, bytes \<times> b256 \<times> u64 list) M" where
  "eth_get_sequencer_message_bytes_in_block K H rpc I height seqno tx bh =
     (let topic0 = event_topic K EVT_SEQUENCER_BATCH_DATA; topic1 = ucast seqno;
          blocks = (if bh \<noteq> 0 then BlockHash bh else Blocks height height) in
      bindM (eth_getLogs rpc
               \<lparr>lf_blocks = blocks, lf_address = [inbox_addr I], lf_topics = [[topic0], [topic1]]\<rparr>) (\<lambda>logs.
      bindM (case choose_log H tx logs of
               Some lg \<Rightarrow> okM lg
             | None \<Rightarrow>
                 if tx = 0 then
                   bailM (Bail (''no unambiguous SequencerBatchData log for seq {} at block {} and no '' @
                                ''tx_hash provided'') [unat seqno, unat height])
                 else
                 bindM (eth_getTransactionReceipt rpc (fmt_b256 H tx)) (\<lambda>receipt.
                 case receipt_log H (inbox_addr I) topic0 topic1 (rc_logs receipt) of
                   Some lg \<Rightarrow> okM lg
                 | None \<Rightarrow> bailM (Bail ''no SequencerBatchData in receipt for seq {} (tx {})'' [unat seqno])))
        (\<lambda>lg.
      liftR (bindR (hex_decode H (trim_0x (log_data lg))) (\<lambda>data.
        bindR (batch_data_bytes data) (\<lambda>batch_bytes.
        Ok (batch_bytes, opt_b256 H (log_blockHash lg), [])))))))"

definition eth_get_tx_input_and_blobs ::
    "hexlib \<Rightarrow> 'w rpc \<Rightarrow> b256 \<Rightarrow> ('w, bytes \<times> b256 list) M" where
  "eth_get_tx_input_and_blobs H rpc tx =
     bindM (eth_getTransactionByHash rpc (fmt_b256 H tx)) (\<lambda>t.
     liftR (bindR (hex_decode H (trim_0x (tx_input t))) (\<lambda>input.
       Ok (input, case tx_blobs t of
             Some hs \<Rightarrow> List.map_filter (\<lambda>h. case b256_from_str H h of Ok b \<Rightarrow> Some b | _ \<Rightarrow> None) hs
           | None \<Rightarrow> []))))"

definition eth_sequencer_inbox ::
    "keccak \<Rightarrow> hexlib \<Rightarrow> 'w rpc \<Rightarrow> EthSequencerInbox \<Rightarrow> 'w SequencerInbox" where
  "eth_sequencer_inbox K H rpc I =
     \<lparr>inbox_batch_count = eth_get_batch_count K H rpc I,
      inbox_accumulator = eth_get_accumulator K H rpc I,
      inbox_lookup = eth_lookup_batches_in_range K H rpc I,
      inbox_message_bytes = eth_get_sequencer_message_bytes_in_block K H rpc I,
      inbox_tx_input = eth_get_tx_input_and_blobs H rpc\<rparr>"

end
