(* ===== verification/EthDelayed.thy ===== *)
theory EthDelayed
  imports Bridge
begin

text \<open>
  \<open>crates/inbox-bridge/src/eth_delayed.rs\<close> and \<open>header_reader.rs\<close>: the bridge contract read
  over RPC.  A delayed message is put together from two events, the bridge's with the header and
  the hash of the data, and the inbox's with the data, and is returned only when the two agree.
\<close>

record EthDelayedBridge =
  bridge_addr :: address

section \<open>Counts and accumulators\<close>

definition eth_get_message_count ::
    "keccak \<Rightarrow> hexlib \<Rightarrow> 'w rpc \<Rightarrow> EthDelayedBridge \<Rightarrow> u64 \<Rightarrow> ('w, u64) M" where
  "eth_get_message_count K H rpc I height =
     bindM (eth_call rpc (bridge_addr I) (encode_selector K SIG_DELAYED_COUNT) (BlockNumber height)) (\<lambda>res_hex.
     liftR (bindR (hex_decode H (trim_0x res_hex)) (\<lambda>res.
       if length res < 32 then Err (Bail ''short returndata for delayedMessageCount'' [])
       else bindR (slice 0 32 res) (\<lambda>w.
         if unat (un_be256 w) < 2 ^ 64 then Ok (of_nat (unat (un_be256 w)))
         else Err (Bail ''count overflow'' [])))))"

definition eth_get_delayed_accumulator ::
    "keccak \<Rightarrow> hexlib \<Rightarrow> 'w rpc \<Rightarrow> EthDelayedBridge \<Rightarrow> u64 \<Rightarrow> u64 \<Rightarrow> b256 \<Rightarrow> ('w, b256) M" where
  "eth_get_delayed_accumulator K H rpc I seqno height bh =
     bindM (eth_call rpc (bridge_addr I) (encode_selector K SIG_DELAYED_INBOX_ACCS @ be256 (ucast seqno))
              (if bh \<noteq> 0 then BlockId bh else BlockNumber height)) (\<lambda>res_hex.
     liftR (bindR (hex_decode H (trim_0x res_hex)) (\<lambda>res.
       if length res < 32 then Err (Bail ''short returndata for delayedInboxAccs'' [])
       else b256_at_word res 0)))"

section \<open>The bridge's events\<close>

text \<open>A message without its data, the inbox it came through, its index, and the hash of the data.\<close>

type_synonym parsed_delayed = "DelayedInboxMessage \<times> address \<times> b256 \<times> b256"

definition address_at_word :: "bytes \<Rightarrow> nat \<Rightarrow> address result" where
  "address_at_word data a = bindR (slice (a + 12) (a + 32) data) (\<lambda>w. Ok (un_be160 w))"

text \<open>Everything of the event but the block number; \<open>topics[2]\<close> is indexed after a test for two topics.\<close>

definition message_delivered ::
    "hexlib \<Rightarrow> RpcLog \<Rightarrow> bytes \<Rightarrow> (u64 \<Rightarrow> parsed_delayed) result" where
  "message_delivered H lg data =
     (let msg_index = or_zero (b256_from_str H (log_topics lg ! 1)) in
      bindR (to_u64 msg_index) (\<lambda>message_index.
      bindR (if 2 < length (log_topics lg) then Ok (or_zero (b256_from_str H (log_topics lg ! 2)))
             else Panic) (\<lambda>before_acc.
      bindR (address_at_word data 0) (\<lambda>inbox.
      bindR (u64_at_word data 32) (\<lambda>kind64.
      bindR (address_at_word data 64) (\<lambda>sender.
      bindR (b256_at_word data 96) (\<lambda>data_hash.
      bindR (b256_at_word data 128) (\<lambda>basefee.
      bindR (u64_at_word data 160) (\<lambda>ts.
      Ok (\<lambda>l1_block.
        (\<lparr>dim_seq_num = message_index, dim_block_hash = opt_b256 H (log_blockHash lg),
          dim_before_inbox_acc = before_acc,
          dim_message =
            \<lparr>header = \<lparr>kind = (if unat kind64 < 256 then of_nat (unat kind64) else 0), poster = sender,
                       block_number = l1_block, timestamp = ts, request_id = Some msg_index,
                       l1_base_fee = basefee\<rparr>,
             l2msg = [], batch_gas_cost = None\<rparr>,
          dim_parent_chain_block_number = opt_u64 (log_blockNumber lg)\<rparr>,
         inbox, msg_index, data_hash)))))))))))"

definition parse_delivered_log :: "hexlib \<Rightarrow> 'w rpc \<Rightarrow> RpcLog \<Rightarrow> ('w, parsed_delayed option) M" where
  "parse_delivered_log H rpc lg =
     bindM (liftR (hex_decode H (trim_0x (log_data lg)))) (\<lambda>data.
     if length (log_topics lg) < 2 \<or> length data < 32 * 5 then okM None
     else
     bindM (liftR (message_delivered H lg data)) (\<lambda>mk.
     bindM (case log_blockHash lg of
              Some bh \<Rightarrow>
                bindM (eth_getBlockByHash rpc bh) (\<lambda>n.
                okM (case u64_from_hex (trim_0x n) of Some x \<Rightarrow> x | None \<Rightarrow> 0))
            | None \<Rightarrow> okM (opt_u64 (log_blockNumber lg))) (\<lambda>l1_block.
     okM (Some (mk l1_block)))))"

fun parse_delivered_logs :: "hexlib \<Rightarrow> 'w rpc \<Rightarrow> RpcLog list \<Rightarrow> ('w, parsed_delayed list) M" where
  "parse_delivered_logs H rpc [] = okM []"
| "parse_delivered_logs H rpc (lg # logs) =
     bindM (parse_delivered_log H rpc lg) (\<lambda>r.
     bindM (parse_delivered_logs H rpc logs) (\<lambda>ps.
     okM (case r of Some p \<Rightarrow> p # ps | None \<Rightarrow> ps)))"

section \<open>The inboxes' events\<close>

text \<open>
  Length and bytes of a dynamic argument whose length word is at \<open>a\<close>; the end of the bytes is a
  machine integer.
\<close>

definition dynamic_bytes :: "bytes \<Rightarrow> nat \<Rightarrow> bytes option result" where
  "dynamic_bytes data a =
     bindR (u64_at_word data a) (\<lambda>len.
     let stop = unat (of_nat (a + 32) + len :: u64) in
     if length data \<ge> stop then bindR (slice (a + 32) stop data) (\<lambda>b. Ok (Some b)) else Ok None)"

definition inbox_log_data ::
    "keccak \<Rightarrow> hexlib \<Rightarrow> 'w rpc \<Rightarrow> RpcLog \<Rightarrow> ('w, (b256 \<times> bytes) option) M" where
  "inbox_log_data K H rpc lg =
     (if length (log_topics lg) < 2 then okM None
      else
      let topic0 = or_zero (b256_from_str H (log_topics lg ! 0));
          msg_id = or_zero (b256_from_str H (log_topics lg ! 1)) in
      bindM (liftR (hex_decode H (trim_0x (log_data lg)))) (\<lambda>data.
      if topic0 = event_topic K EVT_INBOX_MESSAGE_DELIVERED then
        (if length data \<ge> 64 then
           bindM (liftR (dynamic_bytes data 32)) (\<lambda>b. okM (map_option (Pair msg_id) b))
         else okM None)
      else if topic0 = event_topic K EVT_INBOX_MESSAGE_FROM_ORIGIN then
        (case log_transactionHash lg of
           None \<Rightarrow> okM None
         | Some tx \<Rightarrow>
             bindM (eth_getTransactionByHash rpc tx) (\<lambda>t.
             bindM (liftR (hex_decode H (trim_0x (tx_input t)))) (\<lambda>input.
             if length input \<ge> 4 + 64 \<and> take 4 input = encode_selector K SIG_SEND_L2_FROM_ORIGIN then
               bindM (liftR (dynamic_bytes input 36)) (\<lambda>b. okM (map_option (Pair msg_id) b))
             else okM None)))
      else okM None))"

fun collect_data ::
    "keccak \<Rightarrow> hexlib \<Rightarrow> 'w rpc \<Rightarrow> RpcLog list \<Rightarrow> (b256 \<rightharpoonup> bytes) \<Rightarrow> ('w, b256 \<rightharpoonup> bytes) M" where
  "collect_data K H rpc [] m = okM m"
| "collect_data K H rpc (lg # logs) m =
     bindM (inbox_log_data K H rpc lg) (\<lambda>r.
     collect_data K H rpc logs (case r of Some (msg_id, b) \<Rightarrow> m(msg_id \<mapsto> b) | None \<Rightarrow> m))"

fun attach_data :: "keccak \<Rightarrow> (b256 \<rightharpoonup> bytes) \<Rightarrow> parsed_delayed list \<Rightarrow> DelayedInboxMessage list result" where
  "attach_data K m [] = Ok []"
| "attach_data K m ((dim, inbox, req_id, expected_hash) # ps) =
     (case m req_id of
        None \<Rightarrow> Err (Bail ''message {} data not found'' [unat req_id])
      | Some d \<Rightarrow>
          if K d \<noteq> expected_hash then
            Err (Bail ''found message {} data with mismatched hash: expected {:#x} got {:#x}''
                   [unat req_id, unat expected_hash, unat (K d)])
          else
          bindR (attach_data K m ps) (\<lambda>out.
          Ok (dim\<lparr>dim_message := (dim_message dim)\<lparr>l2msg := d\<rparr>\<rparr> # out)))"

definition eth_lookup_messages_in_range ::
    "keccak \<Rightarrow> hexlib \<Rightarrow> 'w rpc \<Rightarrow> EthDelayedBridge \<Rightarrow> u64 \<Rightarrow> u64 \<Rightarrow> ('w, DelayedInboxMessage list) M" where
  "eth_lookup_messages_in_range K H rpc I from_block to_block =
     bindM (eth_getLogs rpc
              \<lparr>lf_blocks = Blocks from_block to_block, lf_address = [bridge_addr I],
               lf_topics = [[event_topic K EVT_MESSAGE_DELIVERED]]\<rparr>) (\<lambda>logs.
     bindM (parse_delivered_logs H rpc logs) (\<lambda>parsed.
     if parsed = [] then okM []
     else
     bindM (eth_getLogs rpc
              \<lparr>lf_blocks = Blocks from_block to_block,
               lf_address = sort (remdups (map (\<lambda>(_, inbox, _, _). inbox) parsed)),
               lf_topics = [[event_topic K EVT_INBOX_MESSAGE_DELIVERED,
                             event_topic K EVT_INBOX_MESSAGE_FROM_ORIGIN],
                            map (\<lambda>(_, _, req_id, _). req_id) parsed]\<rparr>) (\<lambda>ilogs.
     bindM (collect_data K H rpc ilogs Map.empty) (\<lambda>data_by_id.
     bindM (liftR (attach_data K data_by_id parsed)) (\<lambda>out.
     okM (sort_key dim_seq_num out))))))"

definition eth_delayed_bridge ::
    "keccak \<Rightarrow> hexlib \<Rightarrow> 'w rpc \<Rightarrow> EthDelayedBridge \<Rightarrow> 'w DelayedBridge" where
  "eth_delayed_bridge K H rpc I =
     \<lparr>bridge_message_count = eth_get_message_count K H rpc I,
      bridge_accumulator = eth_get_delayed_accumulator K H rpc I,
      bridge_lookup = eth_lookup_messages_in_range K H rpc I\<rparr>"

section \<open>Headers\<close>

definition hex_or_zero :: "string \<Rightarrow> u64" where
  "hex_or_zero s = (case u64_from_hex (trim_0x s) of Some n \<Rightarrow> n | None \<Rightarrow> 0)"

definition block_number_tag :: "'w rpc \<Rightarrow> string \<Rightarrow> ('w, u64) M" where
  "block_number_tag rpc tag =
     bindM (eth_getBlockByNumber rpc tag) (\<lambda>n.
     okM (hex_or_zero (case n of Some s \<Rightarrow> s | None \<Rightarrow> ''0x0'')))"

definition http_header_reader :: "'w rpc \<Rightarrow> 'w L1HeaderReader" where
  "http_header_reader rpc =
     \<lparr>last_header = bindM (eth_blockNumber rpc) (\<lambda>hex. okM (hex_or_zero hex)),
      latest_safe_block_nr = block_number_tag rpc ''safe'',
      latest_finalized_block_nr = block_number_tag rpc ''finalized''\<rparr>"

text \<open>
  The subscription: of the numbers the ticker reads, an error being no number, those that are larger
  than every one before are sent.
\<close>

fun headers_sent :: "u64 \<Rightarrow> string option list \<Rightarrow> u64 list" where
  "headers_sent last_nr [] = []"
| "headers_sent last_nr (r # rs) =
     (case r of
        Some hex \<Rightarrow>
          (if hex_or_zero hex > last_nr then hex_or_zero hex # headers_sent (hex_or_zero hex) rs
           else headers_sent last_nr rs)
      | None \<Rightarrow> headers_sent last_nr rs)"

end
