(* ===== verification/Service.thy ===== *)
theory Service
  imports NodeConfig EngineAdapter EthSequencer EthDelayed
begin

text \<open>
  \<open>crates/node/src/service.rs\<close>, \<open>NitroNode::start\<close>: how the parts are put together, up to the point
  where their tasks are spawned, with the constructors of the parts.  Launching the execution node, the
  HTTP clients and the parsers are parameters; the scheduling of the tasks is left out.  The feed server
  is its accepting loop: it serves no data but a greeting.
\<close>

section \<open>The parts\<close>

definition new_inbox_reader ::
    "('db, 'c) env \<Rightarrow> 'w DelayedBridge \<Rightarrow> 'w SequencerInbox \<Rightarrow> 'w L1HeaderReader \<Rightarrow> ('w, wake) M \<Rightarrow> u64 \<Rightarrow>
     InboxReaderConfig \<Rightarrow> ('db, 'c, 'w) InboxReader" where
  "new_inbox_reader ev db si hr wakes first cfg =
     \<lparr>rd_env = ev, delayed_bridge = db, sequencer_inbox = si, l1_reader = hr, next_wake = wakes,
      first_message_block = first, rd_config = cfg\<rparr>"

definition new_reader_state :: "('db, 'c) tracker \<Rightarrow> 'w \<Rightarrow> ('db, 'c, 'w) reader_state" where
  "new_reader_state t w =
     \<lparr>rs_tracker = t, rs_world = w, caught_up = False, last_seen_batch_count = 0, last_read_batch_count = 0\<rparr>"

definition new_batch_poster :: "BatchPosterConfig \<Rightarrow> 'n BatchPoster" where
  "new_batch_poster cfg = \<lparr>bp_cfg = cfg, delayed_count_fn = None, bp_segment_source = None\<rparr>"

definition with_delayed_count_fn :: "'n BatchPoster \<Rightarrow> ('n \<Rightarrow> u64) \<Rightarrow> 'n BatchPoster" where
  "with_delayed_count_fn bp f = bp\<lparr>delayed_count_fn := Some f\<rparr>"

definition with_segment_source :: "'n BatchPoster \<Rightarrow> 'n segment_source \<Rightarrow> 'n BatchPoster" where
  "with_segment_source bp s = bp\<lparr>bp_segment_source := Some s\<rparr>"

definition new_exec_engine :: "b256 \<Rightarrow> u64 \<Rightarrow> 'e \<Rightarrow> 'e RethExecEngine \<times> 'e engine_state" where
  "new_exec_engine genesis genesis_timestamp w =
     (\<lparr>beacon_engine_handle = None, payload_builder_handle = None, genesis_hash = genesis\<rparr>,
      \<lparr>last_timestamp = genesis_timestamp, world = w\<rparr>)"

definition new_with_handles ::
    "'e beacon_handle \<Rightarrow> 'e builder_handle \<Rightarrow> b256 \<Rightarrow> u64 \<Rightarrow> 'e \<Rightarrow> 'e RethExecEngine \<times> 'e engine_state" where
  "new_with_handles beacon payload genesis genesis_timestamp w =
     (\<lparr>beacon_engine_handle = Some beacon, payload_builder_handle = Some payload, genesis_hash = genesis\<rparr>,
      \<lparr>last_timestamp = genesis_timestamp, world = w\<rparr>)"

text \<open>\<open>tracker.get_delayed_count().unwrap_or(0)\<close>\<close>

definition poster_delayed_count :: "'db database \<Rightarrow> rlp \<Rightarrow> 'db poster_node \<Rightarrow> u64" where
  "poster_delayed_count D R n = (case get_delayed_count D R (pn_db n) of Ok c \<Rightarrow> c | _ \<Rightarrow> 0)"

definition build_poster :: "'db database \<Rightarrow> rlp \<Rightarrow> BatchPosterConfig \<Rightarrow> 'db poster_node BatchPoster" where
  "build_poster D R cfg =
     with_segment_source (with_delayed_count_fn (new_batch_poster cfg) (poster_delayed_count D R))
       (node_segment_source D R)"

definition new_poster_state :: "'db \<Rightarrow> 'db poster_node poster_state" where
  "new_poster_state s =
     \<lparr>last_after_delayed = None, node_state = \<lparr>pn_db = s, pn_source = new_segment_source (512 * 1024)\<rparr>\<rparr>"

text \<open>The validator: disabled it returns, enabled it ticks for ever.\<close>

definition start_validator :: "bool \<Rightarrow> unit result" where
  "start_validator enabled = (if \<not> enabled then Ok () else Diverge)"

section \<open>The feed server\<close>

text \<open>
  What happens on a connection, one event for each turn of its loop: waiting for data fails, or a read finds
  the connection closed, reads something, or fails.  A connection is shut down, dropped, or still open after
  the events so far.
\<close>

datatype feed_event = Unreadable | ReadClosed | ReadSome | ReadFails

datatype feed_end = FeedOpen | FeedShutdown | FeedDropped

fun feed_connection :: "feed_event list \<Rightarrow> feed_end" where
  "feed_connection [] = FeedOpen"
| "feed_connection (ReadSome # es) = feed_connection es"
| "feed_connection (ReadClosed # es) = FeedShutdown"
| "feed_connection (_ # es) = FeedDropped"

text \<open>
  The loop that accepts: \<open>None\<close> is an accept that failed, \<open>Some es\<close> a connection with its events.  A connection
  is served before the next one is accepted.
\<close>

fun feed_loop :: "feed_event list option list \<Rightarrow> feed_end list" where
  "feed_loop [] = []"
| "feed_loop (None # cs) = feed_loop cs"
| "feed_loop (Some es # cs) =
     (case feed_connection es of FeedOpen \<Rightarrow> [FeedOpen] | e \<Rightarrow> e # feed_loop cs)"

text \<open>\<open>listen\<close> binds the port; the loop is then a task of its own.\<close>

definition start_feed_server :: "('w, unit) M \<Rightarrow> bool \<Rightarrow> ('w, bool) M" where
  "start_feed_server listen enable = (if \<not> enable then okM False else bindM listen (\<lambda>_. okM True))"

section \<open>Start\<close>

record 'ip rpc_server =
  disable_auth_server :: bool
  http_addr :: 'ip
  http_port :: "16 word"
  ws_addr :: 'ip
  ws_port :: "16 word"

text \<open>\<open>unspecified\<close> is \<open>Ipv4Addr::UNSPECIFIED\<close>.\<close>

definition rpc_server_args :: "(string \<Rightarrow> 'ip option) \<Rightarrow> 'ip \<Rightarrow> node_settings \<Rightarrow> 'ip rpc_server" where
  "rpc_server_args parse_ip unspecified st =
     (let ip = or_default (parse_ip (set_rpc_host st)) unspecified in
      \<lparr>disable_auth_server = True, http_addr = ip, http_port = set_rpc_http_port st,
       ws_addr = ip, ws_port = set_rpc_ws_port st\<rparr>)"

text \<open>
  What the node is started on: its host, the codecs, a client and the wake-ups of a subscription for each
  URL, the genesis of a fetched block and of an init message, and the launch of the execution node.
\<close>

record ('v, 'w, 'e, 'spec, 'ip) platform =
  pf_host :: "'v host"
  pf_hex :: hexlib
  pf_rpc :: "string \<Rightarrow> 'w rpc"
  pf_wakes :: "string \<Rightarrow> ('w, wake) M"
  pf_block_0 :: "string \<Rightarrow> ('w, (string \<rightharpoonup> string) option) M"
  pf_from_header :: "u64 \<Rightarrow> string \<Rightarrow> string \<Rightarrow> string \<Rightarrow> string \<Rightarrow> string \<Rightarrow> 'spec result"
  pf_from_genesis :: "Genesis \<Rightarrow> u64 \<Rightarrow> 'spec"
  pf_genesis_hash :: "'spec \<Rightarrow> b256"
  pf_genesis_timestamp :: "'spec \<Rightarrow> u64"
  pf_parse_ip :: "string \<Rightarrow> 'ip option"
  pf_unspecified :: 'ip
  pf_launch :: "'spec \<Rightarrow> 'ip rpc_server \<Rightarrow> ('w, 'e beacon_handle \<times> 'e builder_handle) M"

text \<open>The parts whose tasks are spawned.\<close>

record ('db, 'c, 'w, 'e) node =
  nd_reader :: "('db, 'c, 'w) InboxReader"
  nd_engine :: "'e RethExecEngine \<times> 'e engine_state"
  nd_poster :: "'db poster_node BatchPoster option"
  nd_validator :: bool
  nd_feed :: "bool \<times> 16 word"

definition on_database :: "('db, 'a) M \<Rightarrow> ('db \<times> 'w, 'a) M" where
  "on_database m = (\<lambda>(s, w). case m s of (r, s') \<Rightarrow> (r, (s', w)))"

definition on_outside :: "('w, 'a) M \<Rightarrow> ('db \<times> 'w, 'a) M" where
  "on_outside m = (\<lambda>(s, w). case m w of (r, w') \<Rightarrow> (r, (s, w')))"

text \<open>\<open>start\<close> on an open database, and on an execution node whose state is \<open>e\<close>.\<close>

definition start_node ::
    "('v, 'w, 'e, 'spec, 'ip) platform \<Rightarrow> ('db, 'c) env \<Rightarrow> 'e \<Rightarrow> NodeArgs \<Rightarrow> ('db \<times> 'w, ('db, 'c, 'w, 'e) node) M" where
  "start_node pf ev e a =
     (let F = pf_host pf; K = ev_keccak ev; H = pf_hex pf; st = resolve_settings F a;
          rpc_args = rpc_server_args (pf_parse_ip pf) (pf_unspecified pf) st in
      bindM (liftR (choose_chain F a st)) (\<lambda>ch.
      let rpc = pf_rpc pf (set_l1_rpc st);
          hr = http_header_reader rpc;
          db = eth_delayed_bridge K H rpc \<lparr>bridge_addr = ch_delayed_bridge ch\<rparr>;
          si = eth_sequencer_inbox K H rpc \<lparr>inbox_addr = ch_sequencer_inbox ch\<rparr> in
      bindM (on_outside (build_spec F a ch
        (build_spec_from_baked_genesis (pf_block_0 pf) (pf_from_header pf))
        (build_spec_from_init_message K (pf_from_genesis pf) db hr))) (\<lambda>spec.
      bindM (on_outside (pf_launch pf spec rpc_args)) (\<lambda>(beacon, payload).
      bindM (on_database (initialize (ev_db ev) (ev_rlp ev))) (\<lambda>_.
      okM \<lparr>nd_reader = new_inbox_reader ev db si hr (pf_wakes pf (set_l1_rpc st)) (first_msg_block F a ch)
             node_reader_config,
           nd_engine = new_with_handles beacon payload (pf_genesis_hash pf spec) (pf_genesis_timestamp pf spec) e,
           nd_poster = map_option (build_poster (ev_db ev) (ev_rlp ev)) (node_poster_config a st ch),
           nd_validator = arg_validator_enable a,
           nd_feed = (set_feed_enable st, set_feed_port st)\<rparr>)))))"

end
