(* ===== verification/Client.thy ===== *)
theory Client
  imports EthDelayed
begin

text \<open>
  \<open>crates/inbox-bridge/src/rpc.rs\<close> and \<open>util.rs\<close>: one JSON-RPC call over HTTP, and the addresses
  read from the storage of a proxy contract.  The HTTP client \<open>reqwest\<close> and the parsers of
  \<open>serde_json\<close> are parameters.
\<close>

section \<open>One call\<close>

record 'p RpcReq =
  req_jsonrpc :: string
  req_id :: u64
  req_method :: string
  req_params :: 'p

record RpcError =
  err_code :: "64 word"
  err_message :: string

record 'a RpcResp =
  resp_jsonrpc :: string
  resp_id :: u64
  resp_result :: "'a option"
  resp_error :: "RpcError option"

text \<open>\<open>post(url).json(&req).send()\<close> and the text of the answer, with its status.\<close>

type_synonym ('p, 'w) http_post = "string \<Rightarrow> 'p RpcReq \<Rightarrow> ('w, nat \<times> string) M"

definition is_success :: "nat \<Rightarrow> bool" where
  "is_success status \<longleftrightarrow> 200 \<le> status \<and> status < 300"

definition call ::
    "('p, 'w) http_post \<Rightarrow> (string \<Rightarrow> 'a RpcResp result) \<Rightarrow> string \<Rightarrow> string \<Rightarrow> 'p \<Rightarrow> ('w, 'a) M" where
  "call post from_str url meth params =
     bindM (post url \<lparr>req_jsonrpc = ''2.0'', req_id = 1, req_method = meth, req_params = params\<rparr>)
       (\<lambda>(status, body).
     if \<not> is_success status then bailM (Bail ''rpc http error {}: {}'' [status])
     else
     bindM (liftR (from_str body)) (\<lambda>parsed.
     case resp_error parsed of
       Some err \<Rightarrow> bailM (Bail ''rpc error {}: {}'' [unat (err_code err)])
     | None \<Rightarrow>
         (case resp_result parsed of
            Some out \<Rightarrow> okM out
          | None \<Rightarrow> bailM (Bail ''missing result'' []))))"

section \<open>Proxies\<close>

text \<open>The two storage slots of a proxy, the addresses of its admin and of its implementation.\<close>

definition slot_admin :: b256 where
  "slot_admin = 0xb53127684a568b3173ae13b9f8a6016e243e63b6e8ee1178d6a717850b5d6103"

definition slot_impl :: b256 where
  "slot_impl = 0x360894a13ba1a3210667c828492db98dca3e2076cc3735a920a3ca505d382bbc"

type_synonym 'w get_storage = "string list \<Rightarrow> ('w, string) M"

definition proxy_admin_address :: "hexlib \<Rightarrow> 'w get_storage \<Rightarrow> address \<Rightarrow> ('w, address) M" where
  "proxy_admin_address H eth_getStorageAt proxy =
     bindM (eth_getStorageAt [fmt_address H proxy, fmt_b256 H slot_admin, ''latest'']) (\<lambda>storage.
     liftR (bindR (hex_decode H (trim_0x storage)) (\<lambda>bs.
       if length bs < 32 then Err (Bail ''short storage for proxy admin slot'' [])
       else address_at_word bs 0)))"

definition proxy_impl_address :: "hexlib \<Rightarrow> 'w get_storage \<Rightarrow> address \<Rightarrow> ('w, address) M" where
  "proxy_impl_address H eth_getStorageAt proxy =
     bindM (eth_getStorageAt [fmt_address H proxy, fmt_b256 H slot_impl, ''latest'']) (\<lambda>storage.
     liftR (bindR (hex_decode H (trim_0x storage)) (\<lambda>bs.
       if length bs < 32 then Err (Bail ''short storage for proxy impl slot'' [])
       else address_at_word bs 0)))"

text \<open>A sender for read-only calls: a proxy does not forward the calls of its admin.\<close>

definition safe_from_for_proxy :: "hexlib \<Rightarrow> 'w get_storage \<Rightarrow> address \<Rightarrow> ('w, string) M" where
  "safe_from_for_proxy H eth_getStorageAt proxy =
     matchM (proxy_admin_address H eth_getStorageAt proxy)
       (\<lambda>admin. okM (fmt_address H (if 1 = admin then 2 else 1)))
       (\<lambda>_. okM (fmt_address H (if 1 = (0 :: address) then 2 else 1)))"

text \<open>\<open>eth_getStorageAt\<close> through the client.\<close>

definition get_storage ::
    "(string list, 'w) http_post \<Rightarrow> (string \<Rightarrow> string RpcResp result) \<Rightarrow> string \<Rightarrow> 'w get_storage" where
  "get_storage post from_str url = call post from_str url ''eth_getStorageAt''"

end
