(* ===== verification/Mux_Correct.thy ===== *)
theory Mux_Correct
  imports Multiplexer
begin

text \<open>
  What the multiplexer delivers.  The contract of the batch source is the locale \<open>batch_source\<close>:
  a list of batches read front to back and delayed messages read by index.  Against it, popping
  until nothing comes yields, batch by batch, the messages \<open>batch_messages\<close> describes by one
  pass over the segments, and ends with every batch consumed.
\<close>

section \<open>The messages of a batch\<close>

text \<open>Segments that are not messages: the empty ones and the advances of time and block number.\<close>

definition skipped :: "bytes \<Rightarrow> bool" where
  "skipped seg \<longleftrightarrow> seg = [] \<or> hd seg = BATCH_SEGMENT_KIND_ADVANCE_TIMESTAMP \<or>
     hd seg = BATCH_SEGMENT_KIND_ADVANCE_L1_BLOCK_NUMBER"

definition advanced :: "rlp \<Rightarrow> bytes \<Rightarrow> u64 \<times> u64 \<Rightarrow> u64 \<times> u64" where
  "advanced R seg = (\<lambda>(ts, bn).
     if seg = [] then (ts, bn)
     else case dec (rlp_u64 R) (tl seg) of
            Ok (v, _) \<Rightarrow>
              (if hd seg = BATCH_SEGMENT_KIND_ADVANCE_TIMESTAMP then (sat_add ts v, bn)
               else (ts, sat_add bn v))
          | _ \<Rightarrow> (ts, bn))"

text \<open>
  One message: an L2 segment is its payload under the clamped time and block number, a delayed
  segment is the next delayed message, or an invalid message when the batch grants no more.
\<close>

definition segment_message ::
    "rlp \<Rightarrow> brotli \<Rightarrow> (u64 \<Rightarrow> L1IncomingMessage result) \<Rightarrow> SequencerMessage \<Rightarrow> b256 option \<Rightarrow>
     bytes \<Rightarrow> u64 \<times> u64 \<Rightarrow> u64 \<Rightarrow> (MessageWithMetadataAndBlockInfo \<times> u64) result" where
  "segment_message R brotli delayed seq h seg = (\<lambda>(ts, bn) d.
     if hd seg = BATCH_SEGMENT_KIND_DELAYED_MESSAGES then
       (if after_delayed_messages seq \<le> d then Ok (invalid_message seq h, d)
        else bindR (delayed d) (\<lambda>x. Ok (delayed_message x (d + 1), d + 1)))
     else
       bindR (if hd seg = BATCH_SEGMENT_KIND_L2_MESSAGE_BROTLI then brotli (tl seg) else Ok (tl seg)) (\<lambda>payload.
       bindR (l2_message seq h d ts bn payload) (\<lambda>m. Ok (m, d))))"

fun walk_segments ::
    "rlp \<Rightarrow> brotli \<Rightarrow> (u64 \<Rightarrow> L1IncomingMessage result) \<Rightarrow> SequencerMessage \<Rightarrow> b256 option \<Rightarrow>
     bytes list \<Rightarrow> u64 \<times> u64 \<Rightarrow> u64 \<Rightarrow> (MessageWithMetadataAndBlockInfo list \<times> u64) result" where
  "walk_segments R brotli delayed seq h [] tb d = Ok ([], d)"
| "walk_segments R brotli delayed seq h (seg # rest) tb d =
     (if skipped seg then walk_segments R brotli delayed seq h rest (advanced R seg tb) d
      else
        bindR (segment_message R brotli delayed seq h seg tb d) (\<lambda>(m, d).
        bindR (walk_segments R brotli delayed seq h rest tb d) (\<lambda>(ms, d).
        Ok (m # ms, d))))"

text \<open>The delayed messages a batch grants beyond its segments, \<open>k\<close> of them from \<open>d\<close> on.\<close>

fun walk_delayed ::
    "(u64 \<Rightarrow> L1IncomingMessage result) \<Rightarrow> u64 \<Rightarrow> nat \<Rightarrow> MessageWithMetadataAndBlockInfo list result" where
  "walk_delayed delayed d 0 = Ok []"
| "walk_delayed delayed d (Suc k) =
     bindR (delayed d) (\<lambda>x.
     bindR (walk_delayed delayed (d + 1) k) (\<lambda>ms.
     Ok (delayed_message x (d + 1) # ms)))"

definition batch_messages ::
    "rlp \<Rightarrow> brotli \<Rightarrow> (u64 \<Rightarrow> L1IncomingMessage result) \<Rightarrow> SequencerMessage \<Rightarrow> b256 option \<Rightarrow> u64 \<Rightarrow>
     MessageWithMetadataAndBlockInfo list result" where
  "batch_messages R brotli delayed seq h d =
     (if after_delayed_messages seq \<le> d \<and> filter message_segment (segments seq) = []
      then Ok [invalid_message seq h]
      else
        bindR (walk_segments R brotli delayed seq h (segments seq) (0, 0) d) (\<lambda>(ms, d').
        bindR (walk_delayed delayed d' (unat (after_delayed_messages seq) - unat d')) (\<lambda>tail.
        Ok (ms @ tail))))"

text \<open>A segment of a kind the protocol has.\<close>

definition known_segment :: "bytes \<Rightarrow> bool" where
  "known_segment seg \<longleftrightarrow> skipped seg \<or> message_segment seg"

fun parse_batches ::
    "rlp \<Rightarrow> brotli \<Rightarrow> (bytes \<times> b256 option) list \<Rightarrow> (SequencerMessage \<times> b256 option) list result" where
  "parse_batches R brotli [] = Ok []"
| "parse_batches R brotli ((bytes, h) # bs) =
     bindR (parse_sequencer_message R brotli 0 h bytes) (\<lambda>seq.
     bindR (parse_batches R brotli bs) (\<lambda>ps. Ok ((seq, h) # ps)))"

lemma parse_sequencer_message_args:
  "parse_sequencer_message R brotli n h bytes = parse_sequencer_message R brotli n' h' bytes"
  by (simp add: parse_sequencer_message_def)

text \<open>All batches in turn; each starts where the one before it says it ended.\<close>

fun stream_messages ::
    "rlp \<Rightarrow> brotli \<Rightarrow> (u64 \<Rightarrow> L1IncomingMessage result) \<Rightarrow> (SequencerMessage \<times> b256 option) list \<Rightarrow> u64 \<Rightarrow>
     MessageWithMetadataAndBlockInfo list result" where
  "stream_messages R brotli delayed [] d = Ok []"
| "stream_messages R brotli delayed ((seq, h) # batches) d =
     bindR (batch_messages R brotli delayed seq h d) (\<lambda>ms.
     bindR (stream_messages R brotli delayed batches (after_delayed_messages seq)) (\<lambda>rest.
     Ok (ms @ rest)))"

section \<open>Parsing\<close>

context alloy_rlp begin

lemma decode_segments_step:
  "decode_segments R (enc (rlp_bytes R) seg @ rest) segs =
     (if length segs + 1 > 100 * 1024 then Ok (segs @ [seg]) else decode_segments R rest (segs @ [seg]))"
  by (subst decode_segments.simps) (simp add: bytes.enc_nonempty)

lemma decode_segments_encoded:
  "length acc + length segs \<le> 100 * 1024 \<Longrightarrow>
   decode_segments R (concat (map (enc (rlp_bytes R)) segs)) acc = Ok (acc @ segs)"
proof (induction segs arbitrary: acc)
  case Nil
  then show ?case by (subst decode_segments.simps) simp
next
  case (Cons seg segs)
  from Cons.IH [of "acc @ [seg]"] Cons.prems show ?case by (simp add: decode_segments_step)
qed

lemma decode_segments_Ok:
  "length segs \<le> 100 * 1024 \<Longrightarrow> \<exists>out. decode_segments R cur segs = Ok out \<and> length out \<le> 100 * 1024 + 1"
proof (induction "100 * 1024 + 1 - length segs" arbitrary: cur segs)
  case 0
  then show ?case by simp
next
  case (Suc k)
  show ?case
  proof (cases "cur = []")
    case True
    with Suc.prems show ?thesis by (subst decode_segments.simps) simp
  next
    case False
    from bytes.dec_returns [of cur] consider (none) e where "dec (rlp_bytes R) cur = Err e"
      | (some) seg rest where "dec (rlp_bytes R) cur = Ok (seg, rest)"
      by (auto simp: returns_cases)
    then show ?thesis
    proof cases
      case none
      with False Suc.prems show ?thesis by (subst decode_segments.simps) simp
    next
      case some
      have "length segs + 1 \<le> 100 * 1024 \<Longrightarrow>
          \<exists>out. decode_segments R rest (segs @ [seg]) = Ok out \<and> length out \<le> 100 * 1024 + 1"
        using Suc.hyps by simp
      with some False Suc.prems show ?thesis
        by (subst decode_segments.simps) (auto simp: not_less Let_def)
    qed
  qed
qed

lemma parse_sequencer_message_segments:
  "parse_sequencer_message R brotli n h data = Ok seq \<Longrightarrow> length (segments seq) \<le> 100 * 1024 + 1"
proof -
  assume "parse_sequencer_message R brotli n h data = Ok seq"
  then consider "segments seq = []" | cur where "decode_segments R cur [] = Ok (segments seq)"
    by (auto simp: parse_sequencer_message_def Let_def bindR_Ok_iff split: if_splits)
  then show ?thesis
  proof cases
    case (2 cur)
    with decode_segments_Ok [of "[]" cur] show ?thesis by simp
  qed simp
qed

end

section \<open>The contract of the batch source\<close>

locale batch_source = alloy_rlp R
  for R :: rlp +
  fixes B :: "'b inbox_backend"
    and batches_of :: "'b \<Rightarrow> (bytes \<times> b256 option) list"
    and delayed :: "u64 \<Rightarrow> L1IncomingMessage result"
  assumes peek_some: "batches_of b = x # xs \<Longrightarrow> peek_sequencer_inbox B b = (Ok x, b)"
    and peek_none: "batches_of b = [] \<Longrightarrow> \<exists>e. peek_sequencer_inbox B b = (Err e, b)"
    and advance_batches: "batches_of (advance_sequencer_inbox B b) = tl (batches_of b)"
    and advance_position:
      "get_position_within_message B (advance_sequencer_inbox B b) = get_position_within_message B b"
    and set_batches: "batches_of (set_position_within_message B p b) = batches_of b"
    and set_position: "get_position_within_message B (set_position_within_message B p b) = p"
    and read_delayed: "read_delayed_inbox B b n = delayed n"
begin

lemmas source_simps = peek_some advance_batches advance_position set_batches set_position read_delayed

end

section \<open>Moving to the next message segment\<close>

text \<open>
  \<open>next_sub\<close>: the running time and block number at the next segment that is not skipped, and the
  segments from there on.
\<close>

fun next_sub :: "rlp \<Rightarrow> bytes list \<Rightarrow> u64 \<times> u64 \<Rightarrow> (u64 \<times> u64) \<times> bytes list" where
  "next_sub R [] tb = (tb, [])"
| "next_sub R (seg # rest) tb =
     (if skipped seg then next_sub R rest (advanced R seg tb) else (tb, seg # rest))"

lemma next_sub_suffix: "next_sub R r tb = (tb', r') \<Longrightarrow> suffix r' r"
  by (induction R r tb rule: next_sub.induct) (auto split: if_splits intro: suffix_ConsI)

lemma next_sub_hd: "next_sub R r tb = (tb', seg # r') \<Longrightarrow> \<not> skipped seg"
  by (induction R r tb rule: next_sub.induct) (auto split: if_splits)

lemma not_message_skipped: "skipped seg \<Longrightarrow> \<not> message_segment seg"
  by (auto simp: skipped_def message_segment_def segment_kinds)

lemma next_sub_messages:
  "next_sub R r tb = (tb', r') \<Longrightarrow> filter message_segment r' = filter message_segment r"
  by (induction R r tb rule: next_sub.induct) (auto split: if_splits dest: not_message_skipped)

lemma walk_next_sub:
  "next_sub R r tb = (tb', r') \<Longrightarrow>
   walk_segments R brotli delayed seq h r tb d = walk_segments R brotli delayed seq h r' tb' d"
  by (induction R r tb rule: next_sub.induct) (auto split: if_splits)

lemma batch_messages_nonempty: "batch_messages R brotli delayed seq h d = Ok ms \<Longrightarrow> ms \<noteq> []"
proof
  assume ok: "batch_messages R brotli delayed seq h d = Ok ms" and "ms = []"
  then obtain d' where walk: "walk_segments R brotli delayed seq h (segments seq) (0, 0) d = Ok ([], d')"
    and tail: "walk_delayed delayed d' (unat (after_delayed_messages seq) - unat d') = Ok []"
    and more: "\<not> (after_delayed_messages seq \<le> d \<and> filter message_segment (segments seq) = [])"
    by (auto simp: batch_messages_def bindR_Ok_iff split: if_splits)
  have "filter message_segment r = [] \<and> d' = d"
    if "walk_segments R brotli delayed seq h r tb d = Ok ([], d')" for r tb
    using that by (induction r arbitrary: tb) (auto simp: bindR_Ok_iff not_message_skipped split: if_splits)
  with walk more have "\<not> after_delayed_messages seq \<le> d" "d' = d" by auto
  then have "unat (after_delayed_messages seq) - unat d' \<noteq> 0" by (simp add: word_le_nat_alt)
  with tail show False by (cases "unat (after_delayed_messages seq) - unat d'") (auto simp: bindR_Ok_iff)
qed

context alloy_rlp begin

lemma scan_skipped:
  "skipped seg \<Longrightarrow> scan_segments R p (seg # r) n ts bn p =
     (case advanced R seg (ts, bn) of (ts, bn) \<Rightarrow> scan_segments R p r (n + 1) ts bn p)"
  using u64.dec_returns [of "tl seg"]
  by (auto simp: skipped_def advanced_def returns_cases segment_kinds)

lemma scan_not_skipped:
  "\<not> skipped seg \<Longrightarrow> scan_segments R p (seg # r) n ts bn q =
     (if q < p then scan_segments R p r (n + 1) ts bn (q + 1) else Ok (n, ts, bn, q))"
  by (simp add: skipped_def Let_def)

lemma scan_next_sub:
  "next_sub R r (ts, bn) = ((ts', bn'), r') \<Longrightarrow>
   scan_segments R p r n ts bn p = Ok (n + of_nat (length r - length r'), ts', bn', p)"
proof (induction r arbitrary: n ts bn)
  case Nil
  then show ?case by simp
next
  case (Cons seg r)
  show ?case
  proof (cases "skipped seg")
    case True
    obtain ts1 bn1 where a: "advanced R seg (ts, bn) = (ts1, bn1)" by fastforce
    with True Cons.prems have r: "next_sub R r (ts1, bn1) = ((ts', bn'), r')" by simp
    then have "length r' \<le> length r" by (simp add: next_sub_suffix suffix_length_le)
    with Cons.IH [OF r, of "n + 1"] True a show ?thesis
      by (simp add: scan_skipped Suc_diff_le algebra_simps del: scan_segments.simps)
  next
    case False
    with Cons.prems show ?thesis by (auto simp: scan_not_skipped simp del: scan_segments.simps)
  qed
qed

end

section \<open>One pop\<close>

lemma suffix_drop: "suffix r xs \<Longrightarrow> drop (length xs - length r) xs = r"
  by (auto simp: suffix_def)

context batch_source begin

text \<open>
  \<open>ready mx seq h bs r tb d\<close>: inside the batch \<open>seq\<close>, the first of \<open>bs\<close>, with the segments \<open>r\<close>
  still to come at time and block number \<open>tb\<close> and \<open>d\<close> delayed messages read; \<open>at_batch mx bs d\<close>:
  between batches.
\<close>

definition ready ::
    "'b InboxMultiplexer \<Rightarrow> SequencerMessage \<Rightarrow> b256 option \<Rightarrow> (bytes \<times> b256 option) list \<Rightarrow>
     bytes list \<Rightarrow> u64 \<times> u64 \<Rightarrow> u64 \<Rightarrow> bool" where
  "ready mx seq h bs r tb d \<longleftrightarrow>
     cached_msg mx = Some seq \<and> cached_batch_hash mx = h \<and> batches_of (backend mx) = bs \<and>
     mux_delayed_messages_read mx = d \<and> length (segments seq) < 2 ^ 64 \<and> suffix r (segments seq) \<and>
     (\<exists>q. (r \<noteq> [] \<longrightarrow> q = get_position_within_message B (backend mx) \<and>
              unat q + length r \<le> length (segments seq)) \<and>
        scan_segments R (get_position_within_message B (backend mx))
          (drop (unat (cached_segment_num mx)) (segments seq)) (cached_segment_num mx)
          (cached_segment_timestamp mx) (cached_segment_block_number mx) (cached_submessage_number mx) =
        scan_segments R (get_position_within_message B (backend mx)) r
          (of_nat (length (segments seq) - length r)) (fst tb) (snd tb) q)"

definition at_batch :: "'b InboxMultiplexer \<Rightarrow> (bytes \<times> b256 option) list \<Rightarrow> u64 \<Rightarrow> bool" where
  "at_batch mx bs d \<longleftrightarrow>
     cached_msg mx = None \<and> batches_of (backend mx) = bs \<and> mux_delayed_messages_read mx = d \<and>
     cached_segment_num mx = 0 \<and> cached_segment_timestamp mx = 0 \<and>
     cached_segment_block_number mx = 0 \<and> cached_submessage_number mx = 0 \<and>
     get_position_within_message B (backend mx) = 0"

text \<open>What the scan finds.\<close>

lemma ready_scan:
  assumes "ready mx seq h bs r tb d" and n: "next_sub R r tb = ((ts', bn'), r')"
  obtains q where
    "scan_segments R (get_position_within_message B (backend mx))
       (drop (unat (cached_segment_num mx)) (segments seq)) (cached_segment_num mx)
       (cached_segment_timestamp mx) (cached_segment_block_number mx) (cached_submessage_number mx) =
     Ok (of_nat (length (segments seq) - length r'), ts', bn', q)"
    and "suffix r' (segments seq)"
    and "r' \<noteq> [] \<Longrightarrow> q = get_position_within_message B (backend mx) \<and> unat q + length r' \<le> length (segments seq)"
proof -
  let ?p = "get_position_within_message B (backend mx)" let ?segs = "segments seq"
  obtain q where q: "r \<noteq> [] \<Longrightarrow> q = ?p \<and> unat q + length r \<le> length ?segs"
    and scan: "scan_segments R ?p (drop (unat (cached_segment_num mx)) ?segs) (cached_segment_num mx)
       (cached_segment_timestamp mx) (cached_segment_block_number mx) (cached_submessage_number mx) =
     scan_segments R ?p r (of_nat (length ?segs - length r)) (fst tb) (snd tb) q"
    and suf: "suffix r ?segs"
    using assms(1) unfolding ready_def by blast
  have suf': "suffix r' r" by (rule next_sub_suffix [OF n])
  have len: "length r' \<le> length r" "length r \<le> length ?segs"
    using suf suf' by (simp_all add: suffix_length_le)
  show thesis
  proof (cases "r = []")
    case True
    with n scan suf that [of q] show thesis by auto
  next
    case False
    from n have "next_sub R r (fst tb, snd tb) = ((ts', bn'), r')" by simp
    from scan_next_sub [OF this] False q len
    have "scan_segments R ?p r (of_nat (length ?segs - length r)) (fst tb) (snd tb) q =
        Ok (of_nat (length ?segs - length r'), ts', bn', q)"
      by (simp flip: of_nat_add)
    with scan q False len suf suf' that [of q] show thesis
      by (auto intro: suffix_order.trans)
  qed
qed

lemma pop_cached_eq:
  assumes "get_next_msg B R brotli mx = (Ok (m, None), mx1)"
  shows "pop_cached B R brotli mx =
    (Ok m, if is_cached_segment_last mx1 then advance_seq_msg B mx1 else advance_submsg B mx1)"
  using assms by (simp add: pop_cached_def monad_simps)

lemma advance_at_batch:
  "cached_msg mx = Some seq \<Longrightarrow> batches_of (backend mx) = bs \<Longrightarrow>
   at_batch (advance_seq_msg B mx) (tl bs) (after_delayed_messages seq)"
  by (simp add: at_batch_def advance_seq_msg_def source_simps)

text \<open>A message segment is delivered, and the batch ends or stands after it.\<close>

lemma pop_segment:
  assumes ready: "ready mx seq h bs r tb d"
    and n: "next_sub R r tb = (tb', seg # r')" and kind: "message_segment seg"
    and m: "segment_message R brotli delayed seq h seg tb' d = Ok (m, d')"
  obtains mx' where "pop_cached B R brotli mx = (Ok (Some m), mx')"
    and "if after_delayed_messages seq \<le> d' \<and> filter message_segment r' = []
         then at_batch mx' (tl bs) (after_delayed_messages seq)
         else ready mx' seq h bs r' tb' d'"
proof -
  let ?segs = "segments seq" let ?p = "get_position_within_message B (backend mx)"
  define i where "i = length ?segs - length (seg # r')"
  obtain ts' bn' where tb': "tb' = (ts', bn')" by (cases tb')
  obtain q where scan: "scan_segments R ?p
       (drop (unat (cached_segment_num mx)) ?segs) (cached_segment_num mx)
       (cached_segment_timestamp mx) (cached_segment_block_number mx) (cached_submessage_number mx) =
     Ok (of_nat i, ts', bn', q)"
    and suf: "suffix (seg # r') ?segs" and q: "q = ?p" "unat ?p + length (seg # r') \<le> length ?segs"
    using ready_scan [OF ready n [unfolded tb']] unfolding i_def by (metis list.discI)
  have st: "cached_msg mx = Some seq" "cached_batch_hash mx = h" "batches_of (backend mx) = bs"
      "mux_delayed_messages_read mx = d" "length ?segs < 2 ^ 64"
    using ready by (simp_all add: ready_def)
  have len: "length (seg # r') \<le> length ?segs" using suf by (rule suffix_length_le)
  have ui: "unat (of_nat i :: u64) = i" using st(5) by (intro unat_of_nat64) (simp add: i_def)
  have drop_i: "drop i ?segs = seg # r'" using suf unfolding i_def by (rule suffix_drop)
  then have nth_i: "?segs ! i = seg" and drop_Suc: "drop (Suc i) ?segs = r'"
    by (metis nth_via_drop, metis drop_Suc tl_drop list.sel(3))
  have lt_i: "i < length ?segs" using len by (simp add: i_def)
  define mx1 where "mx1 = mx\<lparr>cached_segment_num := of_nat i, cached_segment_timestamp := ts',
      cached_segment_block_number := bn', cached_submessage_number := q,
      mux_delayed_messages_read := d'\<rparr>"
  have seg: "seg \<noteq> []" using kind by (simp add: message_segment_def)
  have get: "get_next_msg B R brotli mx = (Ok (Some m, None), mx1)"
  proof (cases "hd seg = BATCH_SEGMENT_KIND_DELAYED_MESSAGES")
    case True
    show ?thesis
    proof (cases "after_delayed_messages seq \<le> d")
      case True': True
      with True m have "m = invalid_message seq h" "d' = d"
        by (simp_all add: segment_message_def tb')
      with True True' seg st scan show ?thesis
        by (simp add: get_next_msg_def Let_def ui lt_i nth_i mx1_def segment_kinds)
    next
      case False
      with True m obtain x where "delayed d = Ok x" "m = delayed_message x (d + 1)" "d' = d + 1"
        by (auto simp: segment_message_def tb' bindR_Ok_iff)
      with True False seg st scan show ?thesis
        by (simp add: get_next_msg_def Let_def ui lt_i nth_i mx1_def segment_kinds read_delayed)
    qed
  next
    case False
    with m obtain payload where
        "(if hd seg = BATCH_SEGMENT_KIND_L2_MESSAGE_BROTLI then brotli (tl seg) else Ok (tl seg)) = Ok payload"
        "l2_message seq h d ts' bn' payload = Ok m" "d' = d"
      by (auto simp: segment_message_def tb' bindR_Ok_iff)
    moreover have "hd seg = BATCH_SEGMENT_KIND_L2_MESSAGE \<or> hd seg = BATCH_SEGMENT_KIND_L2_MESSAGE_BROTLI"
      using kind False by (auto simp: message_segment_def)
    ultimately show ?thesis using seg st scan
      by (simp add: get_next_msg_def Let_def ui lt_i nth_i mx1_def)
  qed
  have last: "is_cached_segment_last mx1 \<longleftrightarrow>
      after_delayed_messages seq \<le> d' \<and> filter message_segment r' = []"
    using st ui drop_Suc by (auto simp: is_cached_segment_last_def mx1_def filter_empty_conv)
  have "at_batch (advance_seq_msg B mx1) (tl bs) (after_delayed_messages seq)"
    using st by (intro advance_at_batch) (simp_all add: mx1_def)
  moreover have "ready (advance_submsg B mx1) seq h bs r' tb' d'"
  proof -
    have "?p < ?p + 1" and p1: "unat (?p + 1) = Suc (unat ?p)"
      using q(2) st(5) by (simp_all add: word_less_nat_alt unat_Suc64)
    moreover have "\<not> skipped seg" using n by (rule next_sub_hd)
    ultimately have scan1: "scan_segments R (?p + 1) (seg # r') (of_nat i) ts' bn' q =
        scan_segments R (?p + 1) r' (of_nat (length ?segs - length r')) ts' bn' (?p + 1)"
      using q(1) len by (simp add: scan_not_skipped i_def del: scan_segments.simps)
    have "suffix r' ?segs" using suf by (rule suffix_ConsD)
    then show ?thesis
      using st q p1 ui drop_i scan1
      by (auto simp: ready_def advance_submsg_def mx1_def source_simps tb' Let_def
          simp del: scan_segments.simps intro!: exI [of _ "?p + 1"])
  qed
  ultimately show thesis
    using that [OF pop_cached_eq [OF get]] unfolding last by presburger
qed

text \<open>Behind the last segment: a delayed message the batch grants, or one invalid message.\<close>

lemma pop_behind:
  assumes ready: "ready mx seq h bs r tb d" and n: "next_sub R r tb = (tb', [])"
    and m: "segment_message R brotli delayed seq h [BATCH_SEGMENT_KIND_DELAYED_MESSAGES] tb' d = Ok (m, d')"
  obtains mx' where "pop_cached B R brotli mx = (Ok (Some m), mx')"
    and "if after_delayed_messages seq \<le> d'
         then at_batch mx' (tl bs) (after_delayed_messages seq)
         else ready mx' seq h bs [] tb' d'"
proof -
  let ?segs = "segments seq" let ?p = "get_position_within_message B (backend mx)"
  obtain ts' bn' where tb': "tb' = (ts', bn')" by (cases tb')
  obtain q where scan: "scan_segments R ?p
       (drop (unat (cached_segment_num mx)) ?segs) (cached_segment_num mx)
       (cached_segment_timestamp mx) (cached_segment_block_number mx) (cached_submessage_number mx) =
     Ok (of_nat (length ?segs), ts', bn', q)"
    using ready_scan [OF ready n [unfolded tb']] by (metis diff_zero list.size(3))
  have st: "cached_msg mx = Some seq" "cached_batch_hash mx = h" "batches_of (backend mx) = bs"
      "mux_delayed_messages_read mx = d" "length ?segs < 2 ^ 64"
    using ready by (simp_all add: ready_def)
  have ui: "unat (of_nat (length ?segs) :: u64) = length ?segs" using st(5) by (rule unat_of_nat64)
  define mx1 where "mx1 = mx\<lparr>cached_segment_num := of_nat (length ?segs), cached_segment_timestamp := ts',
      cached_segment_block_number := bn', cached_submessage_number := q,
      mux_delayed_messages_read := d'\<rparr>"
  have get: "get_next_msg B R brotli mx = (Ok (Some m, None), mx1)"
  proof (cases "after_delayed_messages seq \<le> d")
    case True
    with m have "m = invalid_message seq h" "d' = d"
      by (simp_all add: segment_message_def tb')
    with True st scan show ?thesis
      by (simp add: get_next_msg_def Let_def ui mx1_def segment_kinds)
  next
    case False
    with m obtain x where "delayed d = Ok x" "m = delayed_message x (d + 1)" "d' = d + 1"
      by (auto simp: segment_message_def tb' bindR_Ok_iff)
    with False st scan show ?thesis
      by (simp add: get_next_msg_def Let_def ui mx1_def segment_kinds read_delayed)
  qed
  have last: "is_cached_segment_last mx1 \<longleftrightarrow> after_delayed_messages seq \<le> d'"
    using st ui by (auto simp: is_cached_segment_last_def mx1_def)
  have "at_batch (advance_seq_msg B mx1) (tl bs) (after_delayed_messages seq)"
    using st by (intro advance_at_batch) (simp_all add: mx1_def)
  moreover have "ready (advance_submsg B mx1) seq h bs [] tb' d'"
    using st ui by (auto simp: ready_def advance_submsg_def mx1_def source_simps tb' Let_def)
  ultimately show thesis
    using that [OF pop_cached_eq [OF get]] unfolding last by presburger
qed

text \<open>Between batches a pop opens the next one.\<close>

lemma pop_opens:
  assumes at: "at_batch mx ((bytes, h) # bs) d"
    and parse: "\<And>n. parse_sequencer_message R brotli n h bytes = Ok seq"
  obtains mx' where "pop B R brotli mx = pop_cached B R brotli mx'"
    and "ready mx' seq h ((bytes, h) # bs) (segments seq) (0, 0) d"
proof -
  let ?mx = "mx\<lparr>backend := backend mx, cached_batch_hash := h, cached_msg := Some seq\<rparr>"
  have "length (segments seq) \<le> 100 * 1024 + 1"
    using parse by (rule parse_sequencer_message_segments)
  moreover have "peek_sequencer_inbox B (backend mx) = (Ok (bytes, h), backend mx)"
    using at by (intro peek_some) (simp add: at_batch_def)
  ultimately have "pop B R brotli mx = pop_cached B R brotli ?mx"
      "ready ?mx seq h ((bytes, h) # bs) (segments seq) (0, 0) d"
    using at parse by (auto simp: pop_def at_batch_def ready_def Let_def)
  then show thesis by (rule that)
qed

lemma pop_inside: "ready mx seq h bs r tb d \<Longrightarrow> pop B R brotli mx = pop_cached B R brotli mx"
  by (simp add: pop_def ready_def)

lemma pop_at_end:
  assumes "at_batch mx [] d"
  shows "pop B R brotli mx = (Ok None, mx)"
  using assms peek_none [of "backend mx"] by (auto simp: pop_def at_batch_def)

section \<open>Draining\<close>

definition yields ::
    "brotli \<Rightarrow> 'b InboxMultiplexer \<Rightarrow> MessageWithMetadataAndBlockInfo list \<Rightarrow> 'b InboxMultiplexer \<Rightarrow> bool" where
  "yields brotli mx ms mx' \<longleftrightarrow>
     (\<forall>fuel out. pop_all B R brotli (length ms + fuel) out mx = pop_all B R brotli fuel (out @ ms) mx')"

lemma yields_Nil [simp]: "yields brotli mx [] mx"
  by (simp add: yields_def)

lemma yields_Cons:
  "pop B R brotli mx = (Ok (Some m), mx1) \<Longrightarrow> yields brotli mx1 ms mx' \<Longrightarrow> yields brotli mx (m # ms) mx'"
  by (simp add: yields_def monad_simps)

lemma yields_append:
  "yields brotli mx ms mx1 \<Longrightarrow> yields brotli mx1 ms' mx' \<Longrightarrow> yields brotli mx (ms @ ms') mx'"
  by (simp add: yields_def add.assoc)

lemma yields_cong:
  assumes "pop B R brotli mx = pop B R brotli mx1" and "ms \<noteq> []" and "yields brotli mx1 ms mx'"
  shows "yields brotli mx ms mx'"
proof -
  obtain n where "length ms = Suc n" using assms(2) by (cases ms) auto
  with assms show ?thesis by (simp add: yields_def monad_simps)
qed

lemma drain_delayed:
  "ready mx seq h bs r tb d \<Longrightarrow> next_sub R r tb = (tb', []) \<Longrightarrow> d < after_delayed_messages seq \<Longrightarrow>
   walk_delayed delayed d (unat (after_delayed_messages seq) - unat d) = Ok ms \<Longrightarrow>
   \<exists>mx'. yields brotli mx ms mx' \<and> at_batch mx' (tl bs) (after_delayed_messages seq)"
proof (induction "unat (after_delayed_messages seq) - unat d" arbitrary: mx r tb d ms)
  case 0
  then show ?case by (simp add: word_less_nat_alt)
next
  case (Suc k)
  have lt: "unat d + 1 < 2 ^ 64"
    using Suc.prems(3) unat_lt64 [of "after_delayed_messages seq"]
    by (simp add: word_less_nat_alt del: unat_lt64)
  have d1: "unat (d + 1) = Suc (unat d)" by (rule unat_Suc64 [OF lt])
  obtain x ms' where x: "delayed d = Ok x" "walk_delayed delayed (d + 1) k = Ok ms'"
      "ms = delayed_message x (d + 1) # ms'"
    using Suc.prems(4) Suc.hyps(2) [symmetric] by (auto simp: bindR_Ok_iff)
  have "segment_message R brotli delayed seq h [BATCH_SEGMENT_KIND_DELAYED_MESSAGES] tb' d =
      Ok (delayed_message x (d + 1), d + 1)"
    using Suc.prems(3) x by (cases tb') (simp add: segment_message_def not_le)
  then obtain mx1 where pop: "pop_cached B R brotli mx = (Ok (Some (delayed_message x (d + 1))), mx1)"
    and mx1: "if after_delayed_messages seq \<le> d + 1
         then at_batch mx1 (tl bs) (after_delayed_messages seq) else ready mx1 seq h bs [] tb' (d + 1)"
    by (rule pop_behind [OF Suc.prems(1,2)])
  have step: "pop B R brotli mx = (Ok (Some (delayed_message x (d + 1))), mx1)"
    using pop by (simp add: pop_inside [OF Suc.prems(1)])
  have k: "k = unat (after_delayed_messages seq) - unat (d + 1)" using Suc.hyps(2) d1 by simp
  show ?case
  proof (cases "after_delayed_messages seq \<le> d + 1")
    case True
    then have "k = 0" using k by (simp add: word_le_nat_alt)
    with x True mx1 yields_Cons [OF step yields_Nil] show ?thesis by auto
  next
    case False
    then have "d + 1 < after_delayed_messages seq" by simp
    with False Suc.hyps(1) [OF k, of mx1 "[]" tb' ms'] mx1 x k
    obtain mx' where "yields brotli mx1 ms' mx'" "at_batch mx' (tl bs) (after_delayed_messages seq)"
      by auto
    with x yields_Cons [OF step] show ?thesis by blast
  qed
qed

lemma walk_no_messages:
  "list_all known_segment r \<Longrightarrow> filter message_segment r = [] \<Longrightarrow>
   walk_segments R brotli delayed seq h r tb d = Ok ([], d)"
  by (induction r arbitrary: tb) (auto simp: known_segment_def split: if_splits)

lemma drain_segments:
  "ready mx seq h bs r tb d \<Longrightarrow> list_all known_segment r \<Longrightarrow>
   \<not> (after_delayed_messages seq \<le> d \<and> filter message_segment r = []) \<Longrightarrow>
   walk_segments R brotli delayed seq h r tb d = Ok (ms, d') \<Longrightarrow>
   walk_delayed delayed d' (unat (after_delayed_messages seq) - unat d') = Ok tail \<Longrightarrow>
   \<exists>mx'. yields brotli mx (ms @ tail) mx' \<and> at_batch mx' (tl bs) (after_delayed_messages seq)"
proof (induction "length r" arbitrary: mx r tb d ms rule: less_induct)
  case less
  obtain tb' r' where n: "next_sub R r tb = (tb', r')" by fastforce
  have walk: "walk_segments R brotli delayed seq h r' tb' d = Ok (ms, d')"
    using less.prems(4) walk_next_sub [OF n] by simp
  have suf: "suffix r' r" using n by (rule next_sub_suffix)
  show ?case
  proof (cases r')
    case Nil
    then have "filter message_segment r = []" using next_sub_messages [OF n] by simp
    then have "d < after_delayed_messages seq" using less.prems(3) by auto
    moreover have "ms = []" "d' = d" using walk Nil by auto
    ultimately show ?thesis using drain_delayed [OF less.prems(1) n [unfolded Nil]] less.prems(5) by simp
  next
    case (Cons seg r'')
    have not_skipped: "\<not> skipped seg" using n unfolding Cons by (rule next_sub_hd)
    have known: "list_all known_segment r''" "known_segment seg"
      using less.prems(2) suf Cons by (auto simp: suffix_def)
    then have kind: "message_segment seg" using not_skipped by (simp add: known_segment_def)
    obtain m d1 ms' where m: "segment_message R brotli delayed seq h seg tb' d = Ok (m, d1)"
      and rest: "walk_segments R brotli delayed seq h r'' tb' d1 = Ok (ms', d')" and ms: "ms = m # ms'"
      using walk Cons not_skipped by (auto simp: bindR_Ok_iff)
    obtain mx1 where pop: "pop_cached B R brotli mx = (Ok (Some m), mx1)"
      and mx1: "if after_delayed_messages seq \<le> d1 \<and> filter message_segment r'' = []
         then at_batch mx1 (tl bs) (after_delayed_messages seq) else ready mx1 seq h bs r'' tb' d1"
      by (rule pop_segment [OF less.prems(1) n [unfolded Cons] kind m])
    have step: "pop B R brotli mx = (Ok (Some m), mx1)"
      using pop by (simp add: pop_inside [OF less.prems(1)])
    show ?thesis
    proof (cases "after_delayed_messages seq \<le> d1 \<and> filter message_segment r'' = []")
      case True
      with walk_no_messages [OF known(1)] rest have "ms' = []" "d' = d1" by auto
      moreover have "unat (after_delayed_messages seq) - unat d1 = 0"
        using True by (simp add: word_le_nat_alt)
      ultimately have "ms @ tail = [m]" using less.prems(5) ms by simp
      with True mx1 yields_Cons [OF step yields_Nil] show ?thesis by auto
    next
      case False
      have "length r'' < length r" using suf Cons by (auto simp: suffix_def)
      moreover have "ready mx1 seq h bs r'' tb' d1" using mx1 False by simp
      ultimately obtain mx' where "yields brotli mx1 (ms' @ tail) mx'"
          "at_batch mx' (tl bs) (after_delayed_messages seq)"
        using less.hyps [of r'' mx1 tb' d1 ms'] known False rest less.prems(5) by blast
      with ms yields_Cons [OF step, of "ms' @ tail"] show ?thesis by auto
    qed
  qed
qed

lemma drain_batch:
  assumes at: "at_batch mx ((bytes, h) # bs) d"
    and parse: "\<And>n. parse_sequencer_message R brotli n h bytes = Ok seq"
    and known: "list_all known_segment (segments seq)"
    and msgs: "batch_messages R brotli delayed seq h d = Ok ms"
  obtains mx' where "yields brotli mx ms mx'" and "at_batch mx' bs (after_delayed_messages seq)"
proof -
  obtain mx0 where pop: "pop B R brotli mx = pop_cached B R brotli mx0"
    and ready: "ready mx0 seq h ((bytes, h) # bs) (segments seq) (0, 0) d"
    by (rule pop_opens [OF at parse])
  have same: "pop B R brotli mx = pop B R brotli mx0" using pop pop_inside [OF ready] by simp
  have "\<exists>mx'. yields brotli mx0 ms mx' \<and> at_batch mx' bs (after_delayed_messages seq)"
  proof (cases "after_delayed_messages seq \<le> d \<and> filter message_segment (segments seq) = []")
    case True
    obtain tb' r' where n: "next_sub R (segments seq) (0, 0) = (tb', r')" by fastforce
    have "r' = []"
    proof (cases r')
      case (Cons seg r'')
      with n next_sub_hd have "\<not> skipped seg" by blast
      moreover have "seg \<in> set (segments seq)"
        using next_sub_suffix [OF n] Cons by (auto simp: suffix_def)
      ultimately have "message_segment seg"
        using known by (auto simp: known_segment_def list_all_iff)
      with True next_sub_messages [OF n] Cons show ?thesis by simp
    qed
    moreover have "segment_message R brotli delayed seq h [BATCH_SEGMENT_KIND_DELAYED_MESSAGES] tb' d =
        Ok (invalid_message seq h, d)"
      using True by (cases tb') (simp add: segment_message_def)
    ultimately obtain mx1 where "pop_cached B R brotli mx0 = (Ok (Some (invalid_message seq h)), mx1)"
        "at_batch mx1 bs (after_delayed_messages seq)"
      using pop_behind [OF ready] n True by (metis list.sel(3))
    moreover have "ms = [invalid_message seq h]" using msgs True by (simp add: batch_messages_def)
    ultimately show ?thesis using yields_Cons [OF _ yields_Nil] pop_inside [OF ready] by metis
  next
    case False
    with msgs obtain ms1 d' tail where
        "walk_segments R brotli delayed seq h (segments seq) (0, 0) d = Ok (ms1, d')"
        "walk_delayed delayed d' (unat (after_delayed_messages seq) - unat d') = Ok tail"
        "ms = ms1 @ tail"
      by (auto simp: batch_messages_def bindR_Ok_iff split: if_splits)
    with drain_segments [OF ready known False] show ?thesis by auto
  qed
  with yields_cong [OF same batch_messages_nonempty [OF msgs]] that show thesis by blast
qed

lemma drain_stream:
  "at_batch mx bs d \<Longrightarrow> parse_batches R brotli bs = Ok ps \<Longrightarrow>
   list_all (\<lambda>(seq, h). list_all known_segment (segments seq)) ps \<Longrightarrow>
   stream_messages R brotli delayed ps d = Ok ms \<Longrightarrow>
   \<exists>mx' d'. yields brotli mx ms mx' \<and> at_batch mx' [] d'"
proof (induction bs arbitrary: mx d ps ms)
  case Nil
  then show ?case by (intro exI [of _ mx]) auto
next
  case (Cons b bs)
  obtain bytes h where b: "b = (bytes, h)" by (cases b)
  obtain seq ps' where parse: "parse_sequencer_message R brotli 0 h bytes = Ok seq"
      "parse_batches R brotli bs = Ok ps'" and ps: "ps = (seq, h) # ps'"
    using Cons.prems(2) b by (auto simp: bindR_Ok_iff)
  then obtain ms1 ms2 where ms: "batch_messages R brotli delayed seq h d = Ok ms1"
      "stream_messages R brotli delayed ps' (after_delayed_messages seq) = Ok ms2" "ms = ms1 @ ms2"
    using Cons.prems(4) by (auto simp: bindR_Ok_iff)
  have "\<And>n. parse_sequencer_message R brotli n h bytes = Ok seq"
    using parse(1) parse_sequencer_message_args by metis
  moreover have "list_all known_segment (segments seq)" using Cons.prems(3) ps by simp
  ultimately obtain mx1 where mx1: "yields brotli mx ms1 mx1" "at_batch mx1 bs (after_delayed_messages seq)"
    using drain_batch [OF Cons.prems(1) [unfolded b] _ _ ms(1)] by blast
  obtain mx' d' where "yields brotli mx1 ms2 mx'" "at_batch mx' [] d'"
    using Cons.IH [OF mx1(2) parse(2) _ ms(2)] Cons.prems(3) ps by auto
  with mx1(1) ms(3) yields_append show ?case by blast
qed

text \<open>Popping until nothing comes delivers the messages of all batches.\<close>

lemma pop_all_stream:
  assumes "at_batch mx bs d" and "parse_batches R brotli bs = Ok ps"
    and "list_all (\<lambda>(seq, h). list_all known_segment (segments seq)) ps"
    and "stream_messages R brotli delayed ps d = Ok ms"
    and fuel: "length ms < fuel"
  shows "fst (pop_all B R brotli fuel [] mx) = Ok ms"
proof -
  obtain mx' d' where y: "yields brotli mx ms mx'" and at: "at_batch mx' [] d'"
    using drain_stream [OF assms(1-4)] by blast
  obtain k where k: "fuel = length ms + Suc k" using fuel less_iff_Suc_add [of "length ms" fuel] by auto
  have "pop_all B R brotli fuel [] mx = pop_all B R brotli (Suc k) ms mx'"
    using y unfolding yields_def k by (metis append_Nil)
  also have "\<dots> = (Ok ms, mx')" using pop_at_end [OF at] by (simp add: monad_simps)
  finally show ?thesis by simp
qed

end

end
