(* ===== verification/Streamer_Correct.thy ===== *)
theory Streamer_Correct
  imports Streamer
begin

text \<open>
  What the streamer's operations do to the log of messages they store: the abstraction of the
  database contents to a list, the refinement of the operations to list operations, and the
  order in which messages are executed.
\<close>

section \<open>The log\<close>

type_synonym log_entry = "MessageWithMetadata \<times> b256 option"

definition entry :: "MessageWithMetadataAndBlockInfo \<Rightarrow> log_entry" where
  "entry m = (message_with_meta m, block_hash m)"

text \<open>
  \<open>log_body R m log\<close>: the contents \<open>m\<close> hold, under the message and block-hash prefixes,
  exactly the entries of \<open>log\<close>, and nothing that belongs to a message beyond it;
  \<open>log_rep\<close> adds the counter.
\<close>

definition log_body :: "rlp \<Rightarrow> (bytes \<rightharpoonup> bytes) \<Rightarrow> log_entry list \<Rightarrow> bool" where
  "log_body R m log \<longleftrightarrow>
     length log < 2 ^ 64 \<and>
     (\<forall>i. m (db_key MESSAGE_PREFIX i) =
       (if unat i < length log then Some (enc (mwm_codec R) (fst (log ! unat i))) else None)) \<and>
     (\<forall>i. m (db_key BLOCK_HASH_INPUT_FEED_PREFIX i) =
       (if unat i < length log
        then Some (enc (bh_codec R) \<lparr>bh_block_hash = snd (log ! unat i)\<rparr>) else None)) \<and>
     (\<forall>i. length log \<le> unat i \<longrightarrow>
        m (db_key BLOCK_METADATA_INPUT_FEED_PREFIX i) = None \<and>
        m (db_key MISSING_BLOCK_METADATA_INPUT_FEED_PREFIX i) = None \<and>
        m (db_key MESSAGE_RESULT_PREFIX i) = None)"

definition log_rep :: "rlp \<Rightarrow> (bytes \<rightharpoonup> bytes) \<Rightarrow> log_entry list \<Rightarrow> bool" where
  "log_rep R m log \<longleftrightarrow>
     m MESSAGE_COUNT_KEY = Some (enc (rlp_u64 R) (of_nat (length log))) \<and> log_body R m log"

text \<open>The keys the streamer writes; everything else in the database is left alone.\<close>

definition stream_key :: "bytes \<Rightarrow> bool" where
  "stream_key k \<longleftrightarrow> k = MESSAGE_COUNT_KEY \<or>
     (\<exists>p \<in> {MESSAGE_PREFIX, BLOCK_HASH_INPUT_FEED_PREFIX, BLOCK_METADATA_INPUT_FEED_PREFIX,
             MISSING_BLOCK_METADATA_INPUT_FEED_PREFIX, MESSAGE_RESULT_PREFIX}. prefix p k)"

definition same_elsewhere :: "(bytes \<rightharpoonup> bytes) \<Rightarrow> (bytes \<rightharpoonup> bytes) \<Rightarrow> bool" where
  "same_elsewhere m m' \<longleftrightarrow> (\<forall>k. \<not> stream_key k \<longrightarrow> m' k = m k)"

lemma same_elsewhere_refl [simp]: "same_elsewhere m m"
  by (simp add: same_elsewhere_def)

lemma same_elsewhere_trans:
  "same_elsewhere m1 m2 \<Longrightarrow> same_elsewhere m2 m3 \<Longrightarrow> same_elsewhere m1 m3"
  by (simp add: same_elsewhere_def)

lemma stream_key_db_key [key_simps]:
  "p \<noteq> 0x5f \<Longrightarrow> stream_key (db_key [p] i) \<longleftrightarrow> p \<in> {0x6d, 0x62, 0x74, 0x78, 0x72}"
  by (auto simp: stream_key_def prefixes_eval count_keys_eval db_key_def)

lemma stream_key_counts [key_simps]:
  "stream_key MESSAGE_COUNT_KEY"
  "\<not> stream_key DELAYED_MESSAGE_COUNT_KEY" "\<not> stream_key SEQUENCER_BATCH_COUNT_KEY"
  by (auto simp: stream_key_def prefixes_eval count_keys_eval)

lemma in_range_stream_key:
  "in_range p n k \<Longrightarrow> p \<in> {MESSAGE_PREFIX, BLOCK_HASH_INPUT_FEED_PREFIX,
     BLOCK_METADATA_INPUT_FEED_PREFIX, MISSING_BLOCK_METADATA_INPUT_FEED_PREFIX,
     MESSAGE_RESULT_PREFIX} \<Longrightarrow> stream_key k"
  by (auto simp: in_range_def stream_key_def)

lemma same_elsewhere_wipe:
  "same_elsewhere m m' \<Longrightarrow> p \<in> {MESSAGE_PREFIX, BLOCK_HASH_INPUT_FEED_PREFIX,
     BLOCK_METADATA_INPUT_FEED_PREFIX, MISSING_BLOCK_METADATA_INPUT_FEED_PREFIX,
     MESSAGE_RESULT_PREFIX} \<Longrightarrow> same_elsewhere m (wipe p n m')"
  using in_range_stream_key [of p n] by (auto simp: same_elsewhere_def wipe_def)

lemma same_elsewhere_upd:
  "same_elsewhere m m' \<Longrightarrow> stream_key k \<Longrightarrow> same_elsewhere m (m'(k := v))"
  by (auto simp: same_elsewhere_def)

section \<open>Writing messages\<close>

lemma write_message_append:
  "write_message R idx m b track = b @ write_message R idx m [] track"
  by (simp add: write_message_def batch_put_def Let_def split: option.split)

lemma log_body_write_message:
  assumes "log_body R m log" and "length log + 1 < 2 ^ 64" and idx: "unat idx = length log"
  shows "log_body R (apply_ops (write_message R idx x [] track) m) (log @ [entry x])"
proof -
  have eq: "idx = i \<longleftrightarrow> unat i = length log" "i = idx \<longleftrightarrow> unat i = length log" for i
    using idx by (auto simp: word_unat_eq_iff)
  show ?thesis
    using assms
    by (simp add: log_body_def write_message_def batch_put_def Let_def entry_def key_simps eq
        nth_append less_Suc_eq split: option.split)
qed

lemma same_elsewhere_write_message:
  "same_elsewhere m (apply_ops (write_message R i x [] track) m)"
  by (auto simp: same_elsewhere_def write_message_def batch_put_def Let_def key_simps split: option.split)

lemma write_message_loop_append:
  "write_message_loop R idx ms b track = b @ write_message_loop R idx ms [] track"
proof (induction ms arbitrary: idx b)
  case Nil
  then show ?case by simp
next
  case (Cons x ms)
  from Cons [of "idx + 1" "write_message R idx x b track"]
    Cons [of "idx + 1" "write_message R idx x [] track"]
  show ?case by (simp add: write_message_append [of R idx x b])
qed

lemma log_body_write_loop:
  assumes "log_body R m log" and "length log + length ms < 2 ^ 64" and "unat idx = length log"
  shows "log_body R (apply_ops (write_message_loop R idx ms [] track) m) (log @ map entry ms)
     \<and> same_elsewhere m (apply_ops (write_message_loop R idx ms [] track) m)"
  using assms
proof (induction ms arbitrary: m log idx)
  case Nil
  then show ?case by simp
next
  case (Cons x ms)
  let ?w = "write_message R idx x [] track"
  let ?m = "apply_ops ?w m"
  have body: "log_body R ?m (log @ [entry x])"
    using Cons.prems by (intro log_body_write_message) auto
  have len: "length (log @ [entry x]) + length ms < 2 ^ 64"
    using Cons.prems by simp
  have idx: "unat (idx + 1) = length (log @ [entry x])"
    using Cons.prems by (simp add: unat_Suc64)
  have loop: "apply_ops (write_message_loop R idx (x # ms) [] track) m =
      apply_ops (write_message_loop R (idx + 1) ms [] track) ?m"
    by (simp add: write_message_loop_append [of R "idx + 1" ms ?w])
  show ?case
    using Cons.IH [OF body len idx] same_elsewhere_write_message [of m R idx x track]
    unfolding loop by (auto intro: same_elsewhere_trans)
qed

lemma log_rep_count:
  "log_body R m log \<Longrightarrow> log_rep R (m(MESSAGE_COUNT_KEY \<mapsto> enc (rlp_u64 R) (of_nat (length log)))) log"
  by (simp add: log_rep_def log_body_def key_simps)

section \<open>Dropping messages\<close>

definition wipe_from :: "u64 \<Rightarrow> (bytes \<rightharpoonup> bytes) \<Rightarrow> (bytes \<rightharpoonup> bytes)" where
  "wipe_from n m =
     wipe MESSAGE_PREFIX n (wipe MISSING_BLOCK_METADATA_INPUT_FEED_PREFIX n
       (wipe BLOCK_METADATA_INPUT_FEED_PREFIX n (wipe BLOCK_HASH_INPUT_FEED_PREFIX n
         (wipe MESSAGE_RESULT_PREFIX n m))))"

lemma log_body_wipe_from:
  assumes "log_body R m log" and "unat n \<le> length log"
  shows "log_body R (wipe_from n m) (take (unat n) log)"
  using assms
  by (auto simp: log_body_def wipe_from_def key_simps word_le_nat_alt min_def)

lemma same_elsewhere_wipe_from: "same_elsewhere m (wipe_from n m)"
  by (simp add: wipe_from_def same_elsewhere_wipe)

lemma results_wipe_from:
  "wipe_from n m (db_key MESSAGE_RESULT_PREFIX i) =
     (if n \<le> i then None else m (db_key MESSAGE_RESULT_PREFIX i))"
  by (simp add: wipe_from_def key_simps)

section \<open>The order of delayed messages\<close>

text \<open>The delayed messages read up to the end of the log.\<close>

definition last_read :: "log_entry list \<Rightarrow> u64" where
  "last_read log = (if log = [] then 0 else delayed_messages_read (fst (last log)))"

text \<open>The order test accepts exactly the steps that raise the count of delayed messages by at most one.\<close>

fun reads_ok :: "u64 \<Rightarrow> u64 list \<Rightarrow> bool" where
  "reads_ok last_delayed_read [] = True"
| "reads_ok last_delayed_read (r # rs) = (unat r \<le> unat last_delayed_read + 1 \<and> reads_ok r rs)"

abbreviation reads_of :: "MessageWithMetadataAndBlockInfo list \<Rightarrow> u64 list" where
  "reads_of ms \<equiv> map (\<lambda>m. delayed_messages_read (message_with_meta m)) ms"

lemma sat_sub_jump: "(sat_sub a b \<noteq> 0 \<and> sat_sub a b \<noteq> 1) = (unat b + 1 < unat a)"
proof -
  have "(sat_sub a b \<noteq> 0 \<and> sat_sub a b \<noteq> 1) = (\<not> unat (sat_sub a b) \<le> 1)"
    by (auto simp: word_unat_eq_iff)
  then show ?thesis by (simp add: unat_sat_sub) arith
qed

lemma check_delayed_reads_Ok: "check_delayed_reads l i ms = Ok () \<longleftrightarrow> reads_ok l (reads_of ms)"
  by (induction l i ms rule: check_delayed_reads.induct)
     (simp_all add: Let_def sat_sub_jump not_less)

lemma check_delayed_reads_result:
  "check_delayed_reads l i ms = Ok () \<or> (\<exists>e. check_delayed_reads l i ms = Err e)"
  by (induction l i ms rule: check_delayed_reads.induct) (auto simp: Let_def)

section \<open>The operations, under a healthy store\<close>

locale node_store = alloy_rlp R + database D view
  for R :: rlp and D :: "'db database" and view :: "'db \<Rightarrow> bytes \<rightharpoonup> bytes"
begin

lemma message_count_eq:
  "log_rep R (view s) log \<Longrightarrow> message_count D R s = Ok (of_nat (length log))"
  by (simp add: message_count_def log_rep_def decode_all_def)

lemma write_messages_eq:
  assumes "log_body R (view s) log" and "length log + length ms < 2 ^ 64"
    and idx: "unat idx = length log"
  obtains s' where "write_messages D R idx ms None track s = (Ok (), s')"
    and "log_rep R (view s') (log @ map entry ms)" and "same_elsewhere (view s) (view s')"
proof -
  let ?b = "write_message_loop R idx ms [] track"
  let ?ops = "set_message_count R ?b (idx + of_nat (length ms))"
  have "of_nat (unat idx) = idx" by simp
  then have of_idx: "idx = of_nat (length log)" by (simp add: idx)
  have body: "log_body R (apply_ops ?b (view s)) (log @ map entry ms)"
    and same: "same_elsewhere (view s) (apply_ops ?b (view s))"
    using log_body_write_loop [OF assms] by auto
  have v: "view (after ?ops s) =
      (apply_ops ?b (view s))(MESSAGE_COUNT_KEY \<mapsto> enc (rlp_u64 R) (of_nat (length (log @ map entry ms))))"
    by (simp add: set_message_count_def batch_put_def of_idx)
  show thesis
  proof (rule that)
    show "write_messages D R idx ms None track s = (Ok (), after ?ops s)"
      by (simp add: write_messages_def new_batch_def write_eq Let_def)
    show "log_rep R (view (after ?ops s)) (log @ map entry ms)"
      unfolding v by (rule log_rep_count [OF body])
    show "same_elsewhere (view s) (view (after ?ops s))"
      unfolding v by (rule same_elsewhere_upd [OF same]) (simp add: key_simps)
  qed
qed

lemma reorg_deletes:
  assumes "n \<noteq> 0"
  obtains s1 where "view s1 = (wipe_from n (view s))(MESSAGE_COUNT_KEY \<mapsto> enc (rlp_u64 R) n)"
    and "add_messages_and_reorg D R n ms track s =
      (if ms \<noteq> [] then write_messages D R n ms None track s1 else (Ok (), s1))"
proof -
  let ?b = "[] @ map Del (scan_keys D s MESSAGE_RESULT_PREFIX n)
    @ map Del (scan_keys D s BLOCK_HASH_INPUT_FEED_PREFIX n)
    @ map Del (scan_keys D s BLOCK_METADATA_INPUT_FEED_PREFIX n)
    @ map Del (scan_keys D s MISSING_BLOCK_METADATA_INPUT_FEED_PREFIX n)
    @ map Del (scan_keys D s MESSAGE_PREFIX n)"
  let ?ops = "set_message_count R ?b n"
  have del: "delete_starting_at D s b p (be64 n) = Ok (b @ map Del (scan_keys D s p n))" for b p
    using delete_starting_at_eq [of s b p n] by (simp add: uint64_to_key_def)
  show thesis
  proof (rule that)
    show "view (after ?ops s) = (wipe_from n (view s))(MESSAGE_COUNT_KEY \<mapsto> enc (rlp_u64 R) n)"
      by (simp add: set_message_count_def batch_put_def wipe_from_def)
    show "add_messages_and_reorg D R n ms track s =
        (if ms \<noteq> [] then write_messages D R n ms None track (after ?ops s) else (Ok (), after ?ops s))"
      using assms
      by (simp add: add_messages_and_reorg_def monad_simps del new_batch_def write_eq Let_def)
  qed
qed

lemma reorg_refines:
  assumes rep: "log_rep R (view s) log" and n: "n \<noteq> 0" "unat n \<le> length log"
    and len: "unat n + length ms < 2 ^ 64"
  obtains s' where "add_messages_and_reorg D R n ms track s = (Ok (), s')"
    and "log_rep R (view s') (take (unat n) log @ map entry ms)"
    and "same_elsewhere (view s) (view s')"
proof -
  let ?log = "take (unat n) log"
  obtain s1 where v1: "view s1 = (wipe_from n (view s))(MESSAGE_COUNT_KEY \<mapsto> enc (rlp_u64 R) n)"
    and run: "add_messages_and_reorg D R n ms track s =
      (if ms \<noteq> [] then write_messages D R n ms None track s1 else (Ok (), s1))"
    by (rule reorg_deletes [OF n(1)])
  have "log_body R (view s) log" using rep by (simp add: log_rep_def)
  then have body: "log_body R (wipe_from n (view s)) ?log" by (rule log_body_wipe_from [OF _ n(2)])
  have len_log: "length ?log = unat n" using n by simp
  have of_n: "of_nat (length ?log) = n" unfolding len_log by simp
  have rep1: "log_rep R (view s1) ?log"
    using log_rep_count [OF body] unfolding v1 of_n .
  have same1: "same_elsewhere (view s) (view s1)"
    unfolding v1 by (rule same_elsewhere_upd) (simp_all add: same_elsewhere_wipe_from key_simps)
  show thesis
  proof (cases "ms = []")
    case True
    with run rep1 same1 that [of s1] show thesis by simp
  next
    case False
    have "log_body R (view s1) ?log" using rep1 by (simp add: log_rep_def)
    then obtain s' where "write_messages D R n ms None track s1 = (Ok (), s')"
        "log_rep R (view s') (?log @ map entry ms)" "same_elsewhere (view s1) (view s')"
      using write_messages_eq [of s1 ?log ms n track] len len_log by auto
    with run False same1 that show thesis by (auto intro: same_elsewhere_trans)
  qed
qed

text \<open>
  Every append of the code starts at the counter: no stored message has an index from there on,
  so no duplicate is ever found.
\<close>

lemma count_duplicates_at_end:
  assumes "log_rep R (view s) log" and "unat first = length log"
  shows "count_duplicate_messages D R s 0 first ms b = Ok ((0, False, None), b)"
  using assms by (cases ms) (simp_all add: log_rep_def log_body_def)

lemma get_message_eq:
  "log_rep R (view s) log \<Longrightarrow> unat i < length log \<Longrightarrow> get_message D R s i = Ok (fst (log ! unat i))"
  by (simp add: get_message_def decode_all_def log_rep_def log_body_def codec_simps)

lemma get_message_beyond:
  "log_rep R (view s) log \<Longrightarrow> length log \<le> unat i \<Longrightarrow> get_message D R s i = Err not_found"
  by (simp add: get_message_def log_rep_def log_body_def)

lemma prev_delayed_read_eq:
  assumes rep: "log_rep R (view s) log" and first: "unat first = length log"
  shows "get_prev_prev_delayed_read D R s first = Ok (last_read log)"
proof (cases "log = []")
  case True
  with first show ?thesis by (simp add: get_prev_prev_delayed_read_def last_read_def unat_eq_zero)
next
  case False
  then have pos: "first \<noteq> 0" using first by auto
  then have "unat (first - 1) = length log - 1" using first by (simp add: unat_minus_one)
  with False pos first get_message_eq [OF rep, of "first - 1"] show ?thesis
    by (simp add: get_prev_prev_delayed_read_def last_read_def last_conv_nth)
qed

lemma append_eq:
  assumes rep: "log_rep R (view s) log"
  shows "add_messages_and_end_batch_impl D R first confirmed ms track s =
    (if unat first \<noteq> length log
     then (Err (Bail ''non-contiguous append: db_count={} first_msg_idx={}''
                 [length log, unat first]), s)
     else case check_delayed_reads (last_read log) first ms of
            Ok _ \<Rightarrow> if ms = [] then (Ok (), s) else write_messages D R first ms None track s
          | Err e \<Rightarrow> (Err e, s) | Panic \<Rightarrow> (Panic, s) | Diverge \<Rightarrow> (Diverge, s))"
proof -
  have lt: "length log < 2 ^ 64" using rep by (simp add: log_rep_def log_body_def)
  have "of_nat (unat first) = first" by simp
  with lt have ne: "of_nat (length log) \<noteq> first \<longleftrightarrow> unat first \<noteq> length log"
    by (metis unat_of_nat64)
  have cnt: "get_message_count D R s = Ok (of_nat (length log))"
    using message_count_eq [OF rep] by (simp add: get_message_count_def)
  show ?thesis
  proof (cases "unat first = length log")
    case False
    with ne cnt lt show ?thesis
      by (simp add: add_messages_and_end_batch_impl_def monad_simps unat_of_nat64)
  next
    case True
    with ne have first: "of_nat (length log) = first" by blast
    show ?thesis
      using cnt True
      by (simp add: add_messages_and_end_batch_impl_def monad_simps first prev_delayed_read_eq [OF rep True]
          count_duplicates_at_end [OF rep True] split: result.split)
  qed
qed

lemma append_refines:
  assumes rep: "log_rep R (view s) log" and first: "unat first = length log"
    and len: "length log + length ms < 2 ^ 64" and ok: "reads_ok (last_read log) (reads_of ms)"
  obtains s' where "add_messages_and_end_batch_impl D R first confirmed ms track s = (Ok (), s')"
    and "log_rep R (view s') (log @ map entry ms)" and "same_elsewhere (view s) (view s')"
proof (cases "ms = []")
  case True
  with rep first that [of s] show thesis by (simp add: append_eq [OF rep])
next
  case False
  have "check_delayed_reads (last_read log) first ms = Ok ()"
    using ok by (simp add: check_delayed_reads_Ok)
  moreover have "log_body R (view s) log" using rep by (simp add: log_rep_def)
  ultimately show thesis
    using write_messages_eq [of s log ms first track] len first False that
    by (auto simp: append_eq [OF rep])
qed

lemma read_back:
  assumes rep: "log_rep R (view s) log" and i: "unat i < length log"
  shows "get_message_with_metadata_and_block_info D R s i =
    Ok \<lparr>message_with_meta = fst (log ! unat i), block_hash = snd (log ! unat i),
        block_metadata = view s (db_key BLOCK_METADATA_INPUT_FEED_PREFIX i)\<rparr>"
proof -
  have "view s (db_key BLOCK_HASH_INPUT_FEED_PREFIX i) =
      Some (BlockHashDbValue_encode R \<lparr>bh_block_hash = snd (log ! unat i)\<rparr>)"
    using rep i by (simp add: log_rep_def log_body_def)
  then have "block_hash_at_message_index D R s i = Ok (snd (log ! unat i))"
    by (simp add: block_hash_at_message_index_def get_opt_def decode_all_def codec_simps)
  moreover have "block_metadata_at_message_index D s i =
      Ok (view s (db_key BLOCK_METADATA_INPUT_FEED_PREFIX i))"
    by (simp add: block_metadata_at_message_index_def get_opt_def get split: option.split)
  ultimately show ?thesis
    using get_message_eq [OF rep i] by (simp add: get_message_with_metadata_and_block_info_def)
qed

end

end
