(* ===== verification/Mux_Counts.thy ===== *)
theory Mux_Counts
  imports Mux_Correct Tracker Streamer_Correct
begin

text \<open>
  How many messages a batch has and how many delayed messages each of them says were read: what
  the multiplexer delivers passes the streamer's order test, and, for batches that are not
  degenerate, is as many messages as the tracker's metadata counts.
\<close>

section \<open>Delayed messages read\<close>

abbreviation read_of :: "MessageWithMetadataAndBlockInfo \<Rightarrow> u64" where
  "read_of m \<equiv> delayed_messages_read (message_with_meta m)"

lemma reads_ok_append: "reads_ok d (xs @ ys) \<longleftrightarrow> reads_ok d xs \<and> reads_ok (last (d # xs)) ys"
  by (induction xs arbitrary: d) auto

lemma segment_message_read:
  assumes "segment_message R brotli delayed seq h seg tb d = Ok (m, d')" and "d \<le> after_delayed_messages seq"
  shows "read_of m = d'" and "d \<le> d'" and "d' \<le> after_delayed_messages seq" and "unat d' \<le> unat d + 1"
proof -
  obtain ts bn where tb: "tb = (ts, bn)" by (cases tb)
  have "read_of m = d' \<and> d \<le> d' \<and> d' \<le> after_delayed_messages seq \<and> unat d' \<le> unat d + 1"
  proof (cases "hd seg = BATCH_SEGMENT_KIND_DELAYED_MESSAGES \<and> \<not> after_delayed_messages seq \<le> d")
    case True
    then have lt: "d < after_delayed_messages seq" by (simp add: not_le)
    have "unat d + 1 < 2 ^ 64"
      using lt unat_lt64 [of "after_delayed_messages seq"] by (simp add: word_less_nat_alt del: unat_lt64)
    then have d1: "unat (d + 1) = unat d + 1" by (simp add: unat_Suc64)
    with True lt assms(1) show ?thesis
      by (auto simp: segment_message_def tb bindR_Ok_iff delayed_message_def word_le_nat_alt word_less_nat_alt)
  next
    case False
    with assms show ?thesis
      by (auto simp: segment_message_def tb bindR_Ok_iff invalid_message_def l2_message_def split: if_splits)
  qed
  then show "read_of m = d'" "d \<le> d'" "d' \<le> after_delayed_messages seq" "unat d' \<le> unat d + 1" by auto
qed

lemma walk_reads:
  "walk_segments R brotli delayed seq h r tb d = Ok (ms, d') \<Longrightarrow> d \<le> after_delayed_messages seq \<Longrightarrow>
   d \<le> d' \<and> d' \<le> after_delayed_messages seq \<and> reads_ok d (reads_of ms) \<and> last (d # reads_of ms) = d'"
proof (induction r arbitrary: tb d ms)
  case Nil
  then show ?case by simp
next
  case (Cons seg r)
  show ?case
  proof (cases "skipped seg")
    case True
    with Cons show ?thesis by simp
  next
    case False
    then obtain m d1 ms' where m: "segment_message R brotli delayed seq h seg tb d = Ok (m, d1)"
      and r: "walk_segments R brotli delayed seq h r tb d1 = Ok (ms', d')" and ms: "ms = m # ms'"
      using Cons.prems(1) by (auto simp: bindR_Ok_iff)
    note read = segment_message_read [OF m Cons.prems(2)]
    from Cons.IH [OF r read(3)] read ms show ?thesis by auto
  qed
qed

lemma walk_delayed_reads:
  "walk_delayed delayed d k = Ok ms \<Longrightarrow> unat d + k < 2 ^ 64 \<Longrightarrow>
   length ms = k \<and> reads_ok d (reads_of ms) \<and> unat (last (d # reads_of ms)) = unat d + k"
proof (induction k arbitrary: d ms)
  case 0
  then show ?case by simp
next
  case (Suc k)
  then have d1: "unat (d + 1) = unat d + 1" by (simp add: unat_Suc64)
  obtain x ms' where x: "walk_delayed delayed (d + 1) k = Ok ms'" "ms = delayed_message x (d + 1) # ms'"
    using Suc.prems(1) by (auto simp: bindR_Ok_iff)
  from Suc.IH [OF x(1)] Suc.prems(2) d1 x(2) show ?case by (auto simp: delayed_message_def)
qed

lemma batch_reads:
  assumes ms: "batch_messages R brotli delayed seq h d = Ok ms" and le: "d \<le> after_delayed_messages seq"
  shows "reads_ok d (reads_of ms)" and "last (d # reads_of ms) = after_delayed_messages seq"
proof -
  let ?a = "after_delayed_messages seq"
  have "reads_ok d (reads_of ms) \<and> last (d # reads_of ms) = ?a"
  proof (cases "?a \<le> d \<and> filter message_segment (segments seq) = []")
    case True
    with le have "?a = d" by simp
    with True ms show ?thesis by (auto simp: batch_messages_def invalid_message_def)
  next
    case False
    then obtain ms1 d' tail where w: "walk_segments R brotli delayed seq h (segments seq) (0, 0) d = Ok (ms1, d')"
      and t: "walk_delayed delayed d' (unat ?a - unat d') = Ok tail" and eq: "ms = ms1 @ tail"
      using ms by (auto simp: batch_messages_def bindR_Ok_iff split: if_splits)
    note wr = walk_reads [OF w le]
    have "unat d' \<le> unat ?a" using wr by (simp add: word_le_nat_alt)
    then have tr: "reads_ok d' (reads_of tail)" "unat (last (d' # reads_of tail)) = unat ?a"
      using walk_delayed_reads [OF t] by auto
    have "last (d' # reads_of tail) = ?a" using tr(2) by (simp only: word_unat_eq_iff)
    moreover have "last (d # reads_of ms) = last (d' # reads_of tail)"
      using wr eq by (cases tail) (auto simp: last_append)
    moreover have "reads_ok d (reads_of ms1 @ reads_of tail)"
      using wr tr(1) unfolding reads_ok_append by metis
    ultimately show ?thesis using eq by simp
  qed
  then show "reads_ok d (reads_of ms)" "last (d # reads_of ms) = ?a" by auto
qed

text \<open>Batches in the order of their delayed counts.\<close>

fun delayed_ascending :: "u64 \<Rightarrow> (SequencerMessage \<times> b256 option) list \<Rightarrow> bool" where
  "delayed_ascending d [] = True"
| "delayed_ascending d ((seq, h) # ps) =
     (d \<le> after_delayed_messages seq \<and> delayed_ascending (after_delayed_messages seq) ps)"

lemma stream_reads:
  "stream_messages R brotli delayed ps d = Ok ms \<Longrightarrow> delayed_ascending d ps \<Longrightarrow>
   reads_ok d (reads_of ms) \<and> last (d # reads_of ms) = last (d # map (after_delayed_messages \<circ> fst) ps)"
proof (induction ps arbitrary: d ms)
  case Nil
  then show ?case by simp
next
  case (Cons p ps)
  obtain seq h where p: "p = (seq, h)" by (cases p)
  obtain ms1 ms2 where ms: "batch_messages R brotli delayed seq h d = Ok ms1"
      "stream_messages R brotli delayed ps (after_delayed_messages seq) = Ok ms2" "ms = ms1 @ ms2"
    using Cons.prems(1) p by (auto simp: bindR_Ok_iff)
  note b = batch_reads [OF ms(1)]
  have le: "d \<le> after_delayed_messages seq" using Cons.prems(2) p by simp
  have "last (d # reads_of ms) = last (after_delayed_messages seq # reads_of ms2)"
    using b(2) [OF le] ms(3) by (cases ms2) (auto simp: last_append)
  with b [OF le] Cons.IH [OF ms(2)] Cons.prems(2) p ms(3) show ?case
    by (auto simp: reads_ok_append)
qed

section \<open>Counting\<close>

definition delayed_segment :: "bytes \<Rightarrow> bool" where
  "delayed_segment seg \<longleftrightarrow> seg \<noteq> [] \<and> hd seg = BATCH_SEGMENT_KIND_DELAYED_MESSAGES"

lemma message_segments_split:
  "length (filter message_segment segs) =
   length (filter l2_segment segs) + length (filter delayed_segment segs)"
  by (induction segs)
     (auto simp: message_segment_def l2_segment_def delayed_segment_def segment_kinds)

lemma walk_counts:
  "walk_segments R brotli delayed seq h r tb d = Ok (ms, d') \<Longrightarrow> list_all known_segment r \<Longrightarrow>
   d \<le> after_delayed_messages seq \<Longrightarrow>
   length ms = length (filter message_segment r) \<and>
   unat d' = min (unat (after_delayed_messages seq)) (unat d + length (filter delayed_segment r))"
proof (induction r arbitrary: tb d ms)
  case Nil
  then show ?case by (simp add: word_le_nat_alt)
next
  case (Cons seg r)
  show ?case
  proof (cases "skipped seg")
    case True
    then have "\<not> message_segment seg" "\<not> delayed_segment seg"
      using not_message_skipped by (auto simp: message_segment_def delayed_segment_def)
    with True Cons show ?thesis by simp
  next
    case False
    then obtain m d1 ms' where m: "segment_message R brotli delayed seq h seg tb d = Ok (m, d1)"
      and r: "walk_segments R brotli delayed seq h r tb d1 = Ok (ms', d')" and ms: "ms = m # ms'"
      using Cons.prems(1) by (auto simp: bindR_Ok_iff)
    have kind: "message_segment seg" using Cons.prems(2) False by (simp add: known_segment_def)
    note read = segment_message_read [OF m Cons.prems(3)]
    have "unat d1 = min (unat (after_delayed_messages seq)) (unat d + (if delayed_segment seg then 1 else 0))"
    proof (cases "delayed_segment seg \<and> \<not> after_delayed_messages seq \<le> d")
      case True
      then have "d1 = d + 1" using m by (cases tb) (auto simp: segment_message_def delayed_segment_def bindR_Ok_iff)
      moreover have "unat d + 1 < 2 ^ 64"
        using True unat_lt64 [of "after_delayed_messages seq"]
        by (simp add: word_le_nat_alt del: unat_lt64)
      ultimately show ?thesis using True by (simp add: unat_Suc64 word_le_nat_alt)
    next
      case False
      have "d1 = d"
        using m False kind
        by (cases tb) (auto simp: segment_message_def delayed_segment_def message_segment_def bindR_Ok_iff
            split: if_splits)
      with False Cons.prems(3) show ?thesis by (auto simp: word_le_nat_alt)
    qed
    moreover have "length ms' = length (filter message_segment r) \<and>
        unat d' = min (unat (after_delayed_messages seq)) (unat d1 + length (filter delayed_segment r))"
      using Cons.IH [OF r _ read(3)] Cons.prems(2) by simp
    ultimately show ?thesis using ms kind by auto
  qed
qed

text \<open>
  A batch is regular when it has no more delayed segments than it grants delayed messages, and is
  not void of messages.
\<close>

definition regular :: "SequencerMessage \<Rightarrow> u64 \<Rightarrow> bool" where
  "regular seq d \<longleftrightarrow> list_all known_segment (segments seq) \<and> d \<le> after_delayed_messages seq \<and>
     unat d + length (filter delayed_segment (segments seq)) \<le> unat (after_delayed_messages seq) \<and>
     (d < after_delayed_messages seq \<or> filter message_segment (segments seq) \<noteq> [])"

lemma batch_length:
  assumes ms: "batch_messages R brotli delayed seq h d = Ok ms" and reg: "regular seq d"
  shows "length ms = length (filter l2_segment (segments seq)) + (unat (after_delayed_messages seq) - unat d)"
proof -
  let ?a = "after_delayed_messages seq"
  have r: "list_all known_segment (segments seq)" "d \<le> ?a"
      "unat d + length (filter delayed_segment (segments seq)) \<le> unat ?a"
      "\<not> (?a \<le> d \<and> filter message_segment (segments seq) = [])"
    using reg by (auto simp: regular_def)
  obtain ms1 d' tail where w: "walk_segments R brotli delayed seq h (segments seq) (0, 0) d = Ok (ms1, d')"
    and t: "walk_delayed delayed d' (unat ?a - unat d') = Ok tail" and eq: "ms = ms1 @ tail"
    using ms r(4) by (auto simp: batch_messages_def bindR_Ok_iff split: if_splits)
  have "length ms1 = length (filter l2_segment (segments seq)) + length (filter delayed_segment (segments seq))"
    "unat d' = unat d + length (filter delayed_segment (segments seq))"
    using walk_counts [OF w r(1,2)] r(3) by (simp_all add: message_segments_split)
  moreover have "length tail = unat ?a - unat d'"
    using walk_delayed_reads [OF t] walk_reads [OF w r(2)] unat_lt64 [of ?a]
    by (simp add: word_le_nat_alt del: unat_lt64)
  ultimately show ?thesis using eq r(3) by simp
qed

text \<open>The number of messages is the number by which the tracker's count grows.\<close>

lemma batch_metadata_count:
  assumes ms: "batch_messages R brotli delayed seq h (bm_delayed_message_count prev) = Ok ms"
    and reg: "regular seq (bm_delayed_message_count prev)"
    and after: "after_delayed_count b = after_delayed_messages seq"
  shows "bm_message_count (batch_metadata seq b prev) = bm_message_count prev + of_nat (length ms)"
proof -
  let ?d = "bm_delayed_message_count prev" let ?a = "after_delayed_messages seq"
  have le: "?d \<le> ?a" using reg by (simp add: regular_def)
  have "of_nat (unat (?a - ?d)) = ?a - ?d" by simp
  then have "of_nat (unat ?a - unat ?d) = ?a - ?d" using le by (simp only: unat_sub)
  then show ?thesis
    using le batch_length [OF ms reg] after by (simp add: batch_metadata_def sat_sub_def Let_def)
qed

text \<open>
  A batch without messages is still delivered as one invalid message, which the metadata do not
  count.
\<close>

lemma void_batch:
  assumes "filter message_segment (segments seq) = []" and "after_delayed_messages seq = d"
  shows "batch_messages R brotli delayed seq h d = Ok [invalid_message seq h]"
  using assms by (simp add: batch_messages_def)

lemma void_batch_metadata:
  assumes "filter message_segment (segments seq) = []"
    and "after_delayed_count b = bm_delayed_message_count prev"
  shows "bm_message_count (batch_metadata seq b prev) = bm_message_count prev"
proof -
  have "filter l2_segment (segments seq) = []"
    using message_segments_split [of "segments seq"] assms(1) by simp
  with assms(2) show ?thesis by (simp add: batch_metadata_def sat_sub_def)
qed

end
