(* ===== verification/Inbox_Rep.thy ===== *)
theory Inbox_Rep
  imports Tracker Streamer_Correct
begin

text \<open>
  What the tracker keeps in the database, as two lists: the delayed messages with the chain of
  their accumulators, and the metadata of the batches; and the reading operations on it.
\<close>

section \<open>The cache\<close>

text \<open>
  The contract of the crate \<open>lru\<close>: a lookup finds what is cached and changes only recency, an
  insertion is found and may evict others, a removal removes.
\<close>

locale lru_cache =
  fixes L :: "'c lru" and cached :: "'c \<Rightarrow> u64 \<rightharpoonup> BatchMetadata"
  assumes get_found: "fst (lru_get L k c) = cached c k"
    and get_keeps: "cached (snd (lru_get L k c)) = cached c"
    and put_found: "cached (lru_put L k v c) k = Some v"
    and put_others: "cached (lru_put L k v c) k' = Some v' \<Longrightarrow> k' \<noteq> k \<Longrightarrow> cached c k' = Some v'"
    and pop_removes: "cached (lru_pop L k c) = (cached c)(k := None)"

section \<open>Delayed messages\<close>

text \<open>The accumulator after the messages \<open>bs\<close> from the accumulator \<open>a\<close>.\<close>

fun acc_from :: "keccak \<Rightarrow> b256 \<Rightarrow> bytes list \<Rightarrow> b256" where
  "acc_from K a [] = a"
| "acc_from K a (b # bs) =
     (case parse_incoming_l1_message_legacy b of
        Ok msg \<Rightarrow> acc_from K (acc_after K a msg) bs
      | _ \<Rightarrow> a)"

definition well_formed :: "bytes \<Rightarrow> bool" where
  "well_formed b \<longleftrightarrow> (\<exists>msg. parse_incoming_l1_message_legacy b = Ok msg)"

lemma acc_from_append:
  "list_all well_formed xs \<Longrightarrow> acc_from K a (xs @ ys) = acc_from K (acc_from K a xs) ys"
  by (induction xs arbitrary: a) (auto simp: well_formed_def)

text \<open>
  \<open>delayed_rep K m dms\<close>: the contents \<open>m\<close> hold exactly the delayed messages \<open>dms\<close>, each
  after the accumulator of the ones before it, and their number.
\<close>

definition delayed_rep :: "rlp \<Rightarrow> keccak \<Rightarrow> (bytes \<rightharpoonup> bytes) \<Rightarrow> bytes list \<Rightarrow> bool" where
  "delayed_rep R K m dms \<longleftrightarrow>
     length dms < 2 ^ 64 - 1 \<and> list_all well_formed dms \<and>
     (\<forall>i. m (db_key RLP_DELAYED_MESSAGE_PREFIX i) =
       (if unat i < length dms
        then Some (be256 (acc_from K 0 (take (unat i) dms)) @ dms ! unat i) else None)) \<and>
     (\<forall>i. m (db_key LEGACY_DELAYED_MESSAGE_PREFIX i) = None) \<and>
     (\<forall>i. m (db_key PARENT_CHAIN_BLOCK_NUMBER_PREFIX i) = None) \<and>
     m DELAYED_MESSAGE_COUNT_KEY = Some (enc (rlp_u64 R) (of_nat (length dms)))"

section \<open>Batches\<close>

definition ascending :: "BatchMetadata list \<Rightarrow> bool" where
  "ascending ms \<longleftrightarrow> sorted_wrt (\<lambda>a b. bm_delayed_message_count a \<le> bm_delayed_message_count b) ms"

definition last_delayed :: "BatchMetadata list \<Rightarrow> u64" where
  "last_delayed ms = (if ms = [] then 0 else bm_delayed_message_count (last ms))"

text \<open>\<open>sequences ms d j\<close>: batch \<open>j\<close> is the one that brought the delayed messages read to \<open>d\<close>.\<close>

definition sequences :: "BatchMetadata list \<Rightarrow> u64 \<Rightarrow> nat \<Rightarrow> bool" where
  "sequences ms d j \<longleftrightarrow>
     j < length ms \<and> bm_delayed_message_count (ms ! j) = d \<and> last_delayed (take j ms) < d"

definition batches_rep :: "rlp \<Rightarrow> (bytes \<rightharpoonup> bytes) \<Rightarrow> BatchMetadata list \<Rightarrow> bool" where
  "batches_rep R m ms \<longleftrightarrow>
     length ms < 2 ^ 64 - 1 \<and> ascending ms \<and>
     (\<forall>i. m (db_key SEQUENCER_BATCH_META_PREFIX i) =
       (if unat i < length ms then Some (encode_metadata R (ms ! unat i)) else None)) \<and>
     m SEQUENCER_BATCH_COUNT_KEY = Some (enc (rlp_u64 R) (of_nat (length ms))) \<and>
     (\<forall>d v. m (db_key DELAYED_SEQUENCED_PREFIX d) = Some v \<longleftrightarrow>
       (\<exists>j. sequences ms d j \<and> v = enc (rlp_u64 R) (of_nat j))) \<and>
     (\<forall>k. prefix DELAYED_SEQUENCED_PREFIX k \<longrightarrow> m k \<noteq> None \<longrightarrow> (\<exists>d. k = db_key DELAYED_SEQUENCED_PREFIX d))"

text \<open>Nothing stale is cached.\<close>

definition coherent :: "(u64 \<rightharpoonup> BatchMetadata) \<Rightarrow> BatchMetadata list \<Rightarrow> bool" where
  "coherent c ms \<longleftrightarrow> (\<forall>k v. c k = Some v \<longrightarrow> unat k < length ms \<and> v = ms ! unat k)"

definition inbox_rep ::
    "rlp \<Rightarrow> keccak \<Rightarrow> (bytes \<rightharpoonup> bytes) \<Rightarrow> (u64 \<rightharpoonup> BatchMetadata) \<Rightarrow> bytes list \<Rightarrow> BatchMetadata list \<Rightarrow> bool"
where
  "inbox_rep R K m c dms ms \<longleftrightarrow>
     delayed_rep R K m dms \<and> batches_rep R m ms \<and> coherent c ms \<and>
     unat (last_delayed ms) \<le> length dms"

section \<open>Reading\<close>

locale tracker_node = node_store "ev_rlp ev" "ev_db ev" view + lru_cache "ev_lru ev" cached
  for ev :: "('db, 'c) env" and view :: "'db \<Rightarrow> bytes \<rightharpoonup> bytes" and cached :: "'c \<Rightarrow> u64 \<rightharpoonup> BatchMetadata"
begin

abbreviation "D \<equiv> ev_db ev"
abbreviation "R \<equiv> ev_rlp ev"
abbreviation "K \<equiv> ev_keccak ev"

definition rep :: "('db, 'c) tracker \<Rightarrow> bytes list \<Rightarrow> BatchMetadata list \<Rightarrow> bool" where
  "rep t dms ms \<longleftrightarrow> inbox_rep R K (view (tr_db t)) (cached (tr_cache t)) dms ms"

lemma delayed_entry_split:
  "delayed_entry e (be256 a @ b) = bindR (parse_incoming_l1_message_legacy b) (\<lambda>msg. Ok (a, msg))"
  by (simp add: delayed_entry_def)

lemma get_delayed_acc_eq:
  assumes rep: "delayed_rep R K (view s) dms"
  shows "get_delayed_acc D K s i =
    (if unat i < length dms then Ok (acc_from K 0 (take (unat i + 1) dms))
     else Err (Bail ''accumulator not found: delayed {}'' [unat i]))"
proof (cases "unat i < length dms")
  case True
  then obtain msg where msg: "parse_incoming_l1_message_legacy (dms ! unat i) = Ok msg"
    using rep by (auto simp: delayed_rep_def list_all_length well_formed_def)
  have "list_all well_formed (take (unat i) dms)"
    using rep by (auto simp: delayed_rep_def list_all_iff dest: in_set_takeD)
  then have "acc_from K 0 (take (unat i + 1) dms) = acc_after K (acc_from K 0 (take (unat i) dms)) msg"
    using True msg by (simp add: take_Suc_conv_app_nth acc_from_append)
  with True msg rep show ?thesis
    by (simp add: get_delayed_acc_def delayed_rep_def has delayed_entry_split)
next
  case False
  with rep show ?thesis by (simp add: get_delayed_acc_def delayed_rep_def has)
qed

lemma get_delayed_message_eq:
  assumes rep: "delayed_rep R K (view s) dms" and i: "unat i < length dms"
  shows "get_delayed_message_accumulator_and_parent_chain_block_number D s i =
    bindR (parse_incoming_l1_message_legacy (dms ! unat i))
      (\<lambda>msg. Ok (msg, acc_from K 0 (take (unat i) dms), block_number (header msg)))"
proof -
  obtain msg where "parse_incoming_l1_message_legacy (dms ! unat i) = Ok msg"
    using rep i by (auto simp: delayed_rep_def list_all_length well_formed_def)
  with rep i show ?thesis
    by (simp add: get_delayed_message_accumulator_and_parent_chain_block_number_def delayed_rep_def
        has delayed_entry_split)
qed

lemma get_delayed_count_eq:
  "delayed_rep R K (view s) dms \<Longrightarrow> get_delayed_count D R s = Ok (of_nat (length dms))"
  by (simp add: get_delayed_count_def read_u64_def delayed_rep_def decode_all_def)

lemma decode_encode_metadata: "decode_metadata R (encode_metadata R meta @ rest) = Ok meta"
  by (simp add: decode_metadata_def encode_metadata_def)

lemma coherent_get: "cached (snd (lru_get (ev_lru ev) k c)) = cached c"
  by (rule get_keeps)

lemma get_batch_metadata_eq:
  assumes rep: "rep t dms ms"
  shows "\<exists>t'. get_batch_metadata ev i t =
      ((if unat i < length ms then Ok (ms ! unat i)
        else Err (Bail ''accumulator not found: no metadata for batch {}'' [unat i])), t') \<and>
    tr_db t' = tr_db t \<and> rep t' dms ms"
proof -
  obtain m c where lru: "lru_get (ev_lru ev) i (tr_cache t) = (m, c)" by fastforce
  then have m: "m = cached (tr_cache t) i" and c: "cached c = cached (tr_cache t)"
    using get_found [of i "tr_cache t"] get_keeps [of i "tr_cache t"] by auto
  let ?t = "t\<lparr>tr_cache := c\<rparr>"
  have rep': "rep ?t dms ms" using rep c by (simp add: rep_def)
  have view_i: "view (tr_db t) (db_key SEQUENCER_BATCH_META_PREFIX i) =
      (if unat i < length ms then Some (encode_metadata R (ms ! unat i)) else None)"
    using rep by (simp add: rep_def inbox_rep_def batches_rep_def)
  show ?thesis
  proof (cases m)
    case (Some v)
    then have "unat i < length ms" "v = ms ! unat i"
      using rep m by (auto simp: rep_def inbox_rep_def coherent_def)
    with Some lru rep' show ?thesis
      by (intro exI [of _ ?t]) (simp add: get_batch_metadata_def monad_simps)
  next
    case None
    show ?thesis
    proof (cases "unat i < length ms")
      case False
      with None lru rep' view_i show ?thesis
        by (intro exI [of _ ?t]) (simp add: get_batch_metadata_def monad_simps db_read_def has)
    next
      case True
      let ?c = "lru_put (ev_lru ev) i (ms ! unat i) c"
      have "coherent (cached ?c) ms"
        unfolding coherent_def
      proof (intro allI impI)
        fix k v assume kv: "cached ?c k = Some v"
        show "unat k < length ms \<and> v = ms ! unat k"
        proof (cases "k = i")
          case True
          with kv put_found [of i "ms ! unat i" c] \<open>unat i < length ms\<close> show ?thesis by simp
        next
          case False
          with kv put_others [of i "ms ! unat i" c k v] have "cached (tr_cache t) k = Some v" using c by simp
          with rep show ?thesis by (simp add: rep_def inbox_rep_def coherent_def)
        qed
      qed
      with rep have "rep (t\<lparr>tr_cache := ?c\<rparr>) dms ms" by (simp add: rep_def inbox_rep_def)
      with True None lru view_i show ?thesis
        using decode_encode_metadata [of "ms ! unat i" "[]"]
        by (intro exI [of _ "t\<lparr>tr_cache := ?c\<rparr>"])
           (simp add: get_batch_metadata_def monad_simps db_read_def has cache_op_def)
    qed
  qed
qed

lemma get_batch_message_count_eq:
  assumes "rep t dms ms" and "unat i < length ms"
  shows "\<exists>t'. get_batch_message_count ev i t = (Ok (bm_message_count (ms ! unat i)), t') \<and>
    tr_db t' = tr_db t \<and> rep t' dms ms"
  using get_batch_metadata_eq [OF assms(1), of i] assms(2)
  by (auto simp: get_batch_message_count_def monad_simps)

end

end
