(* ===== verification/Tracker_Delayed.thy ===== *)
theory Tracker_Delayed
  imports Inbox_Rep
begin

text \<open>
  The tracker's operations on the counters and on delayed messages: dropping batch metadata, the
  repair of the batch count, recording delayed messages and the reorg of batches it causes.
\<close>

section \<open>Counters and metadata\<close>

lemma metadata_key_index_db_key: "metadata_key_index (db_key SEQUENCER_BATCH_META_PREFIX i) = Some i"
  by (simp add: metadata_key_index_def db_key_def uint64_to_key_def prefixes_eval)

text \<open>Metadata from index \<open>n\<close> on are gone, from the contents and from the cache.\<close>

lemma wipe_other_prefix:
  "p \<noteq> q \<Longrightarrow> wipe [p] n m (db_key [q] i) = m (db_key [q] i)"
  by (simp add: wipe_def in_range_db_key)

context tracker_node begin

lemma pops_removed:
  "cached (fold (\<lambda>(key, _) c. case metadata_key_index key of
        Some idx \<Rightarrow> lru_pop (ev_lru ev) idx c | None \<Rightarrow> c) entries c) k =
   (if \<exists>e \<in> set entries. metadata_key_index (fst e) = Some k then None else cached c k)"
  by (induction entries arbitrary: c) (auto simp: pop_removes split: option.split)

lemma delete_metadata_eq:
  obtains t' where "delete_batch_metadata_starting_at ev n t = (Ok (), t')"
    and "view (tr_db t') = wipe SEQUENCER_BATCH_META_PREFIX n (view (tr_db t))"
    and "\<And>k v. cached (tr_cache t') k = Some v \<Longrightarrow>
      cached (tr_cache t) k = Some v \<and>
      (n \<le> k \<longrightarrow> view (tr_db t) (db_key SEQUENCER_BATCH_META_PREFIX k) = None)"
proof -
  let ?p = SEQUENCER_BATCH_META_PREFIX let ?s = "tr_db t"
  obtain es where es: "db_scan D ?s ?p (uint64_to_key n) = (es, None)"
    using scan_ok [of ?s ?p "uint64_to_key n"] by (metis prod.collapse)
  let ?c = "fold (\<lambda>(key, _) c. case metadata_key_index key of
      Some idx \<Rightarrow> lru_pop (ev_lru ev) idx c | None \<Rightarrow> c) es (tr_cache t)"
  let ?b = "map Del (scan_keys D ?s ?p n)"
  let ?t = "t\<lparr>tr_cache := ?c, tr_db := after ?b ?s\<rparr>"
  have "fold (\<lambda>(key, _) b. batch_delete b key) es new_batch = ?b"
    by (simp add: fold_batch_delete new_batch_def scan_keys_def es)
  then have run: "delete_batch_metadata_starting_at ev n t = (Ok (), ?t)"
    by (simp add: delete_batch_metadata_starting_at_def es db_op_def write_eq Let_def)
  have v: "view (tr_db ?t) = wipe ?p n (view ?s)" by simp
  have "cached (tr_cache t) k = Some v \<and> (n \<le> k \<longrightarrow> view ?s (db_key ?p k) = None)"
    if "cached (tr_cache ?t) k = Some v" for k v
  proof (intro conjI impI)
    from that have c: "\<not> (\<exists>e \<in> set es. metadata_key_index (fst e) = Some k)" "cached (tr_cache t) k = Some v"
      by (simp_all add: pops_removed split: if_splits)
    then show "cached (tr_cache t) k = Some v" by simp
    assume "n \<le> k"
    show "view ?s (db_key ?p k) = None"
    proof (rule ccontr)
      assume "view ?s (db_key ?p k) \<noteq> None"
      moreover have "in_range ?p n (db_key ?p k)" using \<open>n \<le> k\<close> by (simp add: key_simps)
      ultimately have "db_key ?p k \<in> set (scan_keys D ?s ?p n)" by (auto simp: set_scan_keys)
      then have "db_key ?p k \<in> set (map fst es)" by (simp add: scan_keys_def es)
      then show False using c(1) metadata_key_index_db_key [of k] by auto
    qed
  qed
  then show thesis using that run v by blast
qed

text \<open>The count is the number of batches; a count that is too large is repaired.\<close>

lemma repair_count_eq:
  assumes "\<And>i. view s (db_key SEQUENCER_BATCH_META_PREFIX i) \<noteq> None \<longleftrightarrow> unat i < n"
    and "n \<le> unat count"
  shows "repair_count D s count r = Ok (of_nat n, r \<or> n < unat count)"
  using assms
proof (induction "unat count" arbitrary: count r)
  case 0
  then have "count = 0" "n = 0" by (simp_all add: unat_eq_zero)
  then show ?case by (subst repair_count.simps) simp
next
  case (Suc k)
  then have nz: "count \<noteq> 0" by auto
  then have u: "unat (count - 1) = unat count - 1" by (simp add: unat_minus_one)
  show ?case
  proof (cases "n = unat count")
    case True
    then have "view s (db_key SEQUENCER_BATCH_META_PREFIX (count - 1)) \<noteq> None"
      using Suc.prems(1) u nz by (simp add: unat_gt_0)
    then show ?thesis using True nz
      by (subst repair_count.simps) (simp add: has word_gt_0)
  next
    case False
    then have lt: "n \<le> unat (count - 1)" using Suc.prems(2) u by simp
    then have "view s (db_key SEQUENCER_BATCH_META_PREFIX (count - 1)) = None"
      using Suc.prems(1) [of "count - 1"] by auto
    with Suc.hyps(1) [of "count - 1" True] Suc.hyps(2) Suc.prems u lt nz False show ?thesis
      by (subst repair_count.simps) (simp add: has word_gt_0)
  qed
qed

lemma get_batch_count_eq:
  assumes rep: "batches_rep R (view s) ms"
  shows "get_batch_count D R s = (Ok (of_nat (length ms)), s)"
proof -
  have lt: "length ms < 2 ^ 64" and
    meta: "\<And>i. view s (db_key SEQUENCER_BATCH_META_PREFIX i) \<noteq> None \<longleftrightarrow> unat i < length ms" and
    cnt: "view s SEQUENCER_BATCH_COUNT_KEY = Some (enc (rlp_u64 R) (of_nat (length ms)))"
    using rep by (auto simp: batches_rep_def)
  have u: "unat (of_nat (length ms) :: u64) = length ms" using lt by (rule unat_of_nat64)
  have "repair_count D s (of_nat (length ms)) False = Ok (of_nat (length ms), False)"
    using repair_count_eq [OF meta, of "of_nat (length ms)" False] u by simp
  with cnt show ?thesis
    by (simp add: get_batch_count_def monad_simps read_u64_def decode_all_def)
qed

lemma repaired_count_eq:
  assumes rep: "batches_rep R (view s) ms"
    and v: "view s' = (view s)(SEQUENCER_BATCH_COUNT_KEY \<mapsto> enc (rlp_u64 R) n)" and n: "length ms < unat n"
  obtains s'' where "get_batch_count D R s' = (Ok (of_nat (length ms)), s'')" and "view s'' = view s"
proof -
  let ?b = "batch_put new_batch SEQUENCER_BATCH_COUNT_KEY (enc (rlp_u64 R) (of_nat (length ms)))"
  have meta: "\<And>i. view s' (db_key SEQUENCER_BATCH_META_PREFIX i) \<noteq> None \<longleftrightarrow> unat i < length ms"
    using rep by (simp add: v batches_rep_def key_simps)
  have "repair_count D s' n False = Ok (of_nat (length ms), True)"
    using repair_count_eq [OF meta, of n False] n by simp
  moreover have "view s' SEQUENCER_BATCH_COUNT_KEY = Some (enc (rlp_u64 R) n)" by (simp add: v)
  moreover have "n \<noteq> 0" using n by auto
  ultimately have run: "get_batch_count D R s' = (Ok (of_nat (length ms)), after ?b s')"
    by (simp add: get_batch_count_def monad_simps read_u64_def decode_all_def write_eq)
  have "view s SEQUENCER_BATCH_COUNT_KEY = Some (enc (rlp_u64 R) (of_nat (length ms)))"
    using rep by (simp add: batches_rep_def)
  then have "view (after ?b s') = view s"
    by (simp add: v batch_put_def new_batch_def fun_upd_idem)
  with run that show thesis by blast
qed

end

section \<open>What recording delayed messages puts\<close>

text \<open>Each message at its position, after the accumulator of the ones before it.\<close>

fun put_delayed :: "keccak \<Rightarrow> b256 \<Rightarrow> u64 \<Rightarrow> bytes list \<Rightarrow> (bytes \<rightharpoonup> bytes) \<Rightarrow> (bytes \<rightharpoonup> bytes)" where
  "put_delayed K a p [] m = m"
| "put_delayed K a p (x # xs) m =
     put_delayed K (acc_from K a [x]) (p + 1) xs (m(db_key RLP_DELAYED_MESSAGE_PREFIX p \<mapsto> be256 a @ x))"

lemma put_delayed_at:
  "list_all well_formed xs \<Longrightarrow> unat p + length xs < 2 ^ 64 \<Longrightarrow>
   put_delayed K a p xs m (db_key RLP_DELAYED_MESSAGE_PREFIX i) =
     (if unat p \<le> unat i \<and> unat i < unat p + length xs
      then Some (be256 (acc_from K a (take (unat i - unat p) xs)) @ xs ! (unat i - unat p))
      else m (db_key RLP_DELAYED_MESSAGE_PREFIX i))"
proof (induction xs arbitrary: a p m)
  case Nil
  then show ?case by auto
next
  case (Cons x xs)
  have p1: "unat (p + 1) = unat p + 1" using Cons.prems by (simp add: unat_Suc64)
  have x: "acc_from K a (x # ys) = acc_from K (acc_from K a [x]) ys" for ys
    using Cons.prems(1) acc_from_append [of "[x]" K a ys] by simp
  show ?case
  proof (cases "unat i = unat p")
    case True
    then have "i = p" by (simp add: word_unat_eq_iff)
    with Cons p1 show ?thesis by simp
  next
    case False
    then have ne: "i \<noteq> p" by auto
    have idx: "unat p \<le> unat i \<Longrightarrow> unat i - unat p = Suc (unat i - (unat p + 1))" using False by simp
    have "put_delayed K a p (x # xs) m (db_key RLP_DELAYED_MESSAGE_PREFIX i) =
        (if unat p + 1 \<le> unat i \<and> unat i < unat p + 1 + length xs
         then Some (be256 (acc_from K (acc_from K a [x]) (take (unat i - (unat p + 1)) xs)) @
                    xs ! (unat i - (unat p + 1)))
         else m (db_key RLP_DELAYED_MESSAGE_PREFIX i))"
      using Cons.IH [of "p + 1"] Cons.prems p1 ne by (simp add: key_simps)
    moreover have "acc_from K a (x # take j xs) = acc_from K (acc_from K a [x]) (take j xs)" for j by (rule x)
    ultimately show ?thesis using idx False by (auto simp del: acc_from.simps put_delayed.simps)
  qed
qed

lemma put_delayed_other:
  "\<forall>i. k \<noteq> db_key RLP_DELAYED_MESSAGE_PREFIX i \<Longrightarrow> put_delayed K a p xs m k = m k"
  by (induction xs arbitrary: a p m) auto

text \<open>\<open>chained K a p msgs\<close>: the messages have the positions from \<open>p\<close> on and each names the
  accumulator the ones before it lead to.\<close>

fun chained :: "keccak \<Rightarrow> b256 \<Rightarrow> u64 \<Rightarrow> delayed_msg list \<Rightarrow> bool" where
  "chained K a p [] = True"
| "chained K a p ((n, before, b) # msgs) =
     (n = p \<and> before = a \<and> well_formed b \<and> chained K (acc_from K a [b]) (p + 1) msgs)"

abbreviation bodies :: "delayed_msg list \<Rightarrow> bytes list" where
  "bodies msgs \<equiv> map (\<lambda>(_, _, b). b) msgs"

lemma chained_well_formed: "chained K a p msgs \<Longrightarrow> list_all well_formed (bodies msgs)"
  by (induction K a p msgs rule: chained.induct) auto

lemma delayed_puts_chained:
  "chained K a p msgs \<Longrightarrow>
   \<exists>acc ops. delayed_puts K msgs p a b = Ok (p + of_nat (length msgs), acc, b @ ops) \<and>
     (\<forall>m. apply_ops ops m = put_delayed K a p (bodies msgs) m)"
proof (induction msgs arbitrary: a p b)
  case Nil
  then show ?case by (intro exI [of _ a] exI [of _ "[]"]) simp
next
  case (Cons msg msgs)
  obtain n before body where msg: "msg = (n, before, body)" by (cases msg)
  then obtain m where c: "n = p" "before = a" "parse_incoming_l1_message_legacy body = Ok m"
      "chained K (acc_after K a m) (p + 1) msgs"
    using Cons.prems by (auto simp: well_formed_def)
  let ?put = "Put (db_key RLP_DELAYED_MESSAGE_PREFIX p) (be256 a @ body)"
  obtain acc ops where "delayed_puts K msgs (p + 1) (acc_after K a m) (b @ [?put]) =
        Ok (p + 1 + of_nat (length msgs), acc, (b @ [?put]) @ ops)"
      "\<forall>m'. apply_ops ops m' = put_delayed K (acc_after K a m) (p + 1) (bodies msgs) m'"
    using Cons.IH [OF c(4), of "b @ [?put]"] by blast
  with msg c show ?case
    by (intro exI [of _ acc] exI [of _ "?put # ops"]) (simp add: batch_put_def algebra_simps)
qed

lemma delayed_puts_not_chained:
  "\<not> chained K a p msgs \<Longrightarrow> \<exists>e. delayed_puts K msgs p a b = Err e"
proof (induction msgs arbitrary: a p b)
  case Nil
  then show ?case by simp
next
  case (Cons msg msgs)
  obtain n before body where msg: "msg = (n, before, body)" by (cases msg)
  have "returns (parse_incoming_l1_message_legacy body)" by (rule parse_legacy_returns)
  then consider e where "parse_incoming_l1_message_legacy body = Err e"
    | m where "parse_incoming_l1_message_legacy body = Ok m"
    by (auto simp: returns_cases)
  then show ?case
    using Cons.prems msg by cases (auto simp: well_formed_def Let_def intro!: Cons.IH)
qed

section \<open>The batches a reorg of delayed messages keeps\<close>

text \<open>The batches that read no more than \<open>p\<close> delayed messages.\<close>

definition kept :: "u64 \<Rightarrow> BatchMetadata list \<Rightarrow> BatchMetadata list" where
  "kept p ms = takeWhile (\<lambda>b. bm_delayed_message_count b \<le> p) ms"

lemma kept_take: "kept p ms = take (length (kept p ms)) ms"
  unfolding kept_def by (rule takeWhile_eq_take)

lemma kept_iff:
  assumes "ascending ms" and "j < length ms"
  shows "bm_delayed_message_count (ms ! j) \<le> p \<longleftrightarrow> j < length (kept p ms)"
proof
  assume j: "bm_delayed_message_count (ms ! j) \<le> p"
  show "j < length (kept p ms)"
  proof (rule ccontr)
    assume "\<not> j < length (kept p ms)"
    moreover from this have n: "length (kept p ms) < length ms" using assms(2) by simp
    ultimately have "bm_delayed_message_count (ms ! length (kept p ms)) \<le> bm_delayed_message_count (ms ! j)"
      using assms by (cases "j = length (kept p ms)") (auto simp: ascending_def sorted_wrt_iff_nth_less)
    with j nth_length_takeWhile [of "\<lambda>b. bm_delayed_message_count b \<le> p" ms] n show False
      by (auto simp: kept_def)
  qed
next
  assume j: "j < length (kept p ms)"
  then have "kept p ms ! j \<in> set (kept p ms)" by simp
  then have "bm_delayed_message_count (kept p ms ! j) \<le> p"
    by (auto simp: kept_def dest: set_takeWhileD)
  moreover have "kept p ms ! j = ms ! j" using j by (simp add: kept_def takeWhile_nth)
  ultimately show "bm_delayed_message_count (ms ! j) \<le> p" by simp
qed

lemma length_kept: "length (kept p ms) \<le> length ms"
  by (simp add: kept_def length_takeWhile_le)

lemma sequences_kept:
  assumes "ascending ms"
  shows "sequences (kept p ms) d j \<longleftrightarrow> sequences ms d j \<and> d \<le> p"
proof -
  have "j < length (kept p ms) \<Longrightarrow> take j (kept p ms) = take j ms \<and> kept p ms ! j = ms ! j"
    using length_kept [of p ms] by (subst (1 2) kept_take) (simp add: min_def)
  with kept_iff [OF assms, of j p] length_kept [of p ms] show ?thesis
    by (auto simp: sequences_def)
qed

lemma last_delayed_kept: "last_delayed (kept p ms) \<le> p"
proof (cases "kept p ms = []")
  case True
  then show ?thesis by (simp add: last_delayed_def)
next
  case False
  then have "last (kept p ms) \<in> set (kept p ms)" by simp
  then have "bm_delayed_message_count (last (kept p ms)) \<le> p"
    unfolding kept_def by (blast dest: set_takeWhileD)
  with False show ?thesis by (simp add: last_delayed_def)
qed

text \<open>The first batch beyond is the one under the least key beyond \<open>p\<close>.\<close>

lemma first_dropped:
  assumes asc: "ascending ms" and n: "length (kept p ms) < length ms"
  defines "b \<equiv> bm_delayed_message_count (ms ! length (kept p ms))"
  shows "sequences ms b (length (kept p ms))" and "p < b"
    and "sequences ms d j \<Longrightarrow> p < d \<Longrightarrow> b \<le> d"
proof -
  let ?n = "length (kept p ms)"
  show pb: "p < b" using kept_iff [OF asc n, of p] by (simp add: b_def)
  have "last_delayed (take ?n ms) \<le> p" using last_delayed_kept [of p ms] by (subst (asm) kept_take)
  with n pb show "sequences ms b ?n" by (auto simp: sequences_def b_def)
  assume d: "sequences ms d j" "p < d"
  then have "j < length ms" "\<not> j < ?n" using kept_iff [OF asc, of j p] by (auto simp: sequences_def)
  then show "b \<le> d"
    using asc d(1) by (cases "j = ?n") (auto simp: sequences_def b_def ascending_def sorted_wrt_iff_nth_less)
qed

lemma db_key_le_iff: "db_key p i \<le> db_key p j \<longleftrightarrow> i \<le> j"
  by (auto simp: db_key_def uint64_to_key_def le_less append_less_append_iff be64_less_iff)

lemma less_plus_one: "unat p < 2 ^ 64 - 1 \<Longrightarrow> p + 1 \<le> d \<longleftrightarrow> p < (d :: u64)"
  by (simp add: word_le_nat_alt word_less_nat_alt unat_Suc64 Suc_le_eq)

lemma reorg_seq_batches_eq:
  "\<forall>e \<in> set es. \<exists>j. decode_all (rlp_u64 R) (snd e) = Ok j \<Longrightarrow>
   reorg_seq_batches R True n es b c = Ok (b @ map Del (map fst es),
     case c of Some x \<Rightarrow> Some x
     | None \<Rightarrow> (case es of [] \<Rightarrow> None
                | e # _ \<Rightarrow> (case decode_all (rlp_u64 R) (snd e) of Ok j \<Rightarrow> Some j | _ \<Rightarrow> None)))"
  by (induction R True n es b c rule: reorg_seq_batches.induct)
     (auto simp: batch_delete_def split: option.split)

text \<open>
  What the contents are after recording \<open>xs\<close> from position \<open>p\<close> up to \<open>q\<close>, when the batch
  count was set to \<open>n\<close> (or left alone).
\<close>

definition recorded ::
    "rlp \<Rightarrow> keccak \<Rightarrow> b256 \<Rightarrow> u64 \<Rightarrow> bytes list \<Rightarrow> u64 \<Rightarrow> u64 option \<Rightarrow> (bytes \<rightharpoonup> bytes) \<Rightarrow> (bytes \<rightharpoonup> bytes)"
where
  "recorded R K a p xs q n m =
     (let m = wipe LEGACY_DELAYED_MESSAGE_PREFIX q (wipe PARENT_CHAIN_BLOCK_NUMBER_PREFIX q
                (wipe RLP_DELAYED_MESSAGE_PREFIX q (put_delayed K a p xs m)));
          m = wipe DELAYED_SEQUENCED_PREFIX (p + 1) (m(DELAYED_MESSAGE_COUNT_KEY \<mapsto> enc (rlp_u64 R) q))
      in case n of Some n \<Rightarrow> m(SEQUENCER_BATCH_COUNT_KEY \<mapsto> enc (rlp_u64 R) n) | None \<Rightarrow> m)"

lemma put_delayed_frame:
  "x \<noteq> 0x65 \<Longrightarrow> put_delayed K a p xs m (db_key [x] i) = m (db_key [x] i)"
  "put_delayed K a p xs m DELAYED_MESSAGE_COUNT_KEY = m DELAYED_MESSAGE_COUNT_KEY"
  "put_delayed K a p xs m SEQUENCER_BATCH_COUNT_KEY = m SEQUENCER_BATCH_COUNT_KEY"
  by (rule put_delayed_other, auto simp: key_simps)+

text \<open>None of it touches the streamer's keys.\<close>

lemma tracker_key_not_stream:
  assumes "stream_key k"
    and "p \<in> {RLP_DELAYED_MESSAGE_PREFIX, LEGACY_DELAYED_MESSAGE_PREFIX, PARENT_CHAIN_BLOCK_NUMBER_PREFIX,
      SEQUENCER_BATCH_META_PREFIX, DELAYED_SEQUENCED_PREFIX}"
  shows "\<not> in_range p n k" "k \<noteq> db_key p i"
proof -
  have "\<not> prefix p k" using assms by (auto simp: stream_key_def prefixes_eval count_keys_eval prefix_def)
  then show "\<not> in_range p n k" "k \<noteq> db_key p i" by (auto simp: in_range_def db_key_def)
qed

lemma tracker_counts_not_stream:
  "stream_key k \<Longrightarrow> k \<noteq> DELAYED_MESSAGE_COUNT_KEY \<and> k \<noteq> SEQUENCER_BATCH_COUNT_KEY"
  by (auto simp: key_simps)

lemma recorded_stream: "stream_key k \<Longrightarrow> recorded R K a p xs q n m k = m k"
  using tracker_key_not_stream [of k] tracker_counts_not_stream [of k] put_delayed_other [of k]
  by (auto simp: recorded_def wipe_def Let_def split: option.split)

lemma put_delayed_in_range:
  assumes "unat q = unat p + length xs" and "list_all well_formed xs" and "in_range [x] n k"
    and "x = 0x65 \<Longrightarrow> n = q"
  shows "put_delayed K a p xs m k = m k"
proof (cases "\<exists>i. k = db_key RLP_DELAYED_MESSAGE_PREFIX i")
  case True
  then obtain i where i: "k = db_key RLP_DELAYED_MESSAGE_PREFIX i" by blast
  then have "x = 0x65" using assms(3) by (simp add: key_simps)
  then have "unat q \<le> unat i" using assms(3,4) i by (simp add: key_simps word_le_nat_alt)
  moreover have "unat p + length xs < 2 ^ 64" using assms(1) unat_lt2p [of q] by simp
  ultimately show ?thesis using put_delayed_at [OF assms(2), of p K a m i] assms(1) i by simp
qed (simp add: put_delayed_other)

lemma recorded_delayed:
  assumes rep: "delayed_rep R K m dms" and p: "unat p \<le> length dms"
    and new: "unat p + length xs < 2 ^ 64 - 1" "q = p + of_nat (length xs)"
    and wf: "list_all well_formed xs" and a: "a = acc_from K 0 (take (unat p) dms)"
    and m': "\<And>x i. x \<noteq> 0x73 \<Longrightarrow> m' (db_key [x] i) = m (db_key [x] i)"
  shows "delayed_rep R K (recorded R K a p xs q n m') (take (unat p) dms @ xs)"
proof -
  have uq: "unat q = unat p + length xs" using new by (simp add: unat_plus64 unat_of_nat64)
  have of_q: "of_nat (length (take (unat p) dms @ xs)) = q" using p new(2) by simp
  have wf_old: "list_all well_formed (take (unat p) dms)"
    using rep by (auto simp: delayed_rep_def list_all_iff dest: in_set_takeD)
  have at: "put_delayed K a p xs m' (db_key RLP_DELAYED_MESSAGE_PREFIX i) =
      (if unat i < unat q then
         Some (be256 (acc_from K 0 (take (unat i) (take (unat p) dms @ xs))) @ (take (unat p) dms @ xs) ! unat i)
       else m (db_key RLP_DELAYED_MESSAGE_PREFIX i))" for i
  proof -
    have "take (unat i) (take (unat p) dms @ xs) = take (unat p) dms @ take (unat i - unat p) xs"
      if "unat p \<le> unat i" using that p by (simp add: min_def)
    moreover have "acc_from K 0 (take (unat p) dms @ ys) = acc_from K a ys" for ys
      using acc_from_append [OF wf_old] a by simp
    moreover have "(take (unat p) dms @ xs) ! unat i =
        (if unat i < unat p then dms ! unat i else xs ! (unat i - unat p))"
      using p by (simp add: nth_append)
    moreover have "m' (db_key RLP_DELAYED_MESSAGE_PREFIX i) = m (db_key RLP_DELAYED_MESSAGE_PREFIX i)"
      by (simp add: prefixes_eval m')
    moreover have "m (db_key RLP_DELAYED_MESSAGE_PREFIX i) =
        (if unat i < length dms then Some (be256 (acc_from K 0 (take (unat i) dms)) @ dms ! unat i) else None)"
      using rep by (simp add: delayed_rep_def)
    ultimately show ?thesis
      using put_delayed_at [OF wf, of p K a m' i] uq new p by (auto simp: min_def)
  qed
  show ?thesis
    unfolding delayed_rep_def
  proof (intro conjI allI)
    show "length (take (unat p) dms @ xs) < 2 ^ 64 - 1" using new p by simp
    show "list_all well_formed (take (unat p) dms @ xs)" using wf wf_old by simp
    show "recorded R K a p xs q n m' (db_key RLP_DELAYED_MESSAGE_PREFIX i) =
       (if unat i < length (take (unat p) dms @ xs)
        then Some (be256 (acc_from K 0 (take (unat i) (take (unat p) dms @ xs))) @ (take (unat p) dms @ xs) ! unat i)
        else None)" for i
      using at [of i] uq p
      by (simp add: recorded_def Let_def key_simps word_le_nat_alt split: option.split)
    show "recorded R K a p xs q n m' (db_key LEGACY_DELAYED_MESSAGE_PREFIX i) = None"
      "recorded R K a p xs q n m' (db_key PARENT_CHAIN_BLOCK_NUMBER_PREFIX i) = None" for i
      using rep m'
      by (simp_all add: recorded_def Let_def key_simps put_delayed_frame delayed_rep_def split: option.split)
    show "recorded R K a p xs q n m' DELAYED_MESSAGE_COUNT_KEY =
        Some (enc (rlp_u64 R) (of_nat (length (take (unat p) dms @ xs))))"
      unfolding of_q by (simp add: recorded_def Let_def key_simps split: option.split)
  qed
qed

lemma recorded_batches:
  assumes rep: "batches_rep R m ms" and p: "unat p < 2 ^ 64 - 1"
  defines "len \<equiv> length (kept p ms)"
  defines "dropped \<equiv> len < length ms"
  defines "m' \<equiv> (if dropped then wipe SEQUENCER_BATCH_META_PREFIX (of_nat len) m else m)"
  shows "batches_rep R (recorded R K a p xs q (if dropped then Some (of_nat len) else None) m') (kept p ms)"
proof -
  let ?m = "recorded R K a p xs q (if dropped then Some (of_nat len) else None) m'"
  have asc: "ascending ms" and lt: "length ms < 2 ^ 64 - 1" using rep by (simp_all add: batches_rep_def)
  have le: "len \<le> length ms" using length_kept by (simp add: len_def)
  then have ulen: "unat (of_nat len :: u64) = len" using lt by (intro unat_of_nat64) simp
  have meta: "?m (db_key SEQUENCER_BATCH_META_PREFIX i) = m' (db_key SEQUENCER_BATCH_META_PREFIX i)" for i
    by (simp add: recorded_def Let_def key_simps put_delayed_frame split: option.split)
  have seq: "?m (db_key DELAYED_SEQUENCED_PREFIX d) =
      (if p < d then None else m (db_key DELAYED_SEQUENCED_PREFIX d))" for d
    using less_plus_one [OF p, of d]
    by (simp add: recorded_def Let_def key_simps put_delayed_frame m'_def split: option.split)
  have other: "?m k = None \<or> ?m k = m k" if "prefix DELAYED_SEQUENCED_PREFIX k" for k
  proof -
    have "\<forall>i. k \<noteq> db_key RLP_DELAYED_MESSAGE_PREFIX i" "k \<noteq> DELAYED_MESSAGE_COUNT_KEY"
      "k \<noteq> SEQUENCER_BATCH_COUNT_KEY"
      using that by (auto simp: prefixes_eval db_key_def count_keys_eval)
    then show ?thesis
      by (auto simp: recorded_def Let_def wipe_def m'_def put_delayed_other split: option.split)
  qed
  show ?thesis
    unfolding batches_rep_def
  proof (intro conjI allI impI)
    show "length (kept p ms) < 2 ^ 64 - 1" using le lt by (simp add: len_def)
    show "ascending (kept p ms)" using asc by (simp add: ascending_def kept_def sorted_wrt_takeWhile)
    show "?m (db_key SEQUENCER_BATCH_META_PREFIX i) =
        (if unat i < length (kept p ms) then Some (encode_metadata R (kept p ms ! unat i)) else None)" for i
    proof -
      have "unat i < len \<Longrightarrow> kept p ms ! unat i = ms ! unat i"
        by (simp add: len_def kept_def takeWhile_nth)
      moreover have "m (db_key SEQUENCER_BATCH_META_PREFIX i) =
          (if unat i < length ms then Some (encode_metadata R (ms ! unat i)) else None)"
        using rep by (simp add: batches_rep_def)
      ultimately show ?thesis
        using le ulen unfolding meta by (auto simp: m'_def dropped_def wipe_def in_range_db_key prefixes_eval
            word_le_nat_alt simp flip: len_def)
    qed
    show "?m SEQUENCER_BATCH_COUNT_KEY = Some (enc (rlp_u64 R) (of_nat (length (kept p ms))))"
      using rep le
      by (auto simp: recorded_def Let_def key_simps put_delayed_frame m'_def dropped_def batches_rep_def
          simp flip: len_def)
    show "?m (db_key DELAYED_SEQUENCED_PREFIX d) = Some v \<longleftrightarrow>
        (\<exists>j. sequences (kept p ms) d j \<and> v = enc (rlp_u64 R) (of_nat j))" for d v
    proof -
      have "m (db_key DELAYED_SEQUENCED_PREFIX d) = Some v \<longleftrightarrow>
          (\<exists>j. sequences ms d j \<and> v = enc (rlp_u64 R) (of_nat j))"
        using rep by (simp add: batches_rep_def)
      then show ?thesis unfolding seq sequences_kept [OF asc] by auto
    qed
    show "\<exists>d. k = db_key DELAYED_SEQUENCED_PREFIX d"
      if "prefix DELAYED_SEQUENCED_PREFIX k" "?m k \<noteq> None" for k
      using other [OF that(1)] that rep by (auto simp: batches_rep_def)
  qed
qed

lemma coherent_kept:
  assumes co: "coherent c ms" and rep: "batches_rep R m ms"
    and sub: "\<And>k v. c' k = Some v \<Longrightarrow> c k = Some v \<and>
      (length (kept p ms) < length ms \<longrightarrow> of_nat (length (kept p ms)) \<le> k \<longrightarrow>
        m (db_key SEQUENCER_BATCH_META_PREFIX k) = None)"
  shows "coherent c' (kept p ms)"
  unfolding coherent_def
proof (intro allI impI)
  fix k v
  assume v: "c' k = Some v"
  let ?n = "length (kept p ms)"
  have le: "?n \<le> length ms" "length ms < 2 ^ 64"
    using length_kept rep by (auto simp: batches_rep_def)
  then have un: "unat (of_nat ?n :: u64) = ?n" by (intro unat_of_nat64) simp
  have k: "unat k < length ms" "v = ms ! unat k" using sub [OF v] co by (auto simp: coherent_def)
  have "unat k < ?n"
  proof (rule ccontr)
    assume not: "\<not> unat k < ?n"
    then have "m (db_key SEQUENCER_BATCH_META_PREFIX k) = None"
      using sub [OF v] k un by (simp add: word_le_nat_alt)
    with k rep show False by (simp add: batches_rep_def)
  qed
  with k show "unat k < ?n \<and> v = kept p ms ! unat k"
    by (simp add: kept_def takeWhile_nth)
qed

context tracker_node begin

lemma sequenced_entries:
  assumes rep: "batches_rep R (view s) ms" and p: "unat p < 2 ^ 64 - 1"
  obtains es where "db_scan D s DELAYED_SEQUENCED_PREFIX (uint64_to_key (p + 1)) = (es, None)"
    and "map fst es = scan_keys D s DELAYED_SEQUENCED_PREFIX (p + 1)"
    and "\<forall>e \<in> set es. \<exists>j. decode_all (rlp_u64 R) (snd e) = Ok j"
    and "(case es of [] \<Rightarrow> None
          | e # _ \<Rightarrow> (case decode_all (rlp_u64 R) (snd e) of Ok j \<Rightarrow> Some j | _ \<Rightarrow> None)) =
         (if length (kept p ms) < length ms then Some (of_nat (length (kept p ms))) else None)"
proof -
  let ?q = DELAYED_SEQUENCED_PREFIX let ?n = "length (kept p ms)"
  have asc: "ascending ms" using rep by (simp add: batches_rep_def)
  have val: "view s (db_key ?q d) = Some v \<longleftrightarrow> (\<exists>j. sequences ms d j \<and> v = enc (rlp_u64 R) (of_nat j))" for d v
    using rep by (simp add: batches_rep_def)
  obtain es where es: "db_scan D s ?q (uint64_to_key (p + 1)) = (es, None)"
    using scan_ok [of s ?q "uint64_to_key (p + 1)"] by (metis prod.collapse)
  have set_es: "set es = {(k, v). view s k = Some v \<and> in_range ?q (p + 1) k}"
    using scan_entries [of s ?q "uint64_to_key (p + 1)"] es by (simp add: in_range_def)
  have sorted_es: "sorted_wrt (<) (map fst es)"
    using scan_ascending [of s ?q "uint64_to_key (p + 1)"] es by simp
  have elem: "\<exists>d j. e = (db_key ?q d, enc (rlp_u64 R) (of_nat j)) \<and> sequences ms d j \<and> p < d"
    if "e \<in> set es" for e
  proof -
    obtain k v where e: "e = (k, v)" by (cases e)
    with that have e: "e = (k, v)" "view s k = Some v" "in_range ?q (p + 1) k"
      by (simp_all add: set_es)
    then obtain d where d: "k = db_key ?q d"
      using rep by (auto simp: batches_rep_def in_range_def)
    with e val obtain j where "sequences ms d j" "v = enc (rlp_u64 R) (of_nat j)" by blast
    moreover have "p < d" using e(3) less_plus_one [OF p] by (simp add: d key_simps)
    ultimately show ?thesis using e d by blast
  qed
  have vals: "\<forall>e \<in> set es. \<exists>j. decode_all (rlp_u64 R) (snd e) = Ok j"
    using elem by (fastforce simp: decode_all_def)
  have first: "(case es of [] \<Rightarrow> None
          | e # _ \<Rightarrow> (case decode_all (rlp_u64 R) (snd e) of Ok j \<Rightarrow> Some j | _ \<Rightarrow> None)) =
         (if ?n < length ms then Some (of_nat ?n) else None)"
  proof (cases "?n < length ms")
    case False
    have "es = []"
    proof (rule ccontr)
      assume "es \<noteq> []"
      then obtain d j where "sequences ms d j" "p < d" using elem [of "hd es"] by auto
      moreover from this have "j < ?n" using False length_kept [of p ms] by (auto simp: sequences_def)
      ultimately show False using kept_iff [OF asc, of j p] by (auto simp: sequences_def)
    qed
    with False show ?thesis by simp
  next
    case True
    let ?b = "bm_delayed_message_count (ms ! ?n)"
    note fd = first_dropped [OF asc True]
    have view_b: "view s (db_key ?q ?b) = Some (enc (rlp_u64 R) (of_nat ?n))" using val fd(1) by blast
    then have "(db_key ?q ?b, enc (rlp_u64 R) (of_nat ?n)) \<in> set es"
      using fd(2) less_plus_one [OF p] unfolding set_es by (simp add: key_simps)
    moreover then obtain e es' where ees: "es = e # es'" by (cases es) auto
    moreover obtain d j where e: "e = (db_key ?q d, enc (rlp_u64 R) (of_nat j))" "sequences ms d j" "p < d"
      using elem [of e] ees by auto
    moreover have "db_key ?q ?b \<le> db_key ?q d" using fd(3) [OF e(2,3)] by (simp add: db_key_le_iff)
    ultimately have "db_key ?q d = db_key ?q ?b" using sorted_es by fastforce
    moreover have "view s (db_key ?q d) = Some (enc (rlp_u64 R) (of_nat j))" using val e(2) by blast
    ultimately have "snd e = enc (rlp_u64 R) (of_nat ?n)" using view_b e(1) by simp
    with True ees show ?thesis by (simp add: decode_all_def)
  qed
  have "map fst es = scan_keys D s ?q (p + 1)" by (simp add: scan_keys_def es)
  with es vals first show thesis using that by blast
qed

text \<open>
  Recording messages from position \<open>p\<close> on: the batch it writes, together with what was written
  before it, gives the delayed messages up to \<open>p\<close>, the new ones, and the batches that read no
  more than \<open>p\<close> of them.
\<close>

lemma set_delayed_count_eq:
  assumes rep: "rep t dms ms" and p: "unat p \<le> length dms"
    and new: "unat p + length xs < 2 ^ 64 - 1" "q = p + of_nat (length xs)"
    and wf: "list_all well_formed xs" and a: "a = acc_from K 0 (take (unat p) dms)"
    and b: "\<And>m. apply_ops b m = put_delayed K a p xs m"
  obtains t' b' where "set_delayed_count_reorg_and_write_batch ev b p q True t = (Ok b', t')"
    and "\<And>t2. view (tr_db t2) = apply_ops b' (view (tr_db t')) \<Longrightarrow> tr_cache t2 = tr_cache t' \<Longrightarrow>
      rep t2 (take (unat p) dms @ xs) (kept p ms) \<and> (\<forall>k. stream_key k \<longrightarrow> view (tr_db t2) k = view (tr_db t) k)"
proof -
  let ?n = "length (kept p ms)" let ?dropped = "?n < length ms"
  let ?cnt = "if ?dropped then Some (of_nat ?n) else None :: u64 option"
  have inbox: "delayed_rep R K (view (tr_db t)) dms" "batches_rep R (view (tr_db t)) ms"
      "coherent (cached (tr_cache t)) ms"
    using rep by (simp_all add: rep_def inbox_rep_def)
  have p': "unat p < 2 ^ 64 - 1" using p inbox(1) by (simp add: delayed_rep_def)
  have uq: "unat q = unat p + length xs" using new by (simp add: unat_plus64 unat_of_nat64)
  obtain es where es: "db_scan D (tr_db t) DELAYED_SEQUENCED_PREFIX (uint64_to_key (p + 1)) = (es, None)"
      "map fst es = scan_keys D (tr_db t) DELAYED_SEQUENCED_PREFIX (p + 1)"
      "\<forall>e \<in> set es. \<exists>j. decode_all (rlp_u64 R) (snd e) = Ok j"
    and first: "(case es of [] \<Rightarrow> None
          | e # _ \<Rightarrow> (case decode_all (rlp_u64 R) (snd e) of Ok j \<Rightarrow> Some j | _ \<Rightarrow> None)) = ?cnt"
    by (rule sequenced_entries [OF inbox(2) p'])
  let ?S = "scan_keys D (tr_db t)"
  let ?b = "b @ map Del (?S RLP_DELAYED_MESSAGE_PREFIX q) @ map Del (?S PARENT_CHAIN_BLOCK_NUMBER_PREFIX q)
    @ map Del (?S LEGACY_DELAYED_MESSAGE_PREFIX q) @ [Put DELAYED_MESSAGE_COUNT_KEY (enc (rlp_u64 R) q)]
    @ map Del (?S DELAYED_SEQUENCED_PREFIX (p + 1))"
  let ?b' = "?b @ (case ?cnt of Some n \<Rightarrow> [Put SEQUENCER_BATCH_COUNT_KEY (enc (rlp_u64 R) n)] | None \<Rightarrow> [])"
  obtain t' where del: "?dropped \<Longrightarrow> delete_batch_metadata_starting_at ev (of_nat ?n) t = (Ok (), t')"
    and keep: "\<not> ?dropped \<Longrightarrow> t' = t"
    and view': "view (tr_db t') = (if ?dropped then wipe SEQUENCER_BATCH_META_PREFIX (of_nat ?n) (view (tr_db t))
        else view (tr_db t))"
    and cache: "\<And>k v. cached (tr_cache t') k = Some v \<Longrightarrow> cached (tr_cache t) k = Some v \<and>
      (?dropped \<longrightarrow> of_nat ?n \<le> k \<longrightarrow> view (tr_db t) (db_key SEQUENCER_BATCH_META_PREFIX k) = None)"
  proof (cases ?dropped)
    case True
    obtain t1 where t1: "delete_batch_metadata_starting_at ev (of_nat ?n) t = (Ok (), t1)"
      "view (tr_db t1) = wipe SEQUENCER_BATCH_META_PREFIX (of_nat ?n) (view (tr_db t))"
      "\<And>k v. cached (tr_cache t1) k = Some v \<Longrightarrow> cached (tr_cache t) k = Some v \<and>
        (of_nat ?n \<le> k \<longrightarrow> view (tr_db t) (db_key SEQUENCER_BATCH_META_PREFIX k) = None)"
      by (rule delete_metadata_eq [of "of_nat ?n" t]) blast
    show thesis by (rule that [of t1]) (use True t1 in auto)
  next
    case False
    show thesis by (rule that [of t]) (use False in auto)
  qed
  have run: "set_delayed_count_reorg_and_write_batch ev b p q True t = (Ok ?b', t')"
  proof -
    have "\<not> q < p" using uq by (simp add: word_less_nat_alt)
    then show ?thesis
      using es reorg_seq_batches_eq [OF es(3), of q _ None] first del keep
      by (simp add: set_delayed_count_reorg_and_write_batch_def monad_simps db_read_def
          delete_starting_at_eq batch_put_def Let_def)
  qed
  have below: "below (view (tr_db t')) (view (tr_db t))" unfolding view' by simp
  have fin: "apply_ops ?b' (view (tr_db t')) = recorded R K a p xs q ?cnt (view (tr_db t'))"
  proof -
    let ?m = "view (tr_db t')" let ?m1 = "put_delayed K a p xs ?m"
    let ?m2 = "wipe LEGACY_DELAYED_MESSAGE_PREFIX q (wipe PARENT_CHAIN_BLOCK_NUMBER_PREFIX q
        (wipe RLP_DELAYED_MESSAGE_PREFIX q ?m1))"
    have frame: "in_range [x] n k \<Longrightarrow> (x = 0x65 \<Longrightarrow> n = q) \<Longrightarrow> ?m1 k \<noteq> None \<Longrightarrow> view (tr_db t) k \<noteq> None" for x n k
      using put_delayed_in_range [OF uq wf, of x n k K a ?m] below by (auto simp: below_def)
    have 1: "apply_ops (map Del (?S RLP_DELAYED_MESSAGE_PREFIX q)) ?m1 = wipe RLP_DELAYED_MESSAGE_PREFIX q ?m1"
      by (rule apply_scan_keys) (use frame in \<open>auto simp: prefixes_eval\<close>)
    have 2: "apply_ops (map Del (?S PARENT_CHAIN_BLOCK_NUMBER_PREFIX q)) (wipe RLP_DELAYED_MESSAGE_PREFIX q ?m1) =
        wipe PARENT_CHAIN_BLOCK_NUMBER_PREFIX q (wipe RLP_DELAYED_MESSAGE_PREFIX q ?m1)"
      by (rule apply_scan_keys) (use frame in \<open>auto simp: prefixes_eval wipe_def split: if_splits\<close>)
    have 3: "apply_ops (map Del (?S LEGACY_DELAYED_MESSAGE_PREFIX q))
        (wipe PARENT_CHAIN_BLOCK_NUMBER_PREFIX q (wipe RLP_DELAYED_MESSAGE_PREFIX q ?m1)) = ?m2"
      by (rule apply_scan_keys) (use frame in \<open>auto simp: prefixes_eval wipe_def split: if_splits\<close>)
    have 4: "apply_ops (map Del (?S DELAYED_SEQUENCED_PREFIX (p + 1)))
        (?m2(DELAYED_MESSAGE_COUNT_KEY \<mapsto> enc (rlp_u64 R) q)) =
        wipe DELAYED_SEQUENCED_PREFIX (p + 1) (?m2(DELAYED_MESSAGE_COUNT_KEY \<mapsto> enc (rlp_u64 R) q))"
    proof (rule apply_scan_keys)
      fix k assume k: "in_range DELAYED_SEQUENCED_PREFIX (p + 1) k"
        "(?m2(DELAYED_MESSAGE_COUNT_KEY \<mapsto> enc (rlp_u64 R) q)) k \<noteq> None"
      then have "k \<noteq> DELAYED_MESSAGE_COUNT_KEY" by (auto simp: key_simps)
      with k have "?m1 k \<noteq> None" by (auto simp: wipe_def split: if_splits)
      with k(1) frame [of "0x61" "p + 1" k] show "view (tr_db t) k \<noteq> None" by (simp add: prefixes_eval)
    qed
    show ?thesis
      using 4 by (simp add: b 1 2 3 recorded_def Let_def del: fun_upd_apply split: option.split)
  qed
  show thesis
  proof (rule that [OF run])
    fix t2 :: "('db, 'c) tracker"
    assume t2: "view (tr_db t2) = apply_ops ?b' (view (tr_db t'))" "tr_cache t2 = tr_cache t'"
    have v2: "view (tr_db t2) = recorded R K a p xs q ?cnt (view (tr_db t'))" unfolding t2(1) fin ..
    have "delayed_rep R K (view (tr_db t2)) (take (unat p) dms @ xs)"
      unfolding v2 by (rule recorded_delayed [OF inbox(1) p new wf a])
        (simp add: view' wipe_def in_range_db_key prefixes_eval)
    moreover have "batches_rep R (view (tr_db t2)) (kept p ms)"
      unfolding v2 view' by (rule recorded_batches [OF inbox(2) p'])
    moreover have "coherent (cached (tr_cache t2)) (kept p ms)"
      unfolding t2(2) by (rule coherent_kept [OF inbox(3,2) cache])
    moreover have "unat (last_delayed (kept p ms)) \<le> length (take (unat p) dms @ xs)"
      using last_delayed_kept [of p ms] p by (simp add: word_le_nat_alt)
    moreover have "view (tr_db t2) k = view (tr_db t) k" if "stream_key k" for k
      using tracker_key_not_stream [OF that, of SEQUENCER_BATCH_META_PREFIX]
      unfolding v2 recorded_stream [OF that] view' by (simp add: wipe_def)
    ultimately show "rep t2 (take (unat p) dms @ xs) (kept p ms) \<and>
        (\<forall>k. stream_key k \<longrightarrow> view (tr_db t2) k = view (tr_db t) k)"
      by (simp add: rep_def inbox_rep_def)
  qed
qed

section \<open>Recording delayed messages\<close>

lemma previous_acc:
  assumes "delayed_rep R K (view s) dms" and "unat p \<le> length dms" and "p \<noteq> 0"
  shows "get_delayed_acc D K s (p - 1) = Ok (acc_from K 0 (take (unat p) dms))"
proof -
  have "unat (p - 1) = unat p - 1" "0 < unat p"
    using assms(3) by (simp_all add: unat_minus_one unat_gt_0)
  with get_delayed_acc_eq [OF assms(1), of "p - 1"] assms(2) show ?thesis by simp
qed

lemma hd_msgs: "msgs \<noteq> [] \<Longrightarrow> chained K a p msgs \<Longrightarrow> fst (hd msgs) = p"
  by (cases msgs) auto

text \<open>Without snap sync.\<close>

lemma add_delayed_start:
  assumes "msgs \<noteq> []" and "fst (hd msgs) = p" and "delayed_rep R K (view (tr_db t)) dms"
    and "unat p \<le> length dms"
  defines "a \<equiv> acc_from K 0 (take (unat p) dms)"
  shows "add_delayed_messages ev msgs None t =
    bindM (liftR (delayed_puts K msgs p a new_batch)) (\<lambda>(end_pos, _, b).
      bindM (set_delayed_count_reorg_and_write_batch ev b p end_pos True) (\<lambda>b. db_op (db_write D b))) t"
proof (cases "p = 0")
  case True
  with assms show ?thesis by (simp add: add_delayed_messages_def Let_def monad_simps)
next
  case False
  then have "get_delayed_acc D K (tr_db t) (p - 1) = Ok a"
    using previous_acc [OF assms(3,4)] by (simp add: a_def)
  with False assms(1,2) show ?thesis
    by (simp add: add_delayed_messages_def Let_def monad_simps db_read_def word_gt_0)
qed

lemma add_delayed_refines:
  assumes rep: "rep t dms ms" and ne: "msgs \<noteq> []" and p: "unat p \<le> length dms"
    and new: "unat p + length msgs < 2 ^ 64 - 1"
    and chain: "chained K (acc_from K 0 (take (unat p) dms)) p msgs"
  obtains t' where "add_delayed_messages ev msgs None t = (Ok (), t')"
    and "rep t' (take (unat p) dms @ bodies msgs) (kept p ms)"
    and "\<And>k. stream_key k \<Longrightarrow> view (tr_db t') k = view (tr_db t) k"
proof -
  let ?a = "acc_from K 0 (take (unat p) dms)" let ?q = "p + of_nat (length msgs)"
  have drep: "delayed_rep R K (view (tr_db t)) dms" using rep by (simp add: rep_def inbox_rep_def)
  obtain acc ops where puts: "delayed_puts K msgs p ?a new_batch = Ok (?q, acc, ops)"
    and ops: "\<And>m. apply_ops ops m = put_delayed K ?a p (bodies msgs) m"
    using delayed_puts_chained [OF chain, of new_batch] by (auto simp: new_batch_def)
  have new': "unat p + length (bodies msgs) < 2 ^ 64 - 1" "?q = p + of_nat (length (bodies msgs))"
    using new by simp_all
  obtain t1 b' where run: "set_delayed_count_reorg_and_write_batch ev ops p ?q True t = (Ok b', t1)"
    and fin: "\<And>t2. view (tr_db t2) = apply_ops b' (view (tr_db t1)) \<Longrightarrow> tr_cache t2 = tr_cache t1 \<Longrightarrow>
      rep t2 (take (unat p) dms @ bodies msgs) (kept p ms) \<and>
      (\<forall>k. stream_key k \<longrightarrow> view (tr_db t2) k = view (tr_db t) k)"
    by (rule set_delayed_count_eq [OF rep p new' chained_well_formed [OF chain] refl ops]) blast
  let ?t2 = "t1\<lparr>tr_db := after b' (tr_db t1)\<rparr>"
  have "add_delayed_messages ev msgs None t = (Ok (), ?t2)"
    using run
    by (simp add: add_delayed_start [OF ne hd_msgs [OF ne chain] drep p] puts monad_simps db_op_def write_eq)
  moreover have "rep ?t2 (take (unat p) dms @ bodies msgs) (kept p ms) \<and>
      (\<forall>k. stream_key k \<longrightarrow> view (tr_db ?t2) k = view (tr_db t) k)"
    by (rule fin) simp_all
  ultimately show thesis using that by blast
qed

lemma add_delayed_rejects:
  assumes rep: "rep t dms ms" and ne: "msgs \<noteq> []" and p: "fst (hd msgs) = p"
    and bad: "length dms < unat p \<or> \<not> chained K (acc_from K 0 (take (unat p) dms)) p msgs"
  shows "\<exists>e. add_delayed_messages ev msgs None t = (Err e, t)"
proof -
  have drep: "delayed_rep R K (view (tr_db t)) dms" using rep by (simp add: rep_def inbox_rep_def)
  show ?thesis
  proof (cases "length dms < unat p")
    case True
    then have nz: "p \<noteq> 0" by auto
    then have "unat (p - 1) = unat p - 1" by (simp add: unat_minus_one)
    then have "get_delayed_acc D K (tr_db t) (p - 1) =
        Err (Bail ''accumulator not found: delayed {}'' [unat (p - 1)])"
      using True get_delayed_acc_eq [OF drep, of "p - 1"] by simp
    with ne p nz show ?thesis
      by (simp add: add_delayed_messages_def Let_def monad_simps db_read_def word_gt_0)
  next
    case False
    then have le: "unat p \<le> length dms" by simp
    obtain e where "delayed_puts K msgs p (acc_from K 0 (take (unat p) dms)) new_batch = Err e"
      using bad False delayed_puts_not_chained by blast
    then show ?thesis by (simp add: add_delayed_start [OF ne p drep le] monad_simps)
  qed
qed

lemma reorg_delayed_refines:
  assumes rep: "rep t dms ms" and p: "unat p \<le> length dms"
  obtains t' where "reorg_delayed_to ev p t = (Ok (), t')" and "rep t' (take (unat p) dms) (kept p ms)"
    and "\<And>k. stream_key k \<Longrightarrow> view (tr_db t') k = view (tr_db t) k"
proof -
  have lt: "unat p + length ([] :: bytes list) < 2 ^ 64 - 1"
    using p rep by (simp add: rep_def inbox_rep_def delayed_rep_def)
  have q: "p = p + of_nat (length ([] :: bytes list))" and wf: "list_all well_formed []" by simp_all
  have b: "\<And>m. apply_ops new_batch m = put_delayed K (acc_from K 0 (take (unat p) dms)) p [] m"
    by (simp add: new_batch_def)
  obtain t1 b' where run: "set_delayed_count_reorg_and_write_batch ev new_batch p p True t = (Ok b', t1)"
    and fin: "\<And>t2. view (tr_db t2) = apply_ops b' (view (tr_db t1)) \<Longrightarrow> tr_cache t2 = tr_cache t1 \<Longrightarrow>
      rep t2 (take (unat p) dms @ []) (kept p ms) \<and> (\<forall>k. stream_key k \<longrightarrow> view (tr_db t2) k = view (tr_db t) k)"
    by (rule set_delayed_count_eq [OF rep p lt q wf refl b]) blast
  have "reorg_delayed_to ev p t = (Ok (), t1\<lparr>tr_db := after b' (tr_db t1)\<rparr>)"
    using run by (simp add: reorg_delayed_to_def monad_simps db_op_def write_eq)
  moreover have "rep (t1\<lparr>tr_db := after b' (tr_db t1)\<rparr>) (take (unat p) dms @ []) (kept p ms) \<and>
      (\<forall>k. stream_key k \<longrightarrow> view (tr_db (t1\<lparr>tr_db := after b' (tr_db t1)\<rparr>)) k = view (tr_db t) k)"
    by (rule fin) simp_all
  ultimately show thesis using that by auto
qed

text \<open>Appending keeps every batch.\<close>

lemma kept_all:
  assumes "batches_rep R m ms" and "last_delayed ms \<le> p"
  shows "kept p ms = ms"
proof -
  have "bm_delayed_message_count b \<le> p" if b: "b \<in> set ms" for b
  proof -
    obtain j where j: "j < length ms" "b = ms ! j" using b by (auto simp: in_set_conv_nth)
    then have "bm_delayed_message_count b \<le> last_delayed ms"
      using assms(1)
      by (cases "j = length ms - 1")
         (auto simp: last_delayed_def last_conv_nth batches_rep_def ascending_def sorted_wrt_iff_nth_less)
    then show ?thesis using assms(2) by simp
  qed
  then show ?thesis by (simp add: kept_def takeWhile_eq_all_conv)
qed

end

end
