(* ===== verification/Tracker_Batches.thy ===== *)
theory Tracker_Batches
  imports Tracker_Delayed
begin

text \<open>
  The tracker's operations on sequencer batches: checking them against the chain of accumulators,
  recording their metadata, dropping them, and finding the batch of a message.
\<close>

section \<open>Which batches are accepted\<close>

text \<open>
  The batches have the numbers from \<open>p\<close> on, each starts from the accumulator the one before it
  ends with, and each names the accumulator of the delayed messages it reads.
\<close>

fun accepted :: "keccak \<Rightarrow> bytes list \<Rightarrow> b256 \<Rightarrow> u64 \<Rightarrow> SequencerInboxBatch list \<Rightarrow> bool" where
  "accepted K dms a p [] = True"
| "accepted K dms a p (b # bs) =
     (sequence_number b = p \<and> before_inbox_acc b = a \<and>
      (after_delayed_count b = 0 \<or>
       unat (after_delayed_count b) \<le> length dms \<and>
       acc_from K 0 (take (unat (after_delayed_count b)) dms) = after_delayed_acc b) \<and>
      accepted K dms (after_inbox_acc b) (p + 1) bs)"

text \<open>The metadata the tracker derives from the batches.\<close>

fun metadata_of ::
    "rlp \<Rightarrow> brotli \<Rightarrow> BatchMetadata \<Rightarrow> SequencerInboxBatch list \<Rightarrow> BatchMetadata list result" where
  "metadata_of R brotli prev [] = Ok []"
| "metadata_of R brotli prev (b # bs) =
     bindR (parse_sequencer_message R brotli (sequence_number b) (Some (batch_block_hash b)) (serialized b))
       (\<lambda>seq.
     bindR (metadata_of R brotli (batch_metadata seq b prev) bs) (\<lambda>ms.
     Ok (batch_metadata seq b prev # ms)))"

lemma metadata_delayed: "bm_delayed_message_count (batch_metadata seq b prev) = after_delayed_count b"
  by (simp add: batch_metadata_def Let_def)

lemma length_metadata_of: "metadata_of R brotli prev bs = Ok ms \<Longrightarrow> length ms = length bs"
  by (induction bs arbitrary: prev ms) (auto simp: bindR_Ok_iff)

definition last_metadata :: "BatchMetadata list \<Rightarrow> BatchMetadata" where
  "last_metadata ms = (if ms = [] then no_metadata else last ms)"

lemma last_delayed_metadata: "last_delayed ms = bm_delayed_message_count (last_metadata ms)"
  by (simp add: last_delayed_def last_metadata_def no_metadata_def)

context tracker_node begin

lemma delayed_acc_test:
  assumes rep: "delayed_rep R K (view s) dms" and n: "n \<noteq> 0"
  shows "ok_or_none (get_delayed_acc D K s (n - 1)) =
    Ok (if unat n \<le> length dms then Some (acc_from K 0 (take (unat n) dms)) else None)"
proof -
  have "unat (n - 1) = unat n - 1" "0 < unat n"
    using n by (simp_all add: unat_minus_one unat_gt_0)
  with get_delayed_acc_eq [OF rep, of "n - 1"] show ?thesis by auto
qed

lemma check_batches_eq:
  assumes rep: "delayed_rep R K (view s) dms"
  shows "if accepted K dms a p bs
    then \<exists>a'. check_batches D K s bs p a = Ok (p + of_nat (length bs), a')
    else \<exists>e. check_batches D K s bs p a = Err e"
proof (induction bs arbitrary: a p)
  case Nil
  then show ?case by simp
next
  case (Cons b bs)
  have "bindR (if after_delayed_count b > 0 then
               bindR (ok_or_none (get_delayed_acc D K s (after_delayed_count b - 1))) (\<lambda>have_delayed.
               if have_delayed \<noteq> Some (after_delayed_acc b) then
                 Err (Bail ''delayed message accumulator doesn't match sequencer batch'' [])
               else Ok ())
             else Ok ()) k =
    (if after_delayed_count b = 0 \<or>
       unat (after_delayed_count b) \<le> length dms \<and>
       acc_from K 0 (take (unat (after_delayed_count b)) dms) = after_delayed_acc b
     then k ()
     else Err (Bail ''delayed message accumulator doesn't match sequencer batch'' []))"
    for k :: "unit \<Rightarrow> (u64 \<times> b256) result"
    using delayed_acc_test [OF rep, of "after_delayed_count b"]
    by (auto simp: word_gt_0)
  with Cons [of "after_inbox_acc b" "p + 1"] show ?case
    by (auto simp: algebra_simps)
qed

end

section \<open>What recording batches puts\<close>

text \<open>One batch: its metadata, and the mark of the delayed messages it reads first.\<close>

definition put_batch ::
    "rlp \<Rightarrow> u64 \<Rightarrow> u64 \<Rightarrow> BatchMetadata \<Rightarrow> (bytes \<rightharpoonup> bytes) \<Rightarrow> (bytes \<rightharpoonup> bytes)" where
  "put_batch R d p meta m =
     (let m = m(db_key SEQUENCER_BATCH_META_PREFIX p \<mapsto> encode_metadata R meta) in
      if d < bm_delayed_message_count meta
      then m(db_key DELAYED_SEQUENCED_PREFIX (bm_delayed_message_count meta) \<mapsto> enc (rlp_u64 R) p) else m)"

fun put_batches ::
    "rlp \<Rightarrow> u64 \<Rightarrow> u64 \<Rightarrow> BatchMetadata list \<Rightarrow> (bytes \<rightharpoonup> bytes) \<Rightarrow> (bytes \<rightharpoonup> bytes)" where
  "put_batches R d p [] m = m"
| "put_batches R d p (meta # metas) m =
     put_batches R (bm_delayed_message_count meta) (p + 1) metas (put_batch R d p meta m)"

lemma put_batches_append:
  "put_batches R d p (xs @ [x]) m =
   put_batch R (if xs = [] then d else bm_delayed_message_count (last xs)) (p + of_nat (length xs)) x
     (put_batches R d p xs m)"
  by (induction xs arbitrary: d p m) (auto simp: algebra_simps)

lemma put_batches_other:
  "\<forall>i. k \<noteq> db_key SEQUENCER_BATCH_META_PREFIX i \<Longrightarrow> \<forall>i. k \<noteq> db_key DELAYED_SEQUENCED_PREFIX i \<Longrightarrow>
   put_batches R d p xs m k = m k"
  by (induction xs arbitrary: d p m) (auto simp: put_batch_def Let_def)

text \<open>The numbers of the recorded batches.\<close>

fun numbered :: "u64 \<Rightarrow> BatchMetadata list \<Rightarrow> (u64 \<times> BatchMetadata) list" where
  "numbered p [] = []"
| "numbered p (x # xs) = (p, x) # numbered (p + 1) xs"

lemma numbered_iff:
  "unat p + length xs < 2 ^ 64 \<Longrightarrow> (k, v) \<in> set (numbered p xs) \<longleftrightarrow>
     unat p \<le> unat k \<and> unat k < unat p + length xs \<and> v = xs ! (unat k - unat p)"
proof (induction xs arbitrary: p)
  case Nil
  then show ?case by auto
next
  case (Cons x xs)
  have p1: "unat (p + 1) = unat p + 1" using Cons.prems by (simp add: unat_Suc64)
  then have IH: "(k, v) \<in> set (numbered (p + 1) xs) \<longleftrightarrow>
     unat p + 1 \<le> unat k \<and> unat k < unat p + 1 + length xs \<and> v = xs ! (unat k - (unat p + 1))"
    using Cons.IH [of "p + 1"] Cons.prems by simp
  show ?case
  proof (cases "k = p")
    case True
    then show ?thesis using IH by auto
  next
    case False
    then have "unat k \<noteq> unat p" by (simp add: word_unat_eq_iff)
    moreover from this have "unat p \<le> unat k \<Longrightarrow> unat k - unat p = Suc (unat k - (unat p + 1))" by simp
    ultimately show ?thesis using IH False by auto
  qed
qed

lemma batch_puts_eq:
  "accepted K dms a p bs \<Longrightarrow> metadata_of R brotli prev bs = Ok metas \<Longrightarrow>
   \<exists>ops. batch_puts R brotli bs prev b c = Ok (b @ ops, c @ numbered p metas) \<and>
     (\<forall>m. apply_ops ops m = put_batches R (bm_delayed_message_count prev) p metas m)"
proof (induction bs arbitrary: a p prev metas b c)
  case Nil
  then show ?case by (intro exI [of _ "[]"]) simp
next
  case (Cons x bs)
  obtain seq ms where parse:
      "parse_sequencer_message R brotli (sequence_number x) (Some (batch_block_hash x)) (serialized x) = Ok seq"
    and ms: "metadata_of R brotli (batch_metadata seq x prev) bs = Ok ms"
    and metas: "metas = batch_metadata seq x prev # ms"
    using Cons.prems(2) by (auto simp: bindR_Ok_iff)
  let ?meta = "batch_metadata seq x prev"
  let ?ops = "Put (db_key SEQUENCER_BATCH_META_PREFIX p) (encode_metadata R ?meta) #
    (if bm_delayed_message_count prev < after_delayed_count x
     then [Put (db_key DELAYED_SEQUENCED_PREFIX (after_delayed_count x)) (enc (rlp_u64 R) p)] else [])"
  have x: "sequence_number x = p" "accepted K dms (after_inbox_acc x) (p + 1) bs" using Cons.prems(1) by auto
  obtain ops where "batch_puts R brotli bs ?meta (b @ ?ops) (c @ [(p, ?meta)]) =
        Ok ((b @ ?ops) @ ops, (c @ [(p, ?meta)]) @ numbered (p + 1) ms)"
      "\<forall>m. apply_ops ops m = put_batches R (bm_delayed_message_count ?meta) (p + 1) ms m"
    using Cons.IH [OF x(2) ms, of "b @ ?ops" "c @ [(p, ?meta)]"] by blast
  with parse x metas show ?case
    by (intro exI [of _ "?ops @ ops"], cases "bm_delayed_message_count prev < after_delayed_count x")
       (simp_all add: batch_put_def Let_def put_batch_def metadata_delayed)
qed

section \<open>The representation after recording batches\<close>

text \<open>
  One more batch, after the \<open>n\<close> there are: the body of the representation, without the count.
\<close>

definition batches_body :: "rlp \<Rightarrow> (bytes \<rightharpoonup> bytes) \<Rightarrow> BatchMetadata list \<Rightarrow> bool" where
  "batches_body R m ms \<longleftrightarrow>
     ascending ms \<and>
     (\<forall>i. unat i < length ms \<longrightarrow>
        m (db_key SEQUENCER_BATCH_META_PREFIX i) = Some (encode_metadata R (ms ! unat i))) \<and>
     (\<forall>d v. m (db_key DELAYED_SEQUENCED_PREFIX d) = Some v \<longleftrightarrow>
       (\<exists>j. sequences ms d j \<and> v = enc (rlp_u64 R) (of_nat j))) \<and>
     (\<forall>k. prefix DELAYED_SEQUENCED_PREFIX k \<longrightarrow> m k \<noteq> None \<longrightarrow> (\<exists>d. k = db_key DELAYED_SEQUENCED_PREFIX d))"

lemma sequences_append:
  "sequences (ms @ [x]) d j \<longleftrightarrow>
   sequences ms d j \<or> j = length ms \<and> bm_delayed_message_count x = d \<and> last_delayed ms < d"
  by (auto simp: sequences_def nth_append less_Suc_eq)

lemma sequences_le:
  assumes "ascending ms" and "sequences ms d j"
  shows "d \<le> last_delayed ms"
proof -
  have "j < length ms" "d = bm_delayed_message_count (ms ! j)" using assms(2) by (auto simp: sequences_def)
  with assms(1) show ?thesis
    by (cases "j = length ms - 1")
       (auto simp: last_delayed_def last_conv_nth ascending_def sorted_wrt_iff_nth_less)
qed

lemma ascending_le_last:
  assumes "ascending ms" and "y \<in> set ms"
  shows "bm_delayed_message_count y \<le> last_delayed ms"
proof -
  obtain j where "j < length ms" "y = ms ! j" using assms(2) by (auto simp: in_set_conv_nth)
  with assms(1) show ?thesis
    by (cases "j = length ms - 1")
       (auto simp: last_delayed_def last_conv_nth ascending_def sorted_wrt_iff_nth_less)
qed

lemma ascending_append:
  "ascending (ms @ [x]) \<longleftrightarrow> ascending ms \<and> last_delayed ms \<le> bm_delayed_message_count x"
proof
  assume "ascending (ms @ [x])"
  then show "ascending ms \<and> last_delayed ms \<le> bm_delayed_message_count x"
    by (auto simp: ascending_def sorted_wrt_append last_delayed_def)
next
  assume a: "ascending ms \<and> last_delayed ms \<le> bm_delayed_message_count x"
  with ascending_le_last [of ms] show "ascending (ms @ [x])"
    by (fastforce simp: ascending_def sorted_wrt_append)
qed

lemma put_batch_body:
  assumes body: "batches_body R m ms" and le: "last_delayed ms \<le> bm_delayed_message_count x"
    and p: "unat p = length ms"
  shows "batches_body R (put_batch R (last_delayed ms) p x m) (ms @ [x])"
proof -
  let ?m = "put_batch R (last_delayed ms) p x m" let ?d = "bm_delayed_message_count x"
  have asc: "ascending ms" using body by (simp add: batches_body_def)
  have of_p: "of_nat (length ms) = p" by (simp flip: p)
  have meta: "?m (db_key SEQUENCER_BATCH_META_PREFIX i) =
      (if i = p then Some (encode_metadata R x) else m (db_key SEQUENCER_BATCH_META_PREFIX i))" for i
    by (simp add: put_batch_def Let_def key_simps)
  have mark: "?m (db_key DELAYED_SEQUENCED_PREFIX d) =
      (if last_delayed ms < ?d \<and> d = ?d then Some (enc (rlp_u64 R) p) else m (db_key DELAYED_SEQUENCED_PREFIX d))" for d
    by (simp add: put_batch_def Let_def key_simps)
  show ?thesis
    unfolding batches_body_def
  proof (intro conjI allI impI)
    show "ascending (ms @ [x])" using asc le by (simp add: ascending_append)
    show "?m (db_key SEQUENCER_BATCH_META_PREFIX i) = Some (encode_metadata R ((ms @ [x]) ! unat i))"
      if "unat i < length (ms @ [x])" for i
      using that body p unfolding meta batches_body_def
      by (auto simp: nth_append less_Suc_eq word_unat_eq_iff)
    show "?m (db_key DELAYED_SEQUENCED_PREFIX d) = Some v \<longleftrightarrow>
        (\<exists>j. sequences (ms @ [x]) d j \<and> v = enc (rlp_u64 R) (of_nat j))" for d v
    proof -
      have "last_delayed ms < ?d \<Longrightarrow> \<not> sequences ms ?d j" for j
        using sequences_le [OF asc, of ?d j] by auto
      then show ?thesis
        using body unfolding mark sequences_append batches_body_def by (auto simp: of_p)
    qed
    show "\<exists>d. k = db_key DELAYED_SEQUENCED_PREFIX d"
      if "prefix DELAYED_SEQUENCED_PREFIX k" "?m k \<noteq> None" for k
    proof (cases "k = db_key DELAYED_SEQUENCED_PREFIX ?d")
      case True
      then show ?thesis by blast
    next
      case False
      have "k \<noteq> db_key SEQUENCER_BATCH_META_PREFIX p"
        using that(1) by (auto simp: prefixes_eval db_key_def)
      with False have "?m k = m k" by (simp add: put_batch_def Let_def)
      with that body show ?thesis by (simp add: batches_body_def)
    qed
  qed
qed

lemma put_batches_body:
  "batches_body R m ms \<Longrightarrow> ascending (ms @ metas) \<Longrightarrow> unat p = length ms \<Longrightarrow>
   length ms + length metas < 2 ^ 64 - 1 \<Longrightarrow>
   batches_body R (put_batches R (last_delayed ms) p metas m) (ms @ metas)"
proof (induction metas arbitrary: ms p m)
  case Nil
  then show ?case by simp
next
  case (Cons x metas)
  have asc: "ascending (ms @ [x])"
    using Cons.prems(2) by (auto simp: ascending_def sorted_wrt_append)
  have body: "batches_body R (put_batch R (last_delayed ms) p x m) (ms @ [x])"
    using Cons.prems(1,3) asc by (intro put_batch_body) (simp_all add: ascending_append)
  have "unat (p + 1) = length (ms @ [x])" using Cons.prems(3,4) by (simp add: unat_Suc64)
  with Cons.IH [OF body] Cons.prems(2,4) show ?case by (simp add: last_delayed_def)
qed

lemma put_batches_meta_beyond:
  "unat p + length metas < 2 ^ 64 \<Longrightarrow> unat p + length metas \<le> unat i \<Longrightarrow>
   put_batches R d p metas m (db_key SEQUENCER_BATCH_META_PREFIX i) = m (db_key SEQUENCER_BATCH_META_PREFIX i)"
proof (induction metas arbitrary: d p m)
  case Nil
  then show ?case by simp
next
  case (Cons x metas)
  have "unat (p + 1) = unat p + 1" using Cons.prems by (simp add: unat_Suc64)
  moreover have "i \<noteq> p" using Cons.prems(2) by auto
  ultimately show ?case
    using Cons.IH [of "p + 1"] Cons.prems by (simp add: put_batch_def Let_def key_simps)
qed

lemma last_take: "0 < n \<Longrightarrow> n \<le> length ms \<Longrightarrow> last (take n ms) = ms ! (n - 1)"
  by (subst last_conv_nth) (auto simp: min_def)

lemma last_delayed_take_mono:
  assumes "ascending ms" and "n \<le> j" and "j \<le> length ms"
  shows "last_delayed (take n ms) \<le> last_delayed (take j ms)"
proof (cases "n = 0 \<or> n = j")
  case True
  then show ?thesis by (auto simp: last_delayed_def)
next
  case False
  with assms have "n \<noteq> 0" "n < j" "j \<le> length ms" by auto
  moreover from this have "last (take n ms) = ms ! (n - 1)" "last (take j ms) = ms ! (j - 1)"
      "take n ms \<noteq> []" "take j ms \<noteq> []"
    by (auto simp: last_take)
  ultimately show ?thesis
    using assms(1) by (auto simp: last_delayed_def ascending_def sorted_wrt_iff_nth_less)
qed

lemma sequences_take:
  assumes "ascending ms" and "n \<le> length ms"
  shows "sequences (take n ms) d j \<longleftrightarrow> sequences ms d j \<and> d \<le> last_delayed (take n ms)"
proof
  assume s: "sequences (take n ms) d j"
  have "ascending (take n ms)" using assms(1) by (simp add: ascending_def sorted_wrt_take)
  then have "d \<le> last_delayed (take n ms)" using s by (rule sequences_le)
  moreover have "j < n" using s by (simp add: sequences_def)
  then have "sequences ms d j" using s assms(2) by (simp add: sequences_def min_def)
  ultimately show "sequences ms d j \<and> d \<le> last_delayed (take n ms)" by simp
next
  assume s: "sequences ms d j \<and> d \<le> last_delayed (take n ms)"
  have "j < n"
  proof (rule ccontr)
    assume "\<not> j < n"
    with s last_delayed_take_mono [OF assms(1), of n j] show False by (auto simp: sequences_def)
  qed
  with s assms(2) show "sequences (take n ms) d j" by (simp add: sequences_def min_def)
qed

lemma batches_body_take:
  assumes rep: "batches_rep R m ms" and n: "n \<le> length ms" and q: "n \<le> unat q"
    and d: "d = last_delayed (take n ms)" "unat d < 2 ^ 64 - 1"
  shows "batches_body R (wipe DELAYED_SEQUENCED_PREFIX (d + 1) (wipe SEQUENCER_BATCH_META_PREFIX q m)) (take n ms)"
proof -
  let ?m = "wipe DELAYED_SEQUENCED_PREFIX (d + 1) (wipe SEQUENCER_BATCH_META_PREFIX q m)"
  have asc: "ascending ms" using rep by (simp add: batches_rep_def)
  have mark: "?m (db_key DELAYED_SEQUENCED_PREFIX e) =
      (if d < e then None else m (db_key DELAYED_SEQUENCED_PREFIX e))" for e
    using less_plus_one [OF d(2), of e] by (simp add: key_simps)
  show ?thesis
    unfolding batches_body_def
  proof (intro conjI allI impI)
    show "ascending (take n ms)" using asc by (simp add: ascending_def sorted_wrt_take)
    show "?m (db_key SEQUENCER_BATCH_META_PREFIX i) = Some (encode_metadata R (take n ms ! unat i))"
      if "unat i < length (take n ms)" for i
      using that rep q by (simp add: batches_rep_def key_simps word_le_nat_alt)
    show "?m (db_key DELAYED_SEQUENCED_PREFIX e) = Some v \<longleftrightarrow>
        (\<exists>j. sequences (take n ms) e j \<and> v = enc (rlp_u64 R) (of_nat j))" for e v
    proof -
      have "m (db_key DELAYED_SEQUENCED_PREFIX e) = Some v \<longleftrightarrow>
          (\<exists>j. sequences ms e j \<and> v = enc (rlp_u64 R) (of_nat j))"
        using rep by (simp add: batches_rep_def)
      then show ?thesis unfolding mark sequences_take [OF asc n] d(1) [symmetric] by auto
    qed
    show "\<exists>e. k = db_key DELAYED_SEQUENCED_PREFIX e"
      if "prefix DELAYED_SEQUENCED_PREFIX k" "?m k \<noteq> None" for k
      using that rep by (auto simp: wipe_def batches_rep_def split: if_splits)
  qed
qed

lemma batches_rep_body:
  assumes "batches_body R m ms" and "length ms < 2 ^ 64 - 1" and "unat q = length ms"
    and "\<And>i. unat q \<le> unat i \<Longrightarrow> m (db_key SEQUENCER_BATCH_META_PREFIX i) = None"
  shows "batches_rep R (m(SEQUENCER_BATCH_COUNT_KEY \<mapsto> enc (rlp_u64 R) q)) ms"
proof -
  have q: "of_nat (length ms) = q" by (simp flip: assms(3))
  have "k \<noteq> SEQUENCER_BATCH_COUNT_KEY" if "prefix DELAYED_SEQUENCED_PREFIX k" for k
    using that by (auto simp: prefixes_eval count_keys_eval)
  with assms show ?thesis
    unfolding batches_rep_def q by (auto simp: batches_body_def key_simps)
qed

lemma delayed_rep_frame:
  assumes "delayed_rep R K m dms" and "\<And>x i. x \<in> {0x65, 0x64, 0x70} \<Longrightarrow> m' (db_key [x] i) = m (db_key [x] i)"
    and "m' DELAYED_MESSAGE_COUNT_KEY = m DELAYED_MESSAGE_COUNT_KEY"
  shows "delayed_rep R K m' dms"
  using assms by (simp add: delayed_rep_def prefixes_eval)

lemma accepted_bound:
  "accepted K dms a p bs \<Longrightarrow> metadata_of R brotli prev bs = Ok metas \<Longrightarrow>
   x \<in> set metas \<Longrightarrow> unat (bm_delayed_message_count x) \<le> length dms"
  by (induction bs arbitrary: a p prev metas) (auto simp: bindR_Ok_iff metadata_delayed)

section \<open>Recording batches\<close>

context tracker_node begin

lemma puts_cached:
  "cached (fold (\<lambda>(seq, meta) c. lru_put (ev_lru ev) seq meta c) l c) k = Some v \<Longrightarrow>
   (k, v) \<in> set l \<or> k \<notin> fst ` set l \<and> cached c k = Some v"
proof (induction l rule: rev_induct)
  case Nil
  then show ?case by simp
next
  case (snoc e l)
  obtain k0 v0 where e: "e = (k0, v0)" by (cases e)
  let ?c = "fold (\<lambda>(seq, meta) c. lru_put (ev_lru ev) seq meta c) l c"
  show ?case
  proof (cases "k = k0")
    case True
    with snoc.prems e put_found [of k0 v0 ?c] show ?thesis by simp
  next
    case False
    then have "cached ?c k = Some v" using snoc.prems e put_others [of k0 v0 ?c k v] by simp
    with snoc.IH e False show ?thesis by auto
  qed
qed

lemma previous_metadata:
  assumes rep: "rep t dms ms" and p: "unat p \<le> length ms"
  obtains t' where "(if p > 0 then get_batch_metadata ev (p - 1) else okM no_metadata) t =
      (Ok (last_metadata (take (unat p) ms)), t')"
    and "tr_db t' = tr_db t" and "rep t' dms ms"
proof (cases "p = 0")
  case True
  with that [of t] rep show thesis by (simp add: okM_def last_metadata_def)
next
  case False
  then have u: "unat (p - 1) = unat p - 1" "0 < unat p"
    by (simp_all add: unat_minus_one unat_gt_0)
  with p have "last_metadata (take (unat p) ms) = ms ! (unat p - 1)"
    by (auto simp: last_metadata_def last_take)
  with get_batch_metadata_eq [OF rep, of "p - 1"] u p False that show thesis
    by (auto simp: word_gt_0)
qed

lemma add_batches_refines:
  assumes rep: "rep t dms ms" and ne: "bs \<noteq> []" and p: "unat p \<le> length ms"
    and len: "unat p + length bs < 2 ^ 64 - 1"
    and acc: "accepted K dms (accumulator (last_metadata (take (unat p) ms))) p bs"
    and metas: "metadata_of R (ev_brotli ev) (last_metadata (take (unat p) ms)) bs = Ok metas"
    and asc: "ascending (take (unat p) ms @ metas)"
  obtains t' where "add_sequencer_batches ev bs t = (Ok (), t')"
    and "rep t' dms (take (unat p) ms @ metas)"
    and "\<And>k. stream_key k \<Longrightarrow> view (tr_db t') k = view (tr_db t) k"
proof -
  let ?ms = "take (unat p) ms @ metas" let ?prev = "last_metadata (take (unat p) ms)"
  let ?q = "p + of_nat (length bs)" let ?d = "last_delayed (take (unat p) ms)"
  have hd: "sequence_number (hd bs) = p" using ne acc by (cases bs) auto
  have lm: "length metas = length bs" using metas by (rule length_metadata_of)
  have uq: "unat ?q = unat p + length bs" using len by (simp add: unat_plus64 unat_of_nat64)
  have d: "bm_delayed_message_count ?prev = ?d" by (rule last_delayed_metadata [symmetric])
  have reps: "delayed_rep R K (view (tr_db t)) dms" "batches_rep R (view (tr_db t)) ms"
    using rep by (simp_all add: rep_def inbox_rep_def)
  have "?d \<le> last_delayed (take (length ms) ms)"
    using reps(2) p by (intro last_delayed_take_mono) (simp_all add: batches_rep_def)
  then have ud: "unat ?d < 2 ^ 64 - 1"
    using rep by (simp add: rep_def inbox_rep_def delayed_rep_def word_le_nat_alt)
  obtain t1 where prev: "(if p > 0 then get_batch_metadata ev (p - 1) else okM no_metadata) t = (Ok ?prev, t1)"
    and db1: "tr_db t1 = tr_db t" and rep1: "rep t1 dms ms"
    by (rule previous_metadata [OF rep p])
  let ?dels = "map Del (scan_keys D (tr_db t) DELAYED_SEQUENCED_PREFIX (?d + 1))"
  obtain a' where check: "check_batches D K (tr_db t) bs p (accumulator ?prev) = Ok (?q, a')"
    using check_batches_eq [OF reps(1), of "accumulator ?prev" p bs] acc by auto
  obtain ops where puts: "batch_puts R (ev_brotli ev) bs ?prev ?dels [] = Ok (?dels @ ops, numbered p metas)"
    and ops: "\<And>m. apply_ops ops m = put_batches R ?d p metas m"
    using batch_puts_eq [OF acc metas, of ?dels "[]"] d by auto
  obtain t2 where del: "delete_batch_metadata_starting_at ev ?q t1 = (Ok (), t2)"
    and v2: "view (tr_db t2) = wipe SEQUENCER_BATCH_META_PREFIX ?q (view (tr_db t))"
    and c2: "\<And>k v. cached (tr_cache t2) k = Some v \<Longrightarrow> cached (tr_cache t1) k = Some v \<and>
      (?q \<le> k \<longrightarrow> view (tr_db t) (db_key SEQUENCER_BATCH_META_PREFIX k) = None)"
    by (rule delete_metadata_eq [of ?q t1]) (simp add: db1)
  let ?b = "?dels @ ops @ [Put SEQUENCER_BATCH_COUNT_KEY (enc (rlp_u64 R) ?q)]"
  let ?c = "fold (\<lambda>(seq, meta) c. lru_put (ev_lru ev) seq meta c) (numbered p metas) (tr_cache t2)"
  let ?t = "t2\<lparr>tr_db := after ?b (tr_db t2), tr_cache := ?c\<rparr>"
  have run: "add_sequencer_batches ev bs t = (Ok (), ?t)"
    using ne prev d check puts del
    by (simp add: add_sequencer_batches_def hd bindM_def db_read_def readM_def liftR_def db1 db_op_def
        delete_starting_at_eq new_batch_def batch_put_def write_eq cache_op_def Let_def)
  let ?w = "wipe DELAYED_SEQUENCED_PREFIX (?d + 1) (wipe SEQUENCER_BATCH_META_PREFIX ?q (view (tr_db t)))"
  have "apply_ops ?dels (view (tr_db t2)) = ?w" unfolding v2 by simp
  then have vt: "view (tr_db ?t) = (put_batches R ?d p metas ?w)(SEQUENCER_BATCH_COUNT_KEY \<mapsto> enc (rlp_u64 R) ?q)"
    by (simp add: ops del: fun_upd_apply)
  have body: "batches_body R (put_batches R ?d p metas ?w) ?ms"
  proof (rule put_batches_body)
    show "batches_body R ?w (take (unat p) ms)"
      using reps(2) p uq ud by (intro batches_body_take) auto
  qed (use asc p lm len in auto)
  have beyond: "put_batches R ?d p metas ?w (db_key SEQUENCER_BATCH_META_PREFIX i) = None" if "unat ?q \<le> unat i" for i
  proof -
    have "put_batches R ?d p metas ?w (db_key SEQUENCER_BATCH_META_PREFIX i) =
        ?w (db_key SEQUENCER_BATCH_META_PREFIX i)"
      using that uq lm len by (intro put_batches_meta_beyond) simp_all
    with that show ?thesis by (simp add: key_simps word_le_nat_alt)
  qed
  have brep: "batches_rep R (view (tr_db ?t)) ?ms"
    unfolding vt by (rule batches_rep_body [OF body _ _ beyond]) (use p lm len uq in simp_all)
  have drep: "delayed_rep R K (view (tr_db ?t)) dms"
    unfolding vt by (rule delayed_rep_frame [OF reps(1)]) (auto simp: key_simps put_batches_other)
  have co: "coherent (cached ?c) ?ms"
    unfolding coherent_def
  proof (intro allI impI)
    fix k v
    assume "cached ?c k = Some v"
    then consider (new) "(k, v) \<in> set (numbered p metas)"
      | (old) "k \<notin> fst ` set (numbered p metas)" "cached (tr_cache t2) k = Some v"
      using puts_cached by blast
    then show "unat k < length ?ms \<and> v = ?ms ! unat k"
    proof cases
      case new
      with numbered_iff [of p metas k v] p lm len show ?thesis by (auto simp: nth_append)
    next
      case old
      have "cached (tr_cache t1) k = Some v" using c2 [OF old(2)] by simp
      then have k: "unat k < length ms" "v = ms ! unat k"
        using rep1 by (auto simp: rep_def inbox_rep_def coherent_def)
      have "\<not> ?q \<le> k"
        using c2 [OF old(2)] k reps(2) by (auto simp: batches_rep_def)
      moreover have "\<not> (unat p \<le> unat k \<and> unat k < unat p + length metas)"
        using old(1) numbered_iff [of p metas k "metas ! (unat k - unat p)"] lm len
        by (auto simp: image_iff)
      ultimately have "unat k < unat p" using uq lm by (simp add: word_le_nat_alt)
      with k p show ?thesis by (simp add: nth_append)
    qed
  qed
  have bound: "unat (last_delayed ?ms) \<le> length dms"
  proof -
    have "metas \<noteq> []" using lm ne by auto
    then show ?thesis using accepted_bound [OF acc metas, of "last metas"] by (simp add: last_delayed_def)
  qed
  have frame: "view (tr_db ?t) k = view (tr_db t) k" if "stream_key k" for k
  proof -
    have "\<not> prefix SEQUENCER_BATCH_META_PREFIX k" "\<not> prefix DELAYED_SEQUENCED_PREFIX k" "k \<noteq> SEQUENCER_BATCH_COUNT_KEY"
      using that by (auto simp: stream_key_def prefixes_eval count_keys_eval prefix_def)
    then have "k \<noteq> db_key SEQUENCER_BATCH_META_PREFIX i" "k \<noteq> db_key DELAYED_SEQUENCED_PREFIX i"
      "\<not> in_range SEQUENCER_BATCH_META_PREFIX n k" "\<not> in_range DELAYED_SEQUENCED_PREFIX n k" for i n
      by (auto simp: db_key_def in_range_def)
    then show ?thesis unfolding vt using \<open>k \<noteq> SEQUENCER_BATCH_COUNT_KEY\<close>
      by (simp add: put_batches_other wipe_def)
  qed
  have "rep ?t dms ?ms" using drep brep co bound by (simp add: rep_def inbox_rep_def)
  then show thesis using that run frame by blast
qed

lemma add_batches_rejects:
  assumes rep: "rep t dms ms" and ne: "bs \<noteq> []" and p: "sequence_number (hd bs) = p" "unat p \<le> length ms"
    and bad: "\<not> accepted K dms (accumulator (last_metadata (take (unat p) ms))) p bs"
  obtains e t' where "add_sequencer_batches ev bs t = (Err e, t')" and "tr_db t' = tr_db t" and "rep t' dms ms"
proof -
  let ?prev = "last_metadata (take (unat p) ms)"
  obtain t1 where prev: "(if p > 0 then get_batch_metadata ev (p - 1) else okM no_metadata) t = (Ok ?prev, t1)"
    and t1: "tr_db t1 = tr_db t" "rep t1 dms ms"
    by (rule previous_metadata [OF rep p(2)])
  have "delayed_rep R K (view (tr_db t)) dms" using rep by (simp add: rep_def inbox_rep_def)
  then obtain e where "check_batches D K (tr_db t) bs p (accumulator ?prev) = Err e"
    using check_batches_eq bad by (metis (full_types))
  with ne p(1) prev t1 have "add_sequencer_batches ev bs t = (Err e, t1)"
    by (simp add: add_sequencer_batches_def bindM_def db_read_def readM_def delete_starting_at_eq Let_def)
  with t1 that show thesis by blast
qed

lemma add_batches_gap:
  assumes rep: "rep t dms ms" and ne: "bs \<noteq> []" and p: "length ms < unat (sequence_number (hd bs))"
  obtains e t' where "add_sequencer_batches ev bs t = (Err e, t')" and "tr_db t' = tr_db t" and "rep t' dms ms"
proof -
  let ?p = "sequence_number (hd bs)"
  have nz: "?p \<noteq> 0" using p by auto
  then have "\<not> unat (?p - 1) < length ms" using p by (simp add: unat_minus_one)
  then obtain e t1 where "get_batch_metadata ev (?p - 1) t = (Err e, t1)" "tr_db t1 = tr_db t" "rep t1 dms ms"
    using get_batch_metadata_eq [OF rep, of "?p - 1"] by auto
  moreover from this nz ne have "add_sequencer_batches ev bs t = (Err e, t1)"
    by (simp add: add_sequencer_batches_def bindM_def Let_def word_gt_0)
  ultimately show thesis using that by blast
qed

section \<open>Dropping batches\<close>

lemma reorg_batches_refines:
  assumes rep: "rep t dms ms" and p: "unat p \<le> length ms"
  obtains t' where "reorg_batches_to_db ev p t = (Ok (bm_message_count (last_metadata (take (unat p) ms))), t')"
    and "rep t' dms (take (unat p) ms)"
proof -
  let ?prev = "last_metadata (take (unat p) ms)" let ?d = "last_delayed (take (unat p) ms)"
  have reps: "delayed_rep R K (view (tr_db t)) dms" "batches_rep R (view (tr_db t)) ms"
    "unat (last_delayed ms) \<le> length dms"
    using rep by (simp_all add: rep_def inbox_rep_def)
  have d: "bm_delayed_message_count ?prev = ?d" by (rule last_delayed_metadata [symmetric])
  have mono: "?d \<le> last_delayed (take (length ms) ms)"
    using reps(2) p by (intro last_delayed_take_mono) (simp_all add: batches_rep_def)
  then have ud: "unat ?d < 2 ^ 64 - 1" "unat ?d \<le> length dms"
    using reps by (simp_all add: delayed_rep_def word_le_nat_alt)
  obtain t1 where prev: "(if p > 0 then get_batch_metadata ev (p - 1) else okM no_metadata) t = (Ok ?prev, t1)"
    and db1: "tr_db t1 = tr_db t" and rep1: "rep t1 dms ms"
    by (rule previous_metadata [OF rep p])
  let ?dels = "map Del (scan_keys D (tr_db t) DELAYED_SEQUENCED_PREFIX (?d + 1))"
  obtain t2 where del: "delete_batch_metadata_starting_at ev p t1 = (Ok (), t2)"
    and v2: "view (tr_db t2) = wipe SEQUENCER_BATCH_META_PREFIX p (view (tr_db t))"
    and c2: "\<And>k v. cached (tr_cache t2) k = Some v \<Longrightarrow> cached (tr_cache t1) k = Some v \<and>
      (p \<le> k \<longrightarrow> view (tr_db t) (db_key SEQUENCER_BATCH_META_PREFIX k) = None)"
    by (rule delete_metadata_eq [of p t1]) (simp add: db1)
  let ?b = "?dels @ [Put SEQUENCER_BATCH_COUNT_KEY (enc (rlp_u64 R) p)]"
  let ?t = "t2\<lparr>tr_db := after ?b (tr_db t2)\<rparr>"
  have run: "reorg_batches_to_db ev p t = (Ok (bm_message_count ?prev), ?t)"
  proof -
    have "(if p > 0 then matchM (get_batch_metadata ev (p - 1)) okM
              (\<lambda>e. bailM (Wrap ''attempted to reorg to future batch count: {}'' e))
           else okM no_metadata) t = (Ok ?prev, t1)"
      using prev by (auto simp: matchM_def okM_def split: if_splits)
    then show ?thesis
      using d del
      by (simp add: reorg_batches_to_db_def bindM_def okM_def db_read_def readM_def db1 db_op_def
          delete_starting_at_eq new_batch_def batch_put_def write_eq Let_def)
  qed
  let ?w = "wipe DELAYED_SEQUENCED_PREFIX (?d + 1) (wipe SEQUENCER_BATCH_META_PREFIX p (view (tr_db t)))"
  have vt: "view (tr_db ?t) = ?w(SEQUENCER_BATCH_COUNT_KEY \<mapsto> enc (rlp_u64 R) p)"
    by (simp add: v2 del: fun_upd_apply)
  have body: "batches_body R ?w (take (unat p) ms)"
    using reps(2) p ud by (intro batches_body_take) auto
  have brep: "batches_rep R (view (tr_db ?t)) (take (unat p) ms)"
    unfolding vt
    by (rule batches_rep_body [OF body])
       (use p reps(2) in \<open>auto simp: batches_rep_def key_simps word_le_nat_alt\<close>)
  have drep: "delayed_rep R K (view (tr_db ?t)) dms"
    unfolding vt by (rule delayed_rep_frame [OF reps(1)]) (auto simp: key_simps)
  have "coherent (cached (tr_cache ?t)) (take (unat p) ms)"
    unfolding coherent_def
  proof (intro allI impI)
    fix k v
    assume "cached (tr_cache ?t) k = Some v"
    then have k: "cached (tr_cache t1) k = Some v"
        "p \<le> k \<longrightarrow> view (tr_db t) (db_key SEQUENCER_BATCH_META_PREFIX k) = None"
      using c2 by auto
    then have "unat k < length ms" "v = ms ! unat k"
      using rep1 by (auto simp: rep_def inbox_rep_def coherent_def)
    with k(2) reps(2) p show "unat k < length (take (unat p) ms) \<and> v = take (unat p) ms ! unat k"
      by (auto simp: batches_rep_def word_le_nat_alt)
  qed
  with drep brep ud have "rep ?t dms (take (unat p) ms)" by (simp add: rep_def inbox_rep_def)
  with run that show thesis by blast
qed

end

section \<open>Finding the batch of a message\<close>

text \<open>The counts the metadata carry grow from batch to batch.\<close>

definition counts_grow :: "BatchMetadata list \<Rightarrow> bool" where
  "counts_grow ms \<longleftrightarrow> sorted_wrt (\<lambda>a b. bm_message_count a < bm_message_count b) ms"

text \<open>Batch \<open>i\<close> holds the message at \<open>pos\<close>: the batches before it end at or before, it ends after.\<close>

definition holds_message :: "BatchMetadata list \<Rightarrow> u64 \<Rightarrow> nat \<Rightarrow> bool" where
  "holds_message ms pos i \<longleftrightarrow>
     i < length ms \<and> pos < bm_message_count (ms ! i) \<and> (\<forall>j < i. bm_message_count (ms ! j) \<le> pos)"

lemma counts_grow_less:
  "counts_grow ms \<Longrightarrow> j < i \<Longrightarrow> i < length ms \<Longrightarrow> bm_message_count (ms ! j) < bm_message_count (ms ! i)"
  by (simp add: counts_grow_def sorted_wrt_iff_nth_less)

lemma holds_messageI:
  assumes "counts_grow ms" and "i < length ms" and "pos < bm_message_count (ms ! i)"
    and "i = 0 \<or> bm_message_count (ms ! (i - 1)) \<le> pos"
  shows "holds_message ms pos i"
  unfolding holds_message_def
proof (intro conjI allI impI)
  fix j assume "j < i"
  have "bm_message_count (ms ! j) \<le> bm_message_count (ms ! (i - 1))"
  proof (cases "j = i - 1")
    case False
    with \<open>j < i\<close> assms(2) have "j < i - 1" "i - 1 < length ms" by auto
    from counts_grow_less [OF assms(1) this] show ?thesis by simp
  qed simp
  then show "bm_message_count (ms ! j) \<le> pos"
    using assms(4) \<open>j < i\<close> by auto
qed (use assms in auto)

lemma middle: "unat (low :: u64) \<le> unat high \<Longrightarrow> unat high < 2 ^ 63 \<Longrightarrow>
  unat ((low + high) div 2) = (unat low + unat high) div 2"
  by (simp add: unat_div unat_plus64)

lemma less_than_next: "(pos :: u64) < pos + 1 \<Longrightarrow> x < pos + 1 \<Longrightarrow> x \<le> pos"
  by unat_arith

context tracker_node begin

lemma find_loop_eq:
  assumes grow: "counts_grow ms"
  shows "rep t dms ms \<Longrightarrow> unat low \<le> unat high \<Longrightarrow> unat high < length ms \<Longrightarrow> length ms < 2 ^ 63 \<Longrightarrow>
    pos < bm_message_count (ms ! unat high) \<Longrightarrow>
    low = 0 \<or> bm_message_count (ms ! (unat low - 1)) \<le> pos \<Longrightarrow> unat high - unat low < fuel \<Longrightarrow>
    \<exists>i t'. find_loop ev pos fuel low high t = (Ok (i, True), t') \<and> holds_message ms pos (unat i) \<and>
      tr_db t' = tr_db t \<and> rep t' dms ms"
proof (induction fuel arbitrary: low high t)
  case 0
  then show ?case by simp
next
  case (Suc fuel)
  let ?mid = "(low + high) div 2"
  have mid: "unat ?mid = (unat low + unat high) div 2" using Suc.prems by (intro middle) simp_all
  then have mid_len: "unat ?mid < length ms" using Suc.prems by simp
  obtain t1 where c: "get_batch_message_count ev ?mid t = (Ok (bm_message_count (ms ! unat ?mid)), t1)"
    and t1: "tr_db t1 = tr_db t" "rep t1 dms ms"
    using get_batch_message_count_eq [OF Suc.prems(1) mid_len] by blast
  let ?c = "bm_message_count (ms ! unat ?mid)"
  have unfold: "find_loop ev pos (Suc fuel) low high t =
      (if ?c < pos then (if high = ?mid + 1 then (Ok (high, True), t1) else find_loop ev pos fuel (?mid + 1) high t1)
       else if ?c = pos then (Ok (?mid + 1, True), t1)
       else if ?c = pos + 1 \<or> ?mid = low then (Ok (?mid, True), t1)
       else find_loop ev pos fuel low ?mid t1)"
    using c by (simp add: bindM_def okM_def Let_def)
  have below: "unat ?mid < unat high" if "?c \<le> pos"
  proof (rule ccontr)
    assume "\<not> ?thesis"
    with mid Suc.prems(2) have "unat ?mid = unat high" by simp
    with that Suc.prems(5) show False by simp
  qed
  have next_mid: "unat (?mid + 1) = unat ?mid + 1" if "unat ?mid < unat high"
    using that Suc.prems(3,4) by (simp add: unat_plus64)
  consider "?c < pos" | "?c = pos" | "pos < ?c" by force
  then show ?case
  proof cases
    case 1
    then have m: "unat ?mid < unat high" "?c \<le> pos" using below by auto
    note nm = next_mid [OF m(1)]
    show ?thesis
    proof (cases "high = ?mid + 1")
      case True
      then have "holds_message ms pos (unat high)"
        using Suc.prems m nm by (intro holds_messageI [OF grow]) auto
      with True 1 t1 unfold show ?thesis by auto
    next
      case False
      have "\<exists>i t'. find_loop ev pos fuel (?mid + 1) high t1 = (Ok (i, True), t') \<and>
          holds_message ms pos (unat i) \<and> tr_db t' = tr_db t1 \<and> rep t' dms ms"
        by (rule Suc.IH) (use Suc.prems m nm mid t1 in auto)
      with False 1 t1 unfold show ?thesis by auto
    qed
  next
    case 2
    then have m: "unat ?mid < unat high" using below by auto
    note nm = next_mid [OF m]
    have "?c < bm_message_count (ms ! (unat ?mid + 1))"
      using m Suc.prems by (intro counts_grow_less [OF grow]) auto
    then have "holds_message ms pos (unat (?mid + 1))"
      using 2 m nm Suc.prems by (intro holds_messageI [OF grow]) auto
    with 2 t1 unfold show ?thesis by auto
  next
    case 3
    then have n: "\<not> ?c < pos" "?c \<noteq> pos" by auto
    show ?thesis
    proof (cases "?c = pos + 1 \<or> ?mid = low")
      case True
      have "unat ?mid = 0 \<or> bm_message_count (ms ! (unat ?mid - 1)) \<le> pos"
      proof (cases "?mid = low")
        case True
        with Suc.prems(6) show ?thesis by auto
      next
        case False
        with True have "?c = pos + 1" by simp
        moreover have "bm_message_count (ms ! (unat ?mid - 1)) < ?c" if "unat ?mid \<noteq> 0"
          using that mid_len by (intro counts_grow_less [OF grow]) auto
        ultimately show ?thesis using 3 by (auto intro: less_than_next)
      qed
      then have "holds_message ms pos (unat ?mid)"
        using 3 mid_len by (intro holds_messageI [OF grow]) auto
      with True n t1 unfold show ?thesis by auto
    next
      case False
      then have "unat ?mid \<noteq> unat low" by (metis word_unat_eq_iff)
      then have m: "unat low < unat ?mid" "unat ?mid < unat high" using mid Suc.prems(2) by auto
      have "\<exists>i t'. find_loop ev pos fuel low ?mid t1 = (Ok (i, True), t') \<and>
          holds_message ms pos (unat i) \<and> tr_db t' = tr_db t1 \<and> rep t' dms ms"
        by (rule Suc.IH) (use Suc.prems 3 m mid_len t1 in auto)
      with False n t1 unfold show ?thesis by auto
    qed
  qed
qed

lemma find_batch_eq:
  assumes rep: "rep t dms ms" and grow: "counts_grow ms" and len: "length ms < 2 ^ 63"
  shows "\<exists>r t'. find_inbox_batch_containing_message ev pos t = (Ok r, t') \<and>
    tr_db t' = tr_db t \<and> rep t' dms ms \<and>
    (if ms = [] \<or> bm_message_count (last ms) \<le> pos then r = (0, False)
     else \<exists>i. r = (i, True) \<and> holds_message ms pos (unat i))"
proof (cases "ms = []")
  case True
  with rep have "get_batch_count D R (tr_db t) = (Ok 0, tr_db t)"
    using get_batch_count_eq [of "tr_db t" ms] by (simp add: rep_def inbox_rep_def)
  with rep True show ?thesis
    by (intro exI [of _ "(0, False)"] exI [of _ t])
       (simp add: find_inbox_batch_containing_message_def bindM_def db_op_def okM_def)
next
  case False
  let ?n = "of_nat (length ms) :: u64"
  have n: "unat ?n = length ms" "?n \<noteq> 0" "unat (?n - 1) = length ms - 1"
  proof -
    show 1: "unat ?n = length ms" using len by (simp add: unat_of_nat take_bit_nat_eq_self)
    with False show 2: "?n \<noteq> 0" by auto
    with 1 show "unat (?n - 1) = length ms - 1" by (simp add: unat_minus_one)
  qed
  have count: "get_batch_count D R (tr_db t) = (Ok ?n, tr_db t)"
    using get_batch_count_eq [of "tr_db t" ms] rep by (simp add: rep_def inbox_rep_def)
  obtain t1 where l: "get_batch_message_count ev (?n - 1) t = (Ok (bm_message_count (last ms)), t1)"
    and t1: "tr_db t1 = tr_db t" "rep t1 dms ms"
    using get_batch_message_count_eq [OF rep, of "?n - 1"] n False by (auto simp: last_conv_nth)
  have unfold: "find_inbox_batch_containing_message ev pos t =
      (if bm_message_count (last ms) \<le> pos then (Ok (0, False), t1)
       else find_loop ev pos (unat ?n) 0 (?n - 1) t1)"
    using count l n by (simp add: find_inbox_batch_containing_message_def bindM_def db_op_def okM_def Let_def)
  show ?thesis
  proof (cases "bm_message_count (last ms) \<le> pos")
    case True
    with unfold t1 show ?thesis by auto
  next
    case less: False
    have "\<exists>i t'. find_loop ev pos (unat ?n) 0 (?n - 1) t1 = (Ok (i, True), t') \<and>
        holds_message ms pos (unat i) \<and> tr_db t' = tr_db t1 \<and> rep t' dms ms"
      by (rule find_loop_eq [OF grow t1(2)])
         (use n less False len in \<open>auto simp: last_conv_nth\<close>)
    with unfold less t1 False show ?thesis by auto
  qed
qed

end

end
