(* ===== verification/Engine_Correct.thy ===== *)
theory Engine_Correct
  imports EngineAdapter Streamer_Correct
begin

text \<open>
  The streamer with the engine adapter: messages are executed one by one in the order of the log,
  each on top of the block of the one before it; timestamps only move forward; the retry loop is
  bounded.
\<close>

section \<open>The stored results\<close>

definition results_rep :: "rlp \<Rightarrow> (bytes \<rightharpoonup> bytes) \<Rightarrow> MessageResult list \<Rightarrow> bool" where
  "results_rep R m rs \<longleftrightarrow>
     (\<forall>i. m (db_key MESSAGE_RESULT_PREFIX i) =
       (if unat i < length rs then Some (enc (result_codec R) (rs ! unat i)) else None))"

text \<open>What \<open>head_message_index\<close> answers for \<open>n\<close> results: \<open>u64::MAX\<close> stands for none.\<close>

definition head_of :: "nat \<Rightarrow> u64" where
  "head_of n = (if n = 0 then - 1 else of_nat (n - 1))"

text \<open>The message handed to the engine for prefetching: the one after the next.\<close>

definition prefetch :: "log_entry list \<Rightarrow> nat \<Rightarrow> MessageWithMetadata option" where
  "prefetch log n = (if n + 1 < length log then Some (fst (log ! (n + 1))) else None)"

context node_store begin

lemma head_search_eq:
  assumes "results_rep R (view s) rs" and "length rs \<le> unat i + 1"
  shows "head_search D s i = Ok (head_of (length rs))"
  using assms
proof (induction "unat i" arbitrary: i)
  case 0
  then have i: "i = 0" by (simp add: unat_eq_zero)
  then show ?case using "0.prems"
    by (subst head_search.simps)
       (cases rs, auto simp: has results_rep_def head_of_def)
next
  case (Suc k)
  then have i: "i \<noteq> 0" by auto
  then have u: "unat (i - 1) = unat i - 1" by (simp add: unat_minus_one)
  show ?case
  proof (cases "unat i < length rs")
    case True
    with Suc.prems have "length rs = unat i + 1" by simp
    with True Suc.prems(1) show ?thesis
      by (subst head_search.simps) (simp add: has results_rep_def head_of_def)
  next
    case False
    with Suc.prems(1) have "db_has D s (db_key MESSAGE_RESULT_PREFIX i) = Ok False"
      by (simp add: has results_rep_def)
    with Suc.hyps(1) [of "i - 1"] Suc.hyps(2) Suc.prems u False i show ?thesis
      by (subst head_search.simps) simp
  qed
qed

lemma reth_head_eq:
  assumes log: "log_rep R (view s) log" and res: "results_rep R (view s) rs"
    and le: "length rs \<le> length log"
  shows "reth_head_message_index D R s = Ok (head_of (length rs))"
proof -
  have lt: "length log < 2 ^ 64" and
    cnt: "view s MESSAGE_COUNT_KEY = Some (enc (rlp_u64 R) (of_nat (length log)))"
    using log by (simp_all add: log_rep_def log_body_def)
  show ?thesis
  proof (cases "length log = 0")
    case True
    with cnt le show ?thesis by (simp add: reth_head_message_index_def decode_all_def head_of_def)
  next
    case False
    have u: "unat (of_nat (length log) :: u64) = length log" using lt by (rule unat_of_nat64)
    with False have nz: "of_nat (length log) \<noteq> (0 :: u64)" by (metis unat_0)
    then have "unat (of_nat (length log) - 1 :: u64) = length log - 1"
      using u by (simp add: unat_minus_one)
    with cnt nz le False head_search_eq [OF res, of "of_nat (length log) - 1"] show ?thesis
      by (simp add: reth_head_message_index_def decode_all_def)
  qed
qed

text \<open>The index after the head is the number of results.\<close>

lemma next_index:
  assumes "n < 2 ^ 64 - 1"
  shows "(if head_of n = - 1 then 0 else head_of n + 1) = (of_nat n :: u64)"
proof (cases "n = 0")
  case True
  then show ?thesis by (simp add: head_of_def)
next
  case False
  have "unat (of_nat (n - 1) :: u64) = n - 1" using assms by (intro unat_of_nat64) simp
  with False have "unat (head_of n) = n - 1" by (simp add: head_of_def del: of_nat_diff)
  then have "head_of n \<noteq> - 1" using assms by auto
  moreover have "head_of n + 1 = of_nat n"
    using False by (simp add: head_of_def)
  ultimately show ?thesis by simp
qed

lemma digest_parent_hash_eq:
  assumes "results_rep R (view s) rs" and "unat i \<le> length rs"
  shows "digest_parent_hash D R g s i =
    Ok (if i = 0 then g else res_block_hash (rs ! (unat i - 1)))"
proof (cases "i = 0")
  case True
  then show ?thesis by (simp add: digest_parent_hash_def)
next
  case False
  then have u: "unat (i - 1) = unat i - 1" "0 < unat i"
    by (simp_all add: unat_minus_one unat_gt_0)
  with assms have "view s (db_key MESSAGE_RESULT_PREFIX (i - 1)) =
      Some (MessageResult_encode R (rs ! (unat i - 1)))"
    by (simp add: results_rep_def)
  with False show ?thesis
    by (simp add: digest_parent_hash_def decode_all_def codec_simps)
qed

section \<open>One step of execution\<close>

lemma execute_eq:
  assumes log: "log_rep R (view s) log" and res: "results_rep R (view s) rs"
    and head: "head_message_index X = (\<lambda>s x. reth_head_message_index D R s)"
    and lt: "length rs < length log"
  shows "execute_next_msg D R X (s, x) =
    (case digest_message X s (of_nat (length rs)) (fst (log ! length rs)) (prefetch log (length rs)) x of
       (Ok r, x') \<Rightarrow>
         (Ok (length rs + 2 \<le> length log), (after (store_result R (of_nat (length rs)) r []) s, x'))
     | (Err e, x') \<Rightarrow> (Err e, (s, x'))
     | (Panic, x') \<Rightarrow> (Panic, (s, x'))
     | (Diverge, x') \<Rightarrow> (Diverge, (s, x')))"
proof -
  let ?n = "length rs" let ?i = "of_nat (length rs) :: u64"
  have ll: "length log < 2 ^ 64" using log by (simp add: log_rep_def log_body_def)
  have ui: "unat ?i = ?n" using lt ll by (simp add: unat_of_nat64)
  have uc: "unat (of_nat (length log) :: u64) = length log" using ll by (rule unat_of_nat64)
  have ui1: "unat (?i + 1) = ?n + 1" using lt ll ui by (simp add: unat_Suc64)
  have cnz: "of_nat (length log) \<noteq> (0 :: u64)" using uc lt by (metis gr_implies_not0 unat_0)
  then have uh: "unat (of_nat (length log) - 1 :: u64) = length log - 1"
    using uc by (simp add: unat_minus_one)
  have nxt: "(if head_of ?n = - 1 then 0 else head_of ?n + 1) = ?i"
    using lt ll by (intro next_index) simp
  have consensus: "get_head_message_index D R s = Ok (of_nat (length log) - 1)"
    using message_count_eq [OF log] cnz by (simp add: get_head_message_index_def)
  have count: "get_message_count D R s = Ok (of_nat (length log))"
    using message_count_eq [OF log] by (simp add: get_message_count_def)
  have le: "\<not> of_nat (length log) \<le> ?i" using ui uc lt by (simp add: word_le_nat_alt)
  have pre: "?i + 1 < of_nat (length log) \<longleftrightarrow> ?n + 1 < length log"
    using ui1 uc by (simp add: word_less_nat_alt)
  have last: "?i + 1 \<le> of_nat (length log) - 1 \<longleftrightarrow> ?n + 2 \<le> length log"
    using ui1 uh lt by (auto simp: word_le_nat_alt)
  have msg: "get_message_with_metadata_and_block_info D R s ?i =
      Ok \<lparr>message_with_meta = fst (log ! ?n), block_hash = snd (log ! ?n),
          block_metadata = view s (db_key BLOCK_METADATA_INPUT_FEED_PREFIX ?i)\<rparr>"
    using read_back [OF log, of ?i] ui lt by simp
  have msg1: "?n + 1 < length log \<Longrightarrow> get_message D R s (?i + 1) = Ok (fst (log ! (?n + 1)))"
    using get_message_eq [OF log, of "?i + 1"] ui1 by simp
  show ?thesis
    using msg1
    by (simp add: execute_next_msg_def monad_simps consensus head reth_head_eq [OF log res] lt
        less_imp_le Let_def nxt count le msg pre last prefetch_def new_batch_def on_db_def write_eq
        split: prod.split result.split)
qed

lemma execute_caught_up:
  assumes log: "log_rep R (view s) log" and res: "results_rep R (view s) rs"
    and head: "head_message_index X = (\<lambda>s x. reth_head_message_index D R s)"
    and eq: "length rs = length log" and bound: "length log < 2 ^ 64 - 1"
  shows "execute_next_msg D R X (s, x) = (Ok False, (s, x))"
proof -
  have nxt: "(if head_of (length rs) = - 1 then 0 else head_of (length rs) + 1) = (of_nat (length rs) :: u64)"
    using bound eq by (intro next_index) simp
  have head_idx: "\<exists>h. get_head_message_index D R s = Ok h"
    using message_count_eq [OF log] by (simp add: get_head_message_index_def)
  have count: "get_message_count D R s = Ok (of_nat (length log))"
    using message_count_eq [OF log] by (simp add: get_message_count_def)
  show ?thesis
    using head_idx
    by (auto simp: execute_next_msg_def monad_simps head reth_head_eq [OF log res] eq
        nxt [unfolded eq] Let_def count)
qed

lemma store_result_reps:
  assumes log: "log_rep R (view s) log" and res: "results_rep R (view s) rs"
    and lt: "length rs < length log"
  shows "log_rep R (view (after (store_result R (of_nat (length rs)) r []) s)) log"
    and "results_rep R (view (after (store_result R (of_nat (length rs)) r []) s)) (rs @ [r])"
proof -
  let ?i = "of_nat (length rs) :: u64"
  have ui: "unat ?i = length rs"
    using log lt by (simp add: log_rep_def log_body_def unat_of_nat64)
  then have eq: "i = ?i \<longleftrightarrow> unat i = length rs" for i
    by (auto simp: word_unat_eq_iff)
  show "log_rep R (view (after (store_result R ?i r []) s)) log"
    using log lt by (simp add: log_rep_def log_body_def store_result_def batch_put_def key_simps eq)
  show "results_rep R (view (after (store_result R ?i r []) s)) (rs @ [r])"
    using res by (simp add: results_rep_def store_result_def batch_put_def key_simps eq nth_append
        less_Suc_eq)
qed

end

section \<open>Catching up\<close>

fun execute_times ::
    "'db database \<Rightarrow> rlp \<Rightarrow> ('db, 'x) exec_engine \<Rightarrow> nat \<Rightarrow> 'db \<times> 'x \<Rightarrow> 'db \<times> 'x" where
  "execute_times D R X 0 st = st"
| "execute_times D R X (Suc k) st = execute_times D R X k (snd (execute_next_msg D R X st))"

context node_store begin

lemma execute_times_results:
  assumes head: "head_message_index X = (\<lambda>s x. reth_head_message_index D R s)"
    and total: "\<And>s i m p x. \<exists>r x'. digest_message X s i m p x = (Ok r, x')"
  shows "log_rep R (view s) log \<Longrightarrow> results_rep R (view s) rs \<Longrightarrow> length rs + k \<le> length log \<Longrightarrow>
    \<exists>rs'. length rs' = length rs + k \<and> take (length rs) rs' = rs \<and>
      log_rep R (view (fst (execute_times D R X k (s, x)))) log \<and>
      results_rep R (view (fst (execute_times D R X k (s, x)))) rs'"
proof (induction k arbitrary: s x rs)
  case 0
  then show ?case by (intro exI [of _ rs]) simp
next
  case (Suc k)
  have lt: "length rs < length log" using Suc.prems by simp
  obtain r x' where d: "digest_message X s (of_nat (length rs)) (fst (log ! length rs))
      (prefetch log (length rs)) x = (Ok r, x')"
    using total by blast
  let ?s = "after (store_result R (of_nat (length rs)) r []) s"
  have step: "snd (execute_next_msg D R X (s, x)) = (?s, x')"
    by (simp add: execute_eq [OF Suc.prems(1,2) head lt] d)
  obtain rs' where rs': "length rs' = length (rs @ [r]) + k" "take (length (rs @ [r])) rs' = rs @ [r]"
      "log_rep R (view (fst (execute_times D R X k (?s, x')))) log"
      "results_rep R (view (fst (execute_times D R X k (?s, x')))) rs'"
    using Suc.IH [OF store_result_reps [OF Suc.prems(1,2) lt, of r]] Suc.prems(3) by fastforce
  have "take (length rs) rs' = take (length rs) (take (length (rs @ [r])) rs')" by (simp add: min_def)
  also have "\<dots> = rs" unfolding rs'(2) by simp
  finally show ?case using rs' by (intro exI [of _ rs']) (simp add: step)
qed

end

section \<open>Timestamps\<close>

lemma next_timestamp_gt: "prev \<noteq> - 1 \<Longrightarrow> prev < next_timestamp prev ts"
proof -
  assume ne: "prev \<noteq> - 1"
  then have "unat prev \<noteq> 18446744073709551615" by (simp add: word_unat_eq_iff)
  with unat_lt64 [of prev] have "unat prev + 1 < 18446744073709551616" by linarith
  then have "prev < sat_add prev 1" by (simp add: sat_add_def word_less_nat_alt unat_Suc64)
  then show ?thesis by (auto simp: next_timestamp_def not_le)
qed

lemma next_timestamp_ge: "prev \<le> next_timestamp prev ts" "ts \<le> next_timestamp prev ts"
proof -
  have "unat prev \<le> 18446744073709551615" using unat_lt64 [of prev] by linarith
  then have "unat prev \<le> unat (sat_add prev 1)" by (simp add: unat_sat_add min_def)
  then show "prev \<le> next_timestamp prev ts" "ts \<le> next_timestamp prev ts"
    by (auto simp: next_timestamp_def word_le_nat_alt)
qed

text \<open>\<open>ts_mono b m\<close>: when \<open>m\<close> succeeds from a state at or after time \<open>b\<close>, so it leaves it.\<close>

definition ts_mono :: "u64 \<Rightarrow> ('w engine_state, 'a) M \<Rightarrow> bool" where
  "ts_mono b m \<longleftrightarrow>
     (\<forall>x r x'. m x = (Ok r, x') \<longrightarrow> b \<le> last_timestamp x \<longrightarrow> b \<le> last_timestamp x')"

lemma ts_monoD: "ts_mono b m \<Longrightarrow> m x = (Ok r, x') \<Longrightarrow> b \<le> last_timestamp x \<Longrightarrow> b \<le> last_timestamp x'"
  unfolding ts_mono_def by blast

lemma ts_mono_bind: "ts_mono b m \<Longrightarrow> (\<And>y. ts_mono b (f y)) \<Longrightarrow> ts_mono b (bindM m f)"
  unfolding ts_mono_def bindM_Ok_iff by blast

lemma ts_mono_basic:
  "ts_mono b (on_world k)" "ts_mono b (okM r)" "ts_mono b (bailM e)"
  "ts_mono b (\<lambda>x. (Ok (), x\<lparr>last_timestamp := max (last_timestamp x) t\<rparr>))"
  by (auto simp: ts_mono_def on_world_def okM_def bailM_def le_max_iff_disj split: prod.splits)

lemma ts_mono_choices:
  "ts_mono b m1 \<Longrightarrow> ts_mono b m2 \<Longrightarrow> ts_mono b (if c then m1 else m2)"
  "\<lbrakk>\<And>e. ts_mono b (i e); ts_mono b v; ts_mono b s; ts_mono b a\<rbrakk> \<Longrightarrow>
   ts_mono b (case st of Valid \<Rightarrow> v | Invalid e \<Rightarrow> i e | Syncing \<Rightarrow> s | Accepted \<Rightarrow> a)"
  by (simp_all split: PayloadStatusEnum.split)

lemmas ts_mono_intros = ts_mono_bind ts_mono_basic ts_mono_choices

lemma digest_timestamp:
  assumes run: "reth_digest_message D R E s i msg pf x = (Ok r, x')"
  shows "next_timestamp (last_timestamp x) (timestamp (header (message msg))) \<le> last_timestamp x'"
proof -
  let ?t = "next_timestamp (last_timestamp x) (timestamp (header (message msg)))"
  obtain beacon builder where h: "beacon_engine_handle E = Some beacon"
      "payload_builder_handle E = Some builder"
    using run by (auto simp: reth_digest_message_def bailM_def split: option.splits)
  obtain k :: "('a engine_state, MessageResult) M"
    where k: "k (x\<lparr>last_timestamp := ?t\<rparr>) = (Ok r, x')" and mono: "ts_mono ?t k"
    using run
    unfolding reth_digest_message_def h option.case
    by (subst (asm) bindM_Ok_iff, subst (asm) bindM_Ok_iff)
       (auto simp: liftR_def Let_def intro!: ts_mono_intros)
  from ts_monoD [OF mono k] show ?thesis by simp
qed

section \<open>The retry loop\<close>

lemma send_new_payload_loop_calls:
  fixes calls :: "'w \<Rightarrow> nat"
  assumes step: "\<And>w. calls (snd (send_new_payload B parent ts w)) \<le> calls w + 1"
  shows "attempts \<le> 60 \<Longrightarrow>
    calls (snd (send_new_payload_loop B parent ts attempts w)) \<le> calls w + (61 - attempts)"
proof (induction "61 - attempts" arbitrary: attempts w)
  case 0
  then show ?case by simp
next
  case (Suc k)
  obtain a w' where s: "send_new_payload B parent ts w = (a, w')" by (cases "send_new_payload B parent ts w")
  have c: "calls w' \<le> calls w + 1" using step [of w] s by simp
  have next_try: "calls (snd (send_new_payload_loop B parent ts (attempts + 1) w')) \<le> calls w + (61 - attempts)"
    if "attempts < 60"
  proof -
    have "k = 61 - (attempts + 1)" "attempts + 1 \<le> 60" using Suc.hyps(2) that by simp_all
    from Suc.hyps(1) [OF this, of w'] show ?thesis using c that by linarith
  qed
  show ?case
    using c next_try Suc.prems
    by (subst send_new_payload_loop.simps) (auto simp: s split: send_reply.split)
qed

end
