(* ===== verification/Log_Results.thy ===== *)
theory Log_Results
  imports Engine_Correct
begin

text \<open>
  What the operations on the log do to the results of the execution: an append keeps them, a reorg
  drops those of the messages it drops, and an index that has none answers none.
\<close>

lemma write_message_results:
  "apply_ops (write_message R idx x [] track) m (db_key MESSAGE_RESULT_PREFIX i) = m (db_key MESSAGE_RESULT_PREFIX i)"
  by (simp add: write_message_def batch_put_def Let_def key_simps split: option.split)

lemma write_loop_results:
  "apply_ops (write_message_loop R idx ms [] track) m (db_key MESSAGE_RESULT_PREFIX i) = m (db_key MESSAGE_RESULT_PREFIX i)"
proof (induction ms arbitrary: idx m)
  case (Cons x ms)
  have "apply_ops (write_message_loop R idx (x # ms) [] track) m =
      apply_ops (write_message_loop R (idx + 1) ms [] track) (apply_ops (write_message R idx x [] track) m)"
    by (simp add: write_message_loop_append [of R "idx + 1" ms "write_message R idx x [] track"])
  with Cons show ?case by (simp add: write_message_results)
qed simp

definition results_upto :: "(bytes \<rightharpoonup> bytes) \<Rightarrow> (bytes \<rightharpoonup> bytes) \<Rightarrow> u64 option \<Rightarrow> bool" where
  "results_upto m m' n \<longleftrightarrow> (\<forall>i. m' (db_key MESSAGE_RESULT_PREFIX i) =
     (if \<exists>k. n = Some k \<and> k \<le> i then None else m (db_key MESSAGE_RESULT_PREFIX i)))"

lemma results_rep_upto:
  "results_rep R m rs \<Longrightarrow> results_upto m m' None \<Longrightarrow> results_rep R m' rs"
  "results_rep R m rs \<Longrightarrow> results_upto m m' (Some n) \<Longrightarrow> results_rep R m' (take (unat n) rs)"
  by (auto simp: results_rep_def results_upto_def word_le_nat_alt)

lemma results_upto_same [simp]: "results_upto m m None"
  by (simp add: results_upto_def)

lemma results_upto_trans [trans]: "results_upto a b None \<Longrightarrow> results_upto b c None \<Longrightarrow> results_upto a c None"
  by (simp add: results_upto_def)

lemma results_upto_frame: "(\<And>k. stream_key k \<Longrightarrow> m' k = m k) \<Longrightarrow> results_upto m m' None"
  by (simp add: results_upto_def key_simps)

context node_store begin

lemma write_messages_results: "results_upto (view s) (view (snd (write_messages D R idx ms None track s))) None"
  using write_loop_results [of R idx ms track "view s"]
  by (simp add: write_messages_def new_batch_def write_eq Let_def results_upto_def set_message_count_def batch_put_def
      key_simps)

lemma append_results:
  assumes "log_rep R (view s) log"
  shows "results_upto (view s) (view (snd (add_messages_and_end_batch_impl D R first confirmed ms track s))) None"
  using write_messages_results by (auto simp: append_eq [OF assms] results_upto_def split: result.split)

lemma reorg_results:
  assumes "n \<noteq> 0"
  shows "results_upto (view s) (view (snd (add_messages_and_reorg D R n ms track s))) (Some n)"
proof -
  obtain s1 where v1: "view s1 = (wipe_from n (view s))(MESSAGE_COUNT_KEY \<mapsto> enc (rlp_u64 R) n)"
    and run: "add_messages_and_reorg D R n ms track s =
      (if ms \<noteq> [] then write_messages D R n ms None track s1 else (Ok (), s1))"
    by (rule reorg_deletes [OF assms])
  have "results_upto (view s) (view s1) (Some n)"
    using results_wipe_from [of n "view s"] by (simp add: v1 results_upto_def key_simps)
  with write_messages_results [of s1 n ms track] show ?thesis by (simp add: run results_upto_def)
qed

lemma result_at_eq:
  assumes "results_rep R (view s) rs"
  shows "result_at_message_index D R s i = Ok (if unat i < length rs then Some (rs ! unat i) else None)"
  using assms by (simp add: result_at_message_index_def get_opt_def get results_rep_def decode_all_def codec_simps)

end

section \<open>The streamer's loop\<close>

text \<open>
  \<open>faulty X faults\<close>: the engine never panics, and \<open>faults\<close> bounds how often it can still fail.
\<close>

definition faulty :: "('db, 'x) exec_engine \<Rightarrow> ('x \<Rightarrow> nat) \<Rightarrow> bool" where
  "faulty X faults \<longleftrightarrow> (\<forall>s i m p x. case digest_message X s i m p x of
     (Ok r, x') \<Rightarrow> faults x' \<le> faults x | (Err e, x') \<Rightarrow> faults x' < faults x | _ \<Rightarrow> False)"

context node_store begin

lemma start_streamer_results:
  assumes head: "head_message_index X = (\<lambda>s x. reth_head_message_index D R s)" and faulty: "faulty X faults"
    and bound: "length log < 2 ^ 64 - 1"
  shows "log_rep R (view s) log \<Longrightarrow> results_rep R (view s) rs \<Longrightarrow> length rs \<le> length log \<Longrightarrow>
    \<exists>s' x' rs'. start_streamer D R X n (s, x) = (Ok (), (s', x')) \<and> log_rep R (view s') log \<and>
      results_rep R (view s') (rs @ rs') \<and> length (rs @ rs') \<le> length log \<and>
      min (length log) (length rs + (n - faults x)) \<le> length (rs @ rs')"
proof (induction n arbitrary: s x rs)
  case 0
  then show ?case by (intro exI [of _ s] exI [of _ x] exI [of _ "[]"]) (simp add: okM_def)
next
  case (Suc n)
  show ?case
  proof (cases "length rs < length log")
    case False
    with Suc.prems have eq: "length rs = length log" by simp
    note step = execute_caught_up [OF Suc.prems(1,2) head eq bound]
    from Suc.IH [OF Suc.prems, of x] eq show ?thesis by (simp add: matchM_def step)
  next
    case lt: True
    note step = execute_eq [OF Suc.prems(1,2) head lt]
    let ?d = "digest_message X s (of_nat (length rs)) (fst (log ! length rs)) (prefetch log (length rs)) x"
    have budget: "case ?d of (Ok r, x') \<Rightarrow> faults x' \<le> faults x | (Err e, x') \<Rightarrow> faults x' < faults x | _ \<Rightarrow> False"
      using faulty by (simp add: faulty_def)
    obtain d x1 where d: "?d = (d, x1)" by fastforce
    show ?thesis
    proof (cases d)
      case (Err e)
      with d budget have less: "faults x1 < faults x" by simp
      from Suc.IH [OF Suc.prems, of x1] obtain s' x' rs' where
        "start_streamer D R X n (s, x1) = (Ok (), (s', x'))" "log_rep R (view s') log"
        "results_rep R (view s') (rs @ rs')" "length (rs @ rs') \<le> length log"
        "min (length log) (length rs + (n - faults x1)) \<le> length (rs @ rs')" by blast
      moreover have "Suc n - faults x \<le> n - faults x1" using less by linarith
      ultimately show ?thesis
        by (intro exI [of _ s'] exI [of _ x'] exI [of _ rs']) (auto simp: matchM_def step d Err)
    next
      case (Ok r)
      with d budget have le: "faults x1 \<le> faults x" by simp
      let ?s = "after (store_result R (of_nat (length rs)) r []) s"
      from Suc.IH [OF store_result_reps [OF Suc.prems(1,2) lt, of r], of x1] lt obtain s' x' rs' where
        "start_streamer D R X n (?s, x1) = (Ok (), (s', x'))" "log_rep R (view s') log"
        "results_rep R (view s') ((rs @ [r]) @ rs')" "length ((rs @ [r]) @ rs') \<le> length log"
        "min (length log) (length (rs @ [r]) + (n - faults x1)) \<le> length ((rs @ [r]) @ rs')" by fastforce
      moreover have "length rs + (Suc n - faults x) \<le> length (rs @ [r]) + (n - faults x1)"
        using le by simp
      ultimately show ?thesis
        by (intro exI [of _ s'] exI [of _ x'] exI [of _ "r # rs'"]) (auto simp: matchM_def step d Ok)
    qed (use d budget in simp_all)
  qed
qed

end

end
