(* ===== verification/Tracker_Stream.thy ===== *)
theory Tracker_Stream
  imports Mux_Counts Tracker_Batches Log_Results
begin

text \<open>
  From the batches the parent chain delivers to the log of messages: the tracker's batch source
  meets the contract of the multiplexer, and handing it batches extends the log by their messages
  and the metadata by their counts, in step.
\<close>

section \<open>The source\<close>

definition batch_bytes :: "SequencerInboxBatch \<Rightarrow> bytes \<times> b256 option" where
  "batch_bytes b = (serialized b, Some (batch_block_hash b))"

definition pending :: "TrackerBackend \<Rightarrow> (bytes \<times> b256 option) list" where
  "pending b = map batch_bytes (drop (tb_batch_idx b) (tb_batches b))"

text \<open>The delayed message at an index, from the stored ones.\<close>

definition delayed_at :: "bytes list \<Rightarrow> u64 \<Rightarrow> L1IncomingMessage result" where
  "delayed_at dms n =
     (if unat n < length dms then parse_incoming_l1_message_legacy (dms ! unat n) else Err not_found)"

lemma pending_Cons: "pending b = x # xs \<Longrightarrow> tb_batch_idx b < length (tb_batches b) \<and>
    x = batch_bytes (tb_batches b ! tb_batch_idx b)"
  by (cases "tb_batch_idx b < length (tb_batches b)") (auto simp: pending_def Cons_nth_drop_Suc [symmetric])

lemma tracker_batch_source:
  assumes "alloy_rlp R"
  shows "batch_source R (tracker_backend D s) pending (get_delayed_message D s)"
proof (rule batch_source.intro [OF assms], unfold_locales)
  fix b x xs assume "pending b = x # xs"
  then show "peek_sequencer_inbox (tracker_backend D s) b = (Ok x, b)"
    by (auto simp: tracker_backend_def current_batch_def batch_bytes_def dest!: pending_Cons)
next
  fix b assume "pending b = []"
  then show "\<exists>e. peek_sequencer_inbox (tracker_backend D s) b = (Err e, b)"
    by (simp add: tracker_backend_def current_batch_def pending_def)
next
  fix b show "pending (advance_sequencer_inbox (tracker_backend D s) b) = tl (pending b)"
    by (simp add: tracker_backend_def pending_def drop_Suc flip: map_tl) (simp add: tl_drop drop_Suc)
qed (simp_all add: tracker_backend_def pending_def)

context tracker_node begin

sublocale source: batch_source R "tracker_backend D s" pending "get_delayed_message D s" for s
  by (rule tracker_batch_source) (rule alloy_rlp_axioms)

end

section \<open>How many messages there are\<close>

lemma length_walk_segments:
  "walk_segments R brotli delayed seq h r tb d = Ok (ms, d') \<Longrightarrow> length ms \<le> length r"
proof (induction r arbitrary: tb d ms)
  case (Cons seg r)
  then show ?case
    by (cases "skipped seg") (fastforce simp: bindR_Ok_iff intro: le_SucI)+
qed simp

lemma length_walk_delayed: "walk_delayed delayed d k = Ok ms \<Longrightarrow> length ms = k"
  by (induction k arbitrary: d ms) (auto simp: bindR_Ok_iff)

lemma length_batch_messages:
  assumes ms: "batch_messages R brotli delayed seq h d = Ok ms"
  shows "length ms \<le> length (segments seq) + 2 ^ 64"
proof (cases "after_delayed_messages seq \<le> d \<and> filter message_segment (segments seq) = []")
  case True
  with ms show ?thesis by (auto simp: batch_messages_def)
next
  case False
  then obtain ms1 d' tail where "walk_segments R brotli delayed seq h (segments seq) (0, 0) d = Ok (ms1, d')"
      "walk_delayed delayed d' (unat (after_delayed_messages seq) - unat d') = Ok tail" "ms = ms1 @ tail"
    using ms by (auto simp: batch_messages_def bindR_Ok_iff split: if_splits)
  with length_walk_segments length_walk_delayed have "length ms \<le>
      length (segments seq) + (unat (after_delayed_messages seq) - unat d')"
    by fastforce
  with unat_lt64 [of "after_delayed_messages seq"] show ?thesis by (simp del: unat_lt64)
qed

text \<open>The fuel of the drain loop is enough: each batch has at most this many messages.\<close>

context alloy_rlp begin

lemma length_stream_messages:
  "parse_batches R brotli bs = Ok ps \<Longrightarrow> stream_messages R brotli delayed ps d = Ok ms \<Longrightarrow>
   length ms \<le> length bs * (2 ^ 64 + 100 * 1024 + 1)"
proof (induction bs arbitrary: ps d ms)
  case Nil
  then show ?case by simp
next
  case (Cons b bs)
  obtain bytes h where b: "b = (bytes, h)" by (cases b)
  obtain seq ps' ms1 ms2 where parse: "parse_sequencer_message R brotli 0 h bytes = Ok seq"
      and rest: "parse_batches R brotli bs = Ok ps'" and ms1: "batch_messages R brotli delayed seq h d = Ok ms1"
      and ms2: "stream_messages R brotli delayed ps' (after_delayed_messages seq) = Ok ms2" and ms: "ms = ms1 @ ms2"
    using Cons.prems b by (auto simp: bindR_Ok_iff)
  have "length ms1 \<le> 2 ^ 64 + 100 * 1024 + 1"
    using length_batch_messages [OF ms1] parse_sequencer_message_segments [OF parse] by linarith
  with Cons.IH [OF rest ms2] ms show ?case by simp
qed

end

text \<open>
  \<open>consistent d bs ps\<close>: the parsed batches \<open>ps\<close> read the delayed messages the parent chain says
  the batches \<open>bs\<close> read, from \<open>d\<close> on, and are regular.
\<close>

fun consistent :: "u64 \<Rightarrow> SequencerInboxBatch list \<Rightarrow> (SequencerMessage \<times> b256 option) list \<Rightarrow> bool" where
  "consistent d [] [] = True"
| "consistent d (b # bs) ((seq, h) # ps) =
     (after_delayed_count b = after_delayed_messages seq \<and> regular seq d \<and>
      consistent (after_delayed_messages seq) bs ps)"
| "consistent d _ _ = False"

lemma consistent_known:
  "consistent d bs ps \<Longrightarrow> list_all (\<lambda>(seq, h). list_all known_segment (segments seq)) ps"
  by (induction d bs ps rule: consistent.induct) (auto simp: regular_def)

lemma consistent_ascending: "consistent d bs ps \<Longrightarrow> delayed_ascending d ps"
  by (induction d bs ps rule: consistent.induct) (auto simp: regular_def)

text \<open>What the metadata of the batches say, against the messages they have.\<close>

lemma consistent_metadata:
  "consistent d bs ps \<Longrightarrow> parse_batches R brotli (map batch_bytes bs) = Ok ps \<Longrightarrow>
   stream_messages R brotli delayed ps d = Ok msgs \<Longrightarrow> bm_delayed_message_count prev = d \<Longrightarrow>
   \<exists>metas. metadata_of R brotli prev bs = Ok metas \<and> ascending (prev # metas) \<and>
     bm_message_count (last (prev # metas)) = bm_message_count prev + of_nat (length msgs) \<and>
     bm_delayed_message_count (last (prev # metas)) = last (d # map (after_delayed_messages \<circ> fst) ps)"
proof (induction d bs ps arbitrary: prev msgs rule: consistent.induct)
  case (1 d)
  then show ?case by (auto simp: ascending_def)
next
  case (2 d b bs seq h ps)
  let ?meta = "batch_metadata seq b prev"
  have parse: "parse_sequencer_message R brotli n h' (serialized b) = Ok seq" for n h'
    using 2(3) parse_sequencer_message_args [of R brotli 0 "Some (batch_block_hash b)" "serialized b" n h']
    by (auto simp: batch_bytes_def bindR_Ok_iff)
  have rest: "parse_batches R brotli (map batch_bytes bs) = Ok ps"
    using 2(3) by (auto simp: batch_bytes_def [of b] bindR_Ok_iff)
  obtain m1 m2 where m1: "batch_messages R brotli delayed seq h d = Ok m1"
    and m2: "stream_messages R brotli delayed ps (after_delayed_messages seq) = Ok m2" and ms: "msgs = m1 @ m2"
    using 2(4) by (auto simp: bindR_Ok_iff)
  have c: "consistent (after_delayed_messages seq) bs ps" "regular seq d"
    "after_delayed_count b = after_delayed_messages seq" "d \<le> after_delayed_messages seq"
    using 2(2) by (auto simp: regular_def)
  have count: "bm_message_count ?meta = bm_message_count prev + of_nat (length m1)"
    using batch_metadata_count [of R brotli delayed seq h prev m1 b] m1 c 2(5) by simp
  obtain metas where metas: "metadata_of R brotli ?meta bs = Ok metas" "ascending (?meta # metas)"
      "bm_message_count (last (?meta # metas)) = bm_message_count ?meta + of_nat (length m2)"
      "bm_delayed_message_count (last (?meta # metas)) =
        last (after_delayed_messages seq # map (after_delayed_messages \<circ> fst) ps)"
    using 2(1) [OF c(1) rest m2, of ?meta] c(3) by (auto simp: metadata_delayed o_def)
  have "ascending (prev # ?meta # metas)"
    using metas(2) c 2(5) by (auto simp: ascending_def metadata_delayed)
  with metas parse count ms show ?case by (simp add: o_def)
qed simp_all

section \<open>Streaming batches\<close>

text \<open>
  A node that is in step: the last metadata count the messages of the log and the delayed messages
  it has read.
\<close>

definition in_step :: "log_entry list \<Rightarrow> BatchMetadata list \<Rightarrow> bool" where
  "in_step log ms \<longleftrightarrow>
     bm_message_count (last_metadata ms) = of_nat (length log) \<and>
     bm_delayed_message_count (last_metadata ms) = last_read log"

lemma ascending_snoc:
  "ascending ms \<Longrightarrow> ascending (last_metadata ms # metas) \<Longrightarrow> ascending (ms @ metas)"
proof -
  assume asc: "ascending ms" "ascending (last_metadata ms # metas)"
  with ascending_le_last [OF asc(1)] show ?thesis
    by (fastforce simp: ascending_def sorted_wrt_append last_delayed_metadata)
qed

lemma log_rep_frame:
  assumes "log_rep R m log" and "\<And>k. stream_key k \<Longrightarrow> m' k = m k"
  shows "log_rep R m' log"
proof -
  have "m' MESSAGE_COUNT_KEY = m MESSAGE_COUNT_KEY"
    "\<And>i. m' (db_key MESSAGE_PREFIX i) = m (db_key MESSAGE_PREFIX i)"
    "\<And>i. m' (db_key BLOCK_HASH_INPUT_FEED_PREFIX i) = m (db_key BLOCK_HASH_INPUT_FEED_PREFIX i)"
    "\<And>i. m' (db_key BLOCK_METADATA_INPUT_FEED_PREFIX i) = m (db_key BLOCK_METADATA_INPUT_FEED_PREFIX i)"
    "\<And>i. m' (db_key MISSING_BLOCK_METADATA_INPUT_FEED_PREFIX i) =
      m (db_key MISSING_BLOCK_METADATA_INPUT_FEED_PREFIX i)"
    "\<And>i. m' (db_key MESSAGE_RESULT_PREFIX i) = m (db_key MESSAGE_RESULT_PREFIX i)"
    by (rule assms(2), simp add: stream_key_def db_key_def)+
  with assms(1) show ?thesis by (simp add: log_rep_def log_body_def)
qed

lemma inbox_rep_frame:
  assumes "inbox_rep R K m c dms ms" and same: "same_elsewhere m m'"
  shows "inbox_rep R K m' c dms ms"
proof -
  have keys: "m' (db_key p i) = m (db_key p i)"
    if "p \<in> {RLP_DELAYED_MESSAGE_PREFIX, LEGACY_DELAYED_MESSAGE_PREFIX, PARENT_CHAIN_BLOCK_NUMBER_PREFIX,
      SEQUENCER_BATCH_META_PREFIX, DELAYED_SEQUENCED_PREFIX}" for p i
    using same that by (auto simp: same_elsewhere_def key_simps)
  have counts: "m' DELAYED_MESSAGE_COUNT_KEY = m DELAYED_MESSAGE_COUNT_KEY"
    "m' SEQUENCER_BATCH_COUNT_KEY = m SEQUENCER_BATCH_COUNT_KEY"
    using same by (auto simp: same_elsewhere_def key_simps)
  have pfx: "m' k = m k" if "prefix DELAYED_SEQUENCED_PREFIX k" for k
    using same that by (auto simp: same_elsewhere_def stream_key_def prefixes_eval count_keys_eval prefix_def)
  from assms(1) keys counts pfx show ?thesis
    by (simp add: inbox_rep_def delayed_rep_def batches_rep_def)
qed

lemma last_entries: "last_read (log @ map entry ms) = last (last_read log # reads_of ms)"
  by (cases ms rule: rev_cases) (auto simp: last_read_def entry_def)

context tracker_node begin

lemma get_delayed_message_at:
  assumes "delayed_rep R K (view s) dms"
  shows "get_delayed_message D s = delayed_at dms"
proof
  fix i
  show "get_delayed_message D s i = delayed_at dms i"
  proof (cases "unat i < length dms")
    case True
    then show ?thesis
      using get_delayed_message_eq [OF assms True]
      by (auto simp: get_delayed_message_def delayed_at_def bindR_def split: result.split)
  next
    case False
    then show ?thesis
      using assms
      by (simp add: get_delayed_message_def delayed_at_def delayed_rep_def has get
          get_delayed_message_accumulator_and_parent_chain_block_number_def
          legacy_get_delayed_message_and_accumulator_def)
  qed
qed

lemma pop_batches_eq:
  assumes rep: "delayed_rep R K (view s) dms"
    and parse: "parse_batches R (ev_brotli ev) (map batch_bytes bs) = Ok ps"
    and known: "list_all (\<lambda>(seq, h). list_all known_segment (segments seq)) ps"
    and msgs: "stream_messages R (ev_brotli ev) (delayed_at dms) ps d = Ok msgs"
  shows "pop_batches ev bs d s = Ok msgs"
proof -
  have "source.at_batch s (new_multiplexer (build_backend bs) d) (map batch_bytes bs) d"
    unfolding source.at_batch_def
    by (simp add: new_multiplexer_def build_backend_def pending_def tracker_backend_def)
  moreover have "length msgs < pop_fuel bs"
    using length_stream_messages [OF parse msgs] by (simp add: pop_fuel_def algebra_simps)
  moreover have "stream_messages R (ev_brotli ev) (get_delayed_message D s) ps d = Ok msgs"
    using msgs by (simp add: get_delayed_message_at [OF rep])
  ultimately show ?thesis
    using source.pop_all_stream [OF _ parse known] by (simp add: pop_batches_def)
qed

text \<open>
  A node in step that is handed the next batches adds their messages to the log and their metadata
  to the metadata, and stays in step.
\<close>

lemma stream_refines_results:
  assumes log: "log_rep R (view (tr_db t)) log" and rep: "rep t dms ms" and step: "in_step log ms"
    and ne: "bs \<noteq> []" and p: "length ms = unat (sequence_number (hd bs))"
    and len: "length ms + length bs < 2 ^ 64 - 1" "length log + length msgs < 2 ^ 64"
    and acc: "accepted K dms (accumulator (last_metadata ms)) (sequence_number (hd bs)) bs"
    and parse: "parse_batches R (ev_brotli ev) (map batch_bytes bs) = Ok ps"
    and cons: "consistent (last_read log) bs ps"
    and msgs: "stream_messages R (ev_brotli ev) (delayed_at dms) ps (last_read log) = Ok msgs"
  obtains t' metas where "add_sequencer_batches_and_stream ev bs t = (Ok (), t')"
    and "metadata_of R (ev_brotli ev) (last_metadata ms) bs = Ok metas"
    and "log_rep R (view (tr_db t')) (log @ map entry msgs)" and "rep t' dms (ms @ metas)"
    and "in_step (log @ map entry msgs) (ms @ metas)" and "results_upto (view (tr_db t)) (view (tr_db t')) None"
proof -
  let ?p = "sequence_number (hd bs)" let ?prev = "last_metadata ms" let ?d = "last_read log"
  have taken: "take (unat ?p) ms = ms" using p by simp
  obtain metas where metas: "metadata_of R (ev_brotli ev) ?prev bs = Ok metas"
    and asc: "ascending (?prev # metas)"
    and counts: "bm_message_count (last (?prev # metas)) = bm_message_count ?prev + of_nat (length msgs)"
      "bm_delayed_message_count (last (?prev # metas)) = last (?d # map (after_delayed_messages \<circ> fst) ps)"
    using consistent_metadata [OF cons parse msgs, of ?prev] step by (auto simp: in_step_def)
  have reads: "reads_ok ?d (reads_of msgs)"
      "last (?d # reads_of msgs) = last (?d # map (after_delayed_messages \<circ> fst) ps)"
    using stream_reads [OF msgs consistent_ascending [OF cons]] by auto
  have drep: "delayed_rep R K (view (tr_db t)) dms" using rep by (simp add: rep_def inbox_rep_def)
  obtain t1 where prev: "(if ?p > 0 then get_batch_metadata ev (?p - 1) else okM no_metadata) t = (Ok ?prev, t1)"
    and db1: "tr_db t1 = tr_db t" and rep1: "rep t1 dms ms"
    using previous_metadata [OF rep, of ?p] p by auto
  have count: "read_u64 D R (tr_db t) MESSAGE_COUNT_KEY = Ok (of_nat (length log))"
    using log by (simp add: read_u64_def log_rep_def decode_all_def)
  have window: "align_window ev ?p ?prev (of_nat (length log)) t1 = (Ok (Some (of_nat (length log), ?d)), t1)"
    using step by (simp add: align_window_def in_step_def okM_def)
  have out: "pop_batches ev bs ?d (tr_db t) = Ok msgs"
    by (rule pop_batches_eq [OF drep parse consistent_known [OF cons] msgs])
  have "ps \<noteq> []" using cons ne by (cases ps) (auto elim: consistent.elims)
  then have nonempty: "msgs \<noteq> []"
    using msgs by (cases ps) (auto simp: bindR_Ok_iff dest: batch_messages_nonempty)
  have first: "unat (of_nat (length log) :: u64) = length log"
    using len(2) by (intro unat_of_nat64) simp
  obtain s2 where append: "add_messages_and_end_batch_impl D R (of_nat (length log)) True msgs None (tr_db t1) = (Ok (), s2)"
    and log2: "log_rep R (view s2) (log @ map entry msgs)" and same2: "same_elsewhere (view (tr_db t1)) (view s2)"
    using append_refines [of "tr_db t1" log "of_nat (length log)" msgs True None] log db1 first len(2) reads(1) by auto
  let ?t2 = "t1\<lparr>tr_db := s2\<rparr>"
  have rep2: "rep ?t2 dms ms" using rep1 inbox_rep_frame [OF _ same2] by (simp add: rep_def)
  have "ascending ms" using rep by (simp add: rep_def inbox_rep_def batches_rep_def)
  then have asc2: "ascending (take (unat ?p) ms @ metas)" using ascending_snoc asc taken by simp
  obtain t' where record_: "add_sequencer_batches ev bs ?t2 = (Ok (), t')" and rep': "rep t' dms (ms @ metas)"
    and frame: "\<And>k. stream_key k \<Longrightarrow> view (tr_db t') k = view (tr_db ?t2) k"
    using add_batches_refines [OF rep2 ne, of ?p metas] p len(1) acc metas asc2 unfolding taken by auto
  have log': "log_rep R (view (tr_db t')) (log @ map entry msgs)"
    by (rule log_rep_frame [OF log2]) (use frame in simp)
  have "add_sequencer_batches_and_stream ev bs t = (Ok (), t')"
    using ne prev count window out append record_ nonempty db1
    by (simp add: add_sequencer_batches_and_stream_def bindM_def db_read_def readM_def db_op_def Let_def
        add_confirmed_messages_and_end_batch_def)
  moreover have "in_step (log @ map entry msgs) (ms @ metas)"
  proof -
    have "metas \<noteq> []" using length_metadata_of [OF metas] ne by auto
    then have "last_metadata (ms @ metas) = last (?prev # metas)" by (simp add: last_metadata_def)
    with counts step reads(2) show ?thesis by (simp add: in_step_def last_entries)
  qed
  moreover have "results_upto (view (tr_db t)) (view (tr_db t')) None"
  proof -
    have "results_upto (view (tr_db t1)) (view s2) None"
      using append_results [of "tr_db t1" log "of_nat (length log)" True msgs None] log db1 append by simp
    moreover have "stream_key (db_key MESSAGE_RESULT_PREFIX i)" for i by (simp add: key_simps)
    ultimately show ?thesis using frame db1 by (simp add: results_upto_def)
  qed
  ultimately show thesis using that metas log' rep' by blast
qed

lemma stream_refines:
  assumes "log_rep R (view (tr_db t)) log" and "rep t dms ms" and "in_step log ms"
    and "bs \<noteq> []" and "length ms = unat (sequence_number (hd bs))"
    and "length ms + length bs < 2 ^ 64 - 1" "length log + length msgs < 2 ^ 64"
    and "accepted K dms (accumulator (last_metadata ms)) (sequence_number (hd bs)) bs"
    and "parse_batches R (ev_brotli ev) (map batch_bytes bs) = Ok ps"
    and "consistent (last_read log) bs ps"
    and "stream_messages R (ev_brotli ev) (delayed_at dms) ps (last_read log) = Ok msgs"
  obtains t' metas where "add_sequencer_batches_and_stream ev bs t = (Ok (), t')"
    and "metadata_of R (ev_brotli ev) (last_metadata ms) bs = Ok metas"
    and "log_rep R (view (tr_db t')) (log @ map entry msgs)" and "rep t' dms (ms @ metas)"
    and "in_step (log @ map entry msgs) (ms @ metas)"
  by (rule stream_refines_results [OF assms]) (rule that)

text \<open>
  The log may run ahead of the metadata, when the process stops between the two writes of a
  delivery.  From then on the deliveries of the next batches are skipped.
\<close>

lemma stream_skips:
  assumes log: "log_rep R (view (tr_db t)) log" and rep: "rep t dms ms" and ne: "bs \<noteq> []"
    and p: "length ms = unat (sequence_number (hd bs))" and grow: "counts_grow ms"
    and some: "ms \<noteq> []" "length ms < 2 ^ 63"
    and ahead: "bm_message_count (last ms) < of_nat (length log)"
  obtains t' where "add_sequencer_batches_and_stream ev bs t = (Ok (), t')" and "tr_db t' = tr_db t"
    and "rep t' dms ms"
proof -
  let ?p = "sequence_number (hd bs)" let ?n = "of_nat (length log) :: u64"
  have taken: "take (unat ?p) ms = ms" using p by simp
  have last: "last_metadata ms = last ms" using some by (simp add: last_metadata_def)
  obtain t1 where prev: "(if ?p > 0 then get_batch_metadata ev (?p - 1) else okM no_metadata) t = (Ok (last ms), t1)"
    and db1: "tr_db t1 = tr_db t" and rep1: "rep t1 dms ms"
    using previous_metadata [OF rep, of ?p] p last by auto
  have count: "read_u64 D R (tr_db t) MESSAGE_COUNT_KEY = Ok ?n"
    using log by (simp add: read_u64_def log_rep_def decode_all_def)
  have batches: "get_batch_count D R (tr_db t1) = (Ok (of_nat (length ms)), tr_db t1)"
    using get_batch_count_eq [of "tr_db t1" ms] rep1 by (simp add: rep_def inbox_rep_def)
  have nz: "of_nat (length ms) \<noteq> (0 :: u64)"
    using some p by auto
  obtain t2 where find: "find_inbox_batch_containing_message ev ?n t1 = (Ok (0, False), t2)"
    and t2: "tr_db t2 = tr_db t1" "rep t2 dms ms"
    using find_batch_eq [OF rep1 grow some(2), of ?n] less_imp_le [OF ahead] by auto
  have "align_window ev ?p (last ms) ?n t1 = (Ok None, t2)"
    using ahead batches nz find
    by (simp add: align_window_def bindM_def matchM_def db_op_def okM_def Let_def)
  with prev count ne db1 have "add_sequencer_batches_and_stream ev bs t = (Ok (), t2)"
    by (simp add: add_sequencer_batches_and_stream_def bindM_def db_read_def readM_def Let_def okM_def)
  with t2 db1 that show thesis by simp
qed

text \<open>
  The same when batches have been dropped because of the delayed messages they read: the batches that take
  their place are skipped.
\<close>

lemma stranded_skips:
  assumes log: "log_rep R (view (tr_db t)) log" and rep: "rep t dms (kept p ms)" and step: "in_step log ms"
    and grows: "counts_grow ms" and short: "length ms < 2 ^ 63" and some: "kept p ms \<noteq> []" "kept p ms \<noteq> ms"
    and bs: "bs \<noteq> []" "unat (sequence_number (hd bs)) = length (kept p ms)"
  obtains t' where "add_sequencer_batches_and_stream ev bs t = (Ok (), t')" and "tr_db t' = tr_db t"
proof -
  let ?k = "kept p ms"
  have "length ?k \<le> length ms" unfolding kept_def by (rule length_takeWhile_le)
  moreover have "length ?k \<noteq> length ms"
  proof
    assume "length ?k = length ms"
    with kept_take [of p ms] some(2) show False by simp
  qed
  ultimately have less: "length ?k < length ms" by simp
  obtain n where n: "n < length ms" "?k = take n ms" by (rule that [OF less kept_take])
  have grow: "counts_grow ?k" using grows by (simp add: n(2) counts_grow_def sorted_wrt_take)
  have at: "last ?k = ms ! (n - 1)" "last ms = ms ! (length ms - 1)"
    using some(1) n by (auto simp: last_conv_nth min_def)
  have before: "n - 1 < length ms - 1" "length ms - 1 < length ms"
    using some(1) n by (cases n; auto)+
  have "bm_message_count (last ?k) < bm_message_count (last ms)"
    unfolding at by (rule counts_grow_less [OF grows before])
  also have "bm_message_count (last ms) = of_nat (length log)"
    using step n(1) by (cases "ms = []") (simp_all add: in_step_def last_metadata_def)
  finally have ahead: "bm_message_count (last ?k) < of_nat (length log)" .
  have "length ?k < 2 ^ 63" using n short by simp
  from stream_skips [OF log rep bs(1) bs(2) [symmetric] grow some(1) this ahead] that show thesis by blast
qed

section \<open>Starting\<close>

text \<open>Initialisation sets the counters that are missing, and nothing else.\<close>

lemma initialize_eq:
  obtains s' where "initialize D R s = (Ok (), s')"
    and "view s' = (\<lambda>k. if k \<in> {DELAYED_MESSAGE_COUNT_KEY, SEQUENCER_BATCH_COUNT_KEY, MESSAGE_COUNT_KEY} \<and>
      view s k = None then Some (enc (rlp_u64 R) 0) else view s k)"
proof -
  let ?put = "\<lambda>k. if view s k = None then [Put k (enc (rlp_u64 R) 0)] else []"
  let ?b = "?put DELAYED_MESSAGE_COUNT_KEY @ ?put SEQUENCER_BATCH_COUNT_KEY @ ?put MESSAGE_COUNT_KEY"
  have put: "put_if_missing D R s k b = Ok (b @ ?put k)" for k b
    by (simp add: put_if_missing_def has batch_put_def)
  have "initialize D R s = (Ok (), after ?b s)"
    by (simp add: initialize_def bindM_def readM_def put new_batch_def write_eq)
  moreover have "view (after ?b s) =
      (\<lambda>k. if k \<in> {DELAYED_MESSAGE_COUNT_KEY, SEQUENCER_BATCH_COUNT_KEY, MESSAGE_COUNT_KEY} \<and>
      view s k = None then Some (enc (rlp_u64 R) 0) else view s k)"
    using count_keys_distinct
    by (cases "view s DELAYED_MESSAGE_COUNT_KEY"; cases "view s SEQUENCER_BATCH_COUNT_KEY";
        cases "view s MESSAGE_COUNT_KEY") (auto simp: fun_eq_iff)
  ultimately show thesis using that by blast
qed

lemma fresh_rep:
  assumes empty: "view s = Map.empty" "cached c = Map.empty"
  obtains s' where "initialize D R s = (Ok (), s')" and "log_rep R (view s') []"
    and "rep \<lparr>tr_db = s', tr_cache = c\<rparr> [] []"
proof -
  obtain s' where run: "initialize D R s = (Ok (), s')"
    and v0: "view s' = (\<lambda>k. if k \<in> {DELAYED_MESSAGE_COUNT_KEY, SEQUENCER_BATCH_COUNT_KEY, MESSAGE_COUNT_KEY} \<and>
      view s k = None then Some (enc (rlp_u64 R) 0) else view s k)"
    by (rule initialize_eq [of s])
  have v: "view s' k = (if k \<in> {DELAYED_MESSAGE_COUNT_KEY, SEQUENCER_BATCH_COUNT_KEY, MESSAGE_COUNT_KEY}
      then Some (enc (rlp_u64 R) 0) else None)" for k
    by (simp add: v0 empty(1))
  let ?zero = "Some (enc (rlp_u64 R) 0)"
  have counts: "view s' DELAYED_MESSAGE_COUNT_KEY = ?zero" "view s' SEQUENCER_BATCH_COUNT_KEY = ?zero"
      "view s' MESSAGE_COUNT_KEY = ?zero"
    by (simp_all add: v)
  have keys: "view s' (db_key [p] i) = None" if "p \<noteq> 0x5f" for p i
    using count_key_neq_db_key [OF that] by (auto simp: v)
  have pfx: "view s' k = None" if "prefix DELAYED_SEQUENCED_PREFIX k" for k
    using that by (auto simp: v prefixes_eval count_keys_eval prefix_def)
  have "log_rep R (view s') []"
    by (simp add: counts keys log_rep_def log_body_def prefixes_eval)
  moreover have "delayed_rep R K (view s') []"
    by (simp add: counts keys delayed_rep_def prefixes_eval)
  moreover have "batches_rep R (view s') []"
    using pfx by (simp add: counts keys batches_rep_def prefixes_eval ascending_def sequences_def)
  moreover have "coherent (cached c) []" "unat (last_delayed []) \<le> length []"
    using empty(2) by (simp_all add: coherent_def last_delayed_def)
  ultimately show thesis using run that by (simp add: rep_def inbox_rep_def)
qed

end

end
