(* ===== verification/Chain_Run.thy ===== *)
theory Chain_Run
  imports Tracker_Stream
begin

text \<open>
  The node at work: any sequence of the calls the reader and the streamer make, delayed messages and
  batches in pieces of any size, executions in between, and restarts.  What the node stores is a
  function of what the parent chain said so far.
\<close>

section \<open>What the parent chain says, in pieces\<close>

lemma bindR_assoc: "bindR (bindR r f) g = bindR r (\<lambda>x. bindR (f x) g)"
  by (cases r) simp_all

lemma chained_append:
  "chained K a p (xs @ ys) \<longleftrightarrow>
     chained K a p xs \<and> chained K (acc_from K a (bodies xs)) (p + of_nat (length xs)) ys"
proof (induction K a p xs rule: chained.induct)
  case (2 K a p n before b msgs)
  have "well_formed b \<Longrightarrow> acc_from K a (b # bodies msgs) = acc_from K (acc_from K a [b]) (bodies msgs)"
    using acc_from_append [of "[b]" K a "bodies msgs"] by simp
  with 2 show ?case by (auto simp: algebra_simps simp del: acc_from.simps)
qed simp

lemma accepted_append:
  "accepted K dms a p (xs @ ys) \<longleftrightarrow>
     accepted K dms a p xs \<and> accepted K dms (last (a # map after_inbox_acc xs)) (p + of_nat (length xs)) ys"
  by (induction xs arbitrary: a p) (auto simp: algebra_simps)

definition reads_within :: "nat \<Rightarrow> SequencerInboxBatch list \<Rightarrow> bool" where
  "reads_within n bs \<longleftrightarrow> list_all (\<lambda>b. unat (after_delayed_count b) \<le> n) bs"

lemma reads_within_mono: "reads_within n bs \<Longrightarrow> n \<le> m \<Longrightarrow> reads_within m bs"
  by (auto simp: reads_within_def list_all_iff)

lemma accepted_prefix:
  "accepted K (dms @ dms2) a p bs \<Longrightarrow> reads_within (length dms) bs \<Longrightarrow> accepted K dms a p bs"
  by (induction bs arbitrary: a p) (auto simp: reads_within_def)

lemma parse_batches_append:
  "parse_batches R brotli (xs @ ys) =
     bindR (parse_batches R brotli xs) (\<lambda>ps. bindR (parse_batches R brotli ys) (\<lambda>qs. Ok (ps @ qs)))"
proof (induction xs)
  case Nil
  show ?case by (cases "parse_batches R brotli ys") simp_all
next
  case (Cons x xs)
  then show ?case
    by (cases x) (cases "parse_sequencer_message R brotli 0 (snd x) (fst x)";
        cases "parse_batches R brotli xs"; cases "parse_batches R brotli ys"; simp)
qed

lemma parse_batches_length: "parse_batches R brotli xs = Ok ps \<Longrightarrow> length xs = length ps"
  by (induction xs arbitrary: ps) (auto simp: bindR_Ok_iff)

abbreviation after_all :: "u64 \<Rightarrow> (SequencerMessage \<times> b256 option) list \<Rightarrow> u64" where
  "after_all d ps \<equiv> last (d # map (after_delayed_messages \<circ> fst) ps)"

lemma consistent_length: "consistent d bs ps \<Longrightarrow> length bs = length ps"
  by (induction d bs ps rule: consistent.induct) auto

lemma consistent_append:
  "length xs = length ps \<Longrightarrow>
   consistent d (xs @ ys) (ps @ qs) \<longleftrightarrow> consistent d xs ps \<and> consistent (after_all d ps) ys qs"
  by (induction xs ps arbitrary: d rule: list_induct2) auto

lemma stream_messages_append:
  "stream_messages R brotli delayed (ps @ qs) d =
     bindR (stream_messages R brotli delayed ps d) (\<lambda>ms.
     bindR (stream_messages R brotli delayed qs (after_all d ps)) (\<lambda>ns. Ok (ms @ ns)))"
proof (induction ps arbitrary: d)
  case Nil
  show ?case by (cases "stream_messages R brotli delayed qs d") simp_all
next
  case (Cons p ps)
  obtain seq h where p: "p = (seq, h)" by (cases p)
  have "after_all d (p # ps) = after_all (after_delayed_messages seq) ps" by (simp add: p)
  with Cons.IH [of "after_delayed_messages seq"] show ?case
    by (simp only: p append_Cons stream_messages.simps bindR_assoc bindR_simps append_assoc)
qed

text \<open>The messages of a batch depend on the delayed messages it reads, no others.\<close>

lemma walk_segments_cong:
  assumes "\<And>i. i < after_delayed_messages seq \<Longrightarrow> delayed i = delayed' i"
  shows "walk_segments R brotli delayed seq h r tb d = walk_segments R brotli delayed' seq h r tb d"
proof (induction r arbitrary: tb d)
  case (Cons seg r)
  have "\<not> after_delayed_messages seq \<le> d \<Longrightarrow> delayed d = delayed' d" by (rule assms) (simp add: not_le)
  then have "segment_message R brotli delayed seq h seg tb d = segment_message R brotli delayed' seq h seg tb d"
    by (simp add: segment_message_def split: prod.split)
  with Cons show ?case by simp
qed simp

lemma walk_delayed_cong:
  assumes "\<And>i. unat i < n \<Longrightarrow> delayed i = delayed' i"
  shows "unat d + k \<le> n \<Longrightarrow> n < 2 ^ 64 \<Longrightarrow> walk_delayed delayed d k = walk_delayed delayed' d k"
proof (induction k arbitrary: d)
  case (Suc k)
  then have "unat (d + 1) = Suc (unat d)" by (intro unat_Suc64) simp
  with Suc.IH [of "d + 1"] Suc.prems assms [of d] show ?case by simp
qed simp

lemma batch_messages_cong:
  assumes "\<And>i. i < after_delayed_messages seq \<Longrightarrow> delayed i = delayed' i"
  shows "batch_messages R brotli delayed seq h d = batch_messages R brotli delayed' seq h d"
proof -
  let ?a = "after_delayed_messages seq"
  have "walk_delayed delayed d' (unat ?a - unat d') = walk_delayed delayed' d' (unat ?a - unat d')" for d'
  proof (cases "unat d' \<le> unat ?a")
    case True
    then show ?thesis
      by (intro walk_delayed_cong [of "unat ?a"]) (simp_all add: assms word_less_nat_alt)
  qed simp
  then show ?thesis by (simp add: batch_messages_def walk_segments_cong [OF assms])
qed

lemma stream_messages_cong:
  assumes "\<And>i. unat i < n \<Longrightarrow> delayed i = delayed' i"
  shows "consistent d bs ps \<Longrightarrow> reads_within n bs \<Longrightarrow>
    stream_messages R brotli delayed ps d = stream_messages R brotli delayed' ps d"
proof (induction d bs ps rule: consistent.induct)
  case (2 d b bs seq h ps)
  then have "unat (after_delayed_messages seq) \<le> n" by (simp add: reads_within_def)
  then have "batch_messages R brotli delayed seq h d = batch_messages R brotli delayed' seq h d"
    by (intro batch_messages_cong assms) (simp add: word_less_nat_alt)
  with 2 show ?case by (simp add: reads_within_def)
qed simp_all

lemma metadata_of_append:
  "metadata_of R brotli prev (xs @ ys) =
     bindR (metadata_of R brotli prev xs) (\<lambda>ms.
     bindR (metadata_of R brotli (last (prev # ms)) ys) (\<lambda>ns. Ok (ms @ ns)))"
proof (induction xs arbitrary: prev)
  case Nil
  show ?case by (cases "metadata_of R brotli prev ys") simp_all
next
  case (Cons b xs)
  then show ?case
    by (cases "parse_sequencer_message R brotli (sequence_number b) (Some (batch_block_hash b)) (serialized b)")
       (auto simp: bindR_def split: result.split)
qed

lemma metadata_accumulator:
  "metadata_of R brotli prev bs = Ok metas \<Longrightarrow>
   accumulator (last (prev # metas)) = last (accumulator prev # map after_inbox_acc bs)"
proof (induction bs arbitrary: prev metas)
  case (Cons b bs)
  then obtain seq ms where "metadata_of R brotli (batch_metadata seq b prev) bs = Ok ms"
      "metas = batch_metadata seq b prev # ms"
    by (auto simp: bindR_Ok_iff)
  with Cons.IH show ?case by (simp add: batch_metadata_def Let_def)
qed simp

section \<open>Runs\<close>

text \<open>
  \<open>honest ev ds bs msgs\<close>: the delayed messages \<open>ds\<close> and the batches \<open>bs\<close> are what a parent
  chain can have said from its beginning, and \<open>msgs\<close> are the messages of the batches.
\<close>

definition honest ::
    "('db, 'c) env \<Rightarrow> delayed_msg list \<Rightarrow> SequencerInboxBatch list \<Rightarrow> MessageWithMetadataAndBlockInfo list \<Rightarrow> bool" where
  "honest ev ds bs msgs \<longleftrightarrow>
     length ds < 2 ^ 64 - 1 \<and> length bs < 2 ^ 64 - 1 \<and> length msgs < 2 ^ 64 - 1 \<and>
     chained (ev_keccak ev) 0 0 ds \<and> accepted (ev_keccak ev) (bodies ds) 0 0 bs \<and>
     (case parse_batches (ev_rlp ev) (ev_brotli ev) (map batch_bytes bs) of
        Ok ps \<Rightarrow> consistent 0 bs ps \<and>
          stream_messages (ev_rlp ev) (ev_brotli ev) (delayed_at (bodies ds)) ps 0 = Ok msgs
      | _ \<Rightarrow> False)"

text \<open>
  \<open>node_run ev X c0 st0 ds bs st\<close>: from \<open>st0\<close> the node got to \<open>st\<close> by calls that handed it the
  delayed messages \<open>ds\<close> and the batches \<open>bs\<close>, in pieces, a batch never before the delayed messages
  it reads.  A restart initialises the database again, loses the cache (\<open>c0\<close> is an empty one) and
  whatever the engine kept in memory.
\<close>

inductive node_run ::
    "('db, 'c) env \<Rightarrow> ('db, 'x) exec_engine \<Rightarrow> 'c \<Rightarrow> ('db, 'c) tracker \<times> 'x \<Rightarrow>
     delayed_msg list \<Rightarrow> SequencerInboxBatch list \<Rightarrow> ('db, 'c) tracker \<times> 'x \<Rightarrow> bool"
  for ev X c0 st0 where
  start: "node_run ev X c0 st0 [] [] st0"
| delayed: "node_run ev X c0 st0 ds bs (t, x) \<Longrightarrow> new \<noteq> [] \<Longrightarrow>
    node_run ev X c0 st0 (ds @ new) bs (snd (add_delayed_messages ev new None t), x)"
| batches: "node_run ev X c0 st0 ds bs (t, x) \<Longrightarrow> new \<noteq> [] \<Longrightarrow> reads_within (length ds) new \<Longrightarrow>
    node_run ev X c0 st0 ds (bs @ new) (snd (add_sequencer_batches_and_stream ev new t), x)"
| execute: "node_run ev X c0 st0 ds bs (t, x) \<Longrightarrow>
    snd (execute_next_msg (ev_db ev) (ev_rlp ev) X (tr_db t, x)) = (s, x') \<Longrightarrow>
    node_run ev X c0 st0 ds bs (t\<lparr>tr_db := s\<rparr>, x')"
| restart: "node_run ev X c0 st0 ds bs (t, x) \<Longrightarrow>
    node_run ev X c0 st0 ds bs (\<lparr>tr_db = snd (initialize (ev_db ev) (ev_rlp ev) (tr_db t)), tr_cache = c0\<rparr>, x')"

lemma node_run_reads: "node_run ev X c0 st0 ds bs st \<Longrightarrow> reads_within (length ds) bs"
proof (induction rule: node_run.induct)
  case start
  then show ?case by (simp add: reads_within_def)
next
  case (batches ds bs t x new)
  then show ?case by (simp add: reads_within_def)
qed (auto intro: reads_within_mono)

lemma delayed_at_append: "unat i < length dms \<Longrightarrow> delayed_at (dms @ dms2) i = delayed_at dms i"
  by (simp add: delayed_at_def nth_append)

lemma honest_delayed:
  assumes "honest ev (ds @ new) bs msgs" and "reads_within (length ds) bs"
  shows "honest ev ds bs msgs"
    and "chained (ev_keccak ev) (acc_from (ev_keccak ev) 0 (bodies ds)) (of_nat (length ds)) new"
proof -
  obtain ps where ps: "parse_batches (ev_rlp ev) (ev_brotli ev) (map batch_bytes bs) = Ok ps" "consistent 0 bs ps"
      "stream_messages (ev_rlp ev) (ev_brotli ev) (delayed_at (bodies (ds @ new))) ps 0 = Ok msgs"
    using assms(1) by (auto simp: honest_def split: result.splits)
  have "stream_messages (ev_rlp ev) (ev_brotli ev) (delayed_at (bodies ds)) ps 0 = Ok msgs"
    using ps(3) assms(2)
      stream_messages_cong [of "length (bodies ds)" "delayed_at (bodies ds @ bodies new)" "delayed_at (bodies ds)",
        OF delayed_at_append ps(2)] by simp
  moreover have "accepted (ev_keccak ev) (bodies ds) 0 0 bs"
    by (rule accepted_prefix [of _ _ "bodies new"]) (use assms in \<open>simp_all add: honest_def\<close>)
  ultimately show "honest ev ds bs msgs"
    and "chained (ev_keccak ev) (acc_from (ev_keccak ev) 0 (bodies ds)) (of_nat (length ds)) new"
    using assms(1) ps(1,2) by (simp_all add: honest_def chained_append)
qed

lemma honest_batches:
  assumes "honest ev ds (bs @ new) msgs"
  obtains ps qs ms ns where "honest ev ds bs ms" and "msgs = ms @ ns"
    and "parse_batches (ev_rlp ev) (ev_brotli ev) (map batch_bytes bs) = Ok ps" and "consistent 0 bs ps"
    and "stream_messages (ev_rlp ev) (ev_brotli ev) (delayed_at (bodies ds)) ps 0 = Ok ms"
    and "accepted (ev_keccak ev) (bodies ds) (last (0 # map after_inbox_acc bs)) (of_nat (length bs)) new"
    and "parse_batches (ev_rlp ev) (ev_brotli ev) (map batch_bytes new) = Ok qs"
    and "consistent (after_all 0 ps) new qs"
    and "stream_messages (ev_rlp ev) (ev_brotli ev) (delayed_at (bodies ds)) qs (after_all 0 ps) = Ok ns"
proof -
  obtain rs where "parse_batches (ev_rlp ev) (ev_brotli ev) (map batch_bytes (bs @ new)) = Ok rs"
    and rs: "consistent 0 (bs @ new) rs"
      "stream_messages (ev_rlp ev) (ev_brotli ev) (delayed_at (bodies ds)) rs 0 = Ok msgs"
    using assms by (auto simp: honest_def split: result.splits)
  then obtain ps qs where ps: "parse_batches (ev_rlp ev) (ev_brotli ev) (map batch_bytes bs) = Ok ps"
    and qs: "parse_batches (ev_rlp ev) (ev_brotli ev) (map batch_bytes new) = Ok qs" and split: "rs = ps @ qs"
    by (auto simp: parse_batches_append bindR_Ok_iff)
  have len: "length bs = length ps"
    using ps by (metis length_map parse_batches_length)
  from rs obtain ms ns where ms: "stream_messages (ev_rlp ev) (ev_brotli ev) (delayed_at (bodies ds)) ps 0 = Ok ms"
      "stream_messages (ev_rlp ev) (ev_brotli ev) (delayed_at (bodies ds)) qs (after_all 0 ps) = Ok ns" "msgs = ms @ ns"
    by (auto simp: split stream_messages_append bindR_Ok_iff)
  have cons: "consistent 0 bs ps" "consistent (after_all 0 ps) new qs"
    using rs(1) by (simp_all only: split consistent_append [OF len])
  have "honest ev ds bs ms"
    using assms ps cons(1) ms by (simp add: honest_def accepted_append)
  moreover have "accepted (ev_keccak ev) (bodies ds) (last (0 # map after_inbox_acc bs)) (of_nat (length bs)) new"
    using assms by (simp add: honest_def accepted_append)
  ultimately show thesis using that ms ps qs cons by blast
qed

text \<open>
  What a node that follows the chain stores: the log of the messages, the delayed messages and the
  metadata of the batches, in step (\<open>in_sync\<close>), and the results of a part of the log.
\<close>

definition in_sync ::
    "('db, 'c) env \<Rightarrow> ('db \<Rightarrow> bytes \<rightharpoonup> bytes) \<Rightarrow> ('c \<Rightarrow> u64 \<rightharpoonup> BatchMetadata) \<Rightarrow> ('db, 'c) tracker \<Rightarrow>
     delayed_msg list \<Rightarrow> SequencerInboxBatch list \<Rightarrow> MessageWithMetadataAndBlockInfo list \<Rightarrow> bool" where
  "in_sync ev view cached t ds bs msgs \<longleftrightarrow>
     log_rep (ev_rlp ev) (view (tr_db t)) (map entry msgs) \<and>
     (\<exists>metas. metadata_of (ev_rlp ev) (ev_brotli ev) no_metadata bs = Ok metas \<and>
       inbox_rep (ev_rlp ev) (ev_keccak ev) (view (tr_db t)) (cached (tr_cache t)) (bodies ds) metas \<and>
       in_step (map entry msgs) metas)"

definition follows ::
    "('db, 'c) env \<Rightarrow> ('db \<Rightarrow> bytes \<rightharpoonup> bytes) \<Rightarrow> ('c \<Rightarrow> u64 \<rightharpoonup> BatchMetadata) \<Rightarrow> ('db, 'c) tracker \<Rightarrow>
     delayed_msg list \<Rightarrow> SequencerInboxBatch list \<Rightarrow> MessageWithMetadataAndBlockInfo list \<Rightarrow> bool" where
  "follows ev view cached t ds bs msgs \<longleftrightarrow>
     in_sync ev view cached t ds bs msgs \<and>
     (\<exists>rs. results_rep (ev_rlp ev) (view (tr_db t)) rs \<and> length rs \<le> length msgs)"

context tracker_node begin

lemma followsI:
  assumes "log_rep R (view (tr_db t)) (map entry msgs)" and "metadata_of R (ev_brotli ev) no_metadata bs = Ok metas"
    and "rep t (bodies ds) metas" and "in_step (map entry msgs) metas"
    and "results_rep R (view (tr_db t)) rs" and "length rs \<le> length msgs"
  shows "follows ev view cached t ds bs msgs"
  using assms by (auto simp: follows_def in_sync_def rep_def)

lemma followsE:
  assumes "follows ev view cached t ds bs msgs"
  obtains metas rs where "log_rep R (view (tr_db t)) (map entry msgs)"
    and "metadata_of R (ev_brotli ev) no_metadata bs = Ok metas" and "rep t (bodies ds) metas"
    and "in_step (map entry msgs) metas" and "results_rep R (view (tr_db t)) rs" and "length rs \<le> length msgs"
  using assms by (auto simp: follows_def in_sync_def rep_def)

lemma initialize_again:
  assumes "log_rep R (view s) log" and "inbox_rep R K (view s) c dms ms"
  shows "view (snd (initialize D R s)) = view s"
proof -
  obtain s' where "initialize D R s = (Ok (), s')"
    and v: "view s' = (\<lambda>k. if k \<in> {DELAYED_MESSAGE_COUNT_KEY, SEQUENCER_BATCH_COUNT_KEY, MESSAGE_COUNT_KEY} \<and>
      view s k = None then Some (enc (rlp_u64 R) 0) else view s k)"
    by (rule initialize_eq)
  moreover have "view s k \<noteq> None" if "k \<in> {DELAYED_MESSAGE_COUNT_KEY, SEQUENCER_BATCH_COUNT_KEY, MESSAGE_COUNT_KEY}" for k
    using that assms by (auto simp: log_rep_def inbox_rep_def delayed_rep_def batches_rep_def)
  ultimately show ?thesis by (metis (no_types, lifting) snd_conv ext)
qed

lemma delayed_follows:
  assumes fol: "follows ev view cached t ds bs msgs" and ne: "new \<noteq> []" and len: "length (ds @ new) < 2 ^ 64 - 1"
    and chain: "chained K (acc_from K 0 (bodies ds)) (of_nat (length ds)) new"
  shows "follows ev view cached (snd (add_delayed_messages ev new None t)) (ds @ new) bs msgs"
proof -
  obtain metas rs where f: "log_rep R (view (tr_db t)) (map entry msgs)"
      "metadata_of R (ev_brotli ev) no_metadata bs = Ok metas" "rep t (bodies ds) metas"
      "in_step (map entry msgs) metas" "results_rep R (view (tr_db t)) rs" "length rs \<le> length msgs"
    by (rule followsE [OF fol])
  let ?p = "of_nat (length ds) :: u64"
  have p: "unat ?p = length (bodies ds)" using len by (simp add: unat_of_nat64)
  obtain t' where add: "add_delayed_messages ev new None t = (Ok (), t')"
    and rep': "rep t' (take (unat ?p) (bodies ds) @ bodies new) (kept ?p metas)"
    and frame: "\<And>k. stream_key k \<Longrightarrow> view (tr_db t') k = view (tr_db t) k"
    by (rule add_delayed_refines [OF f(3) ne, of ?p]) (use p len chain in auto)
  have "kept ?p metas = metas"
    using f(3) p by (intro kept_all [of "view (tr_db t)"]) (auto simp: rep_def inbox_rep_def word_le_nat_alt)
  with rep' p have rep'': "rep t' (bodies (ds @ new)) metas" by simp
  have "log_rep R (view (tr_db t')) (map entry msgs)" by (rule log_rep_frame [OF f(1)]) (rule frame)
  moreover have "results_rep R (view (tr_db t')) rs"
    using f(5) frame by (simp add: results_rep_def key_simps)
  ultimately show ?thesis using followsI f(2,4,6) rep'' add by simp
qed

text \<open>What the pieces of an honest chain are for a tracker in sync with the ones before.\<close>

lemma batches_ready:
  assumes honest: "honest ev ds (bs @ new) (ms @ ns)" and ne: "new \<noteq> []"
    and ps: "consistent 0 bs ps" "stream_messages R (ev_brotli ev) (delayed_at (bodies ds)) ps 0 = Ok ms"
    and acc: "accepted K (bodies ds) (last (0 # map after_inbox_acc bs)) (of_nat (length bs)) new"
    and qs: "consistent (after_all 0 ps) new qs"
      "stream_messages R (ev_brotli ev) (delayed_at (bodies ds)) qs (after_all 0 ps) = Ok ns"
    and meta: "metadata_of R (ev_brotli ev) no_metadata bs = Ok metas"
  shows "length metas = unat (sequence_number (hd new))"
    and "length metas + length new < 2 ^ 64 - 1" and "length (map entry ms) + length ns < 2 ^ 64"
    and "accepted K (bodies ds) (accumulator (last_metadata metas)) (sequence_number (hd new)) new"
    and "consistent (last_read (map entry ms)) new qs"
    and "stream_messages R (ev_brotli ev) (delayed_at (bodies ds)) qs (last_read (map entry ms)) = Ok ns"
    and "metadata_of R (ev_brotli ev) (last_metadata metas) new = Ok metas' \<Longrightarrow>
      metadata_of R (ev_brotli ev) no_metadata (bs @ new) = Ok (metas @ metas')"
proof -
  have len: "length (bs @ new) < 2 ^ 64 - 1" "length (ms @ ns) < 2 ^ 64 - 1"
    using honest by (simp_all add: honest_def)
  have metas: "length metas = length bs" using length_metadata_of [OF meta] by simp
  have read: "last_read (map entry ms) = after_all 0 ps"
    using stream_reads [OF ps(2) consistent_ascending [OF ps(1)]] last_entries [of "[]" ms]
    by (simp add: last_read_def)
  have prev: "last_metadata metas = last (no_metadata # metas)" by (simp add: last_metadata_def)
  have acc_prev: "accumulator (last_metadata metas) = last (0 # map after_inbox_acc bs)"
    using metadata_accumulator [OF meta] by (simp add: prev no_metadata_def)
  obtain b new' where new: "new = b # new'" using ne by (cases new) auto
  with acc have seqn: "sequence_number (hd new) = of_nat (length bs)" by simp
  then show "length metas = unat (sequence_number (hd new))"
    using len(1) by (simp add: metas unat_of_nat64)
  show "length metas + length new < 2 ^ 64 - 1" "length (map entry ms) + length ns < 2 ^ 64"
    using len metas by simp_all
  show "accepted K (bodies ds) (accumulator (last_metadata metas)) (sequence_number (hd new)) new"
    using acc acc_prev seqn by simp
  show "consistent (last_read (map entry ms)) new qs"
    "stream_messages R (ev_brotli ev) (delayed_at (bodies ds)) qs (last_read (map entry ms)) = Ok ns"
    using qs read by simp_all
  show "metadata_of R (ev_brotli ev) (last_metadata metas) new = Ok metas' \<Longrightarrow>
      metadata_of R (ev_brotli ev) no_metadata (bs @ new) = Ok (metas @ metas')"
    using meta by (simp add: metadata_of_append prev)
qed

lemma batches_follows:
  assumes honest: "honest ev ds (bs @ new) (ms @ ns)" and ne: "new \<noteq> []"
    and ps: "parse_batches R (ev_brotli ev) (map batch_bytes bs) = Ok ps" "consistent 0 bs ps"
      "stream_messages R (ev_brotli ev) (delayed_at (bodies ds)) ps 0 = Ok ms"
    and acc: "accepted K (bodies ds) (last (0 # map after_inbox_acc bs)) (of_nat (length bs)) new"
    and qs: "parse_batches R (ev_brotli ev) (map batch_bytes new) = Ok qs" "consistent (after_all 0 ps) new qs"
      "stream_messages R (ev_brotli ev) (delayed_at (bodies ds)) qs (after_all 0 ps) = Ok ns"
    and fol: "follows ev view cached t ds bs ms"
  shows "follows ev view cached (snd (add_sequencer_batches_and_stream ev new t)) ds (bs @ new) (ms @ ns)"
proof -
  obtain metas rs where f: "log_rep R (view (tr_db t)) (map entry ms)"
      "metadata_of R (ev_brotli ev) no_metadata bs = Ok metas" "rep t (bodies ds) metas"
      "in_step (map entry ms) metas" "results_rep R (view (tr_db t)) rs" "length rs \<le> length ms"
    by (rule followsE [OF fol])
  note ready = batches_ready [OF honest ne ps(2,3) acc qs(2,3) f(2)]
  obtain t' metas' where run: "add_sequencer_batches_and_stream ev new t = (Ok (), t')"
    and r: "metadata_of R (ev_brotli ev) (last_metadata metas) new = Ok metas'"
      "log_rep R (view (tr_db t')) (map entry ms @ map entry ns)" "rep t' (bodies ds) (metas @ metas')"
      "in_step (map entry ms @ map entry ns) (metas @ metas')" "results_upto (view (tr_db t)) (view (tr_db t')) None"
    by (rule stream_refines_results [OF f(1,3,4) ne ready(1-4) qs(1) ready(5,6)])
  have res: "results_rep R (view (tr_db t')) rs" by (rule results_rep_upto(1) [OF f(5) r(5)])
  have "log_rep R (view (tr_db t')) (map entry (ms @ ns))" "in_step (map entry (ms @ ns)) (metas @ metas')"
    using r(2,4) by simp_all
  from followsI [OF this(1) ready(7) [OF r(1)] r(3) this(2) res] f(6) show ?thesis by (simp add: run)
qed

lemma execute_follows:
  assumes head: "head_message_index X = (\<lambda>s x. reth_head_message_index D R s)"
    and fol: "follows ev view cached t ds bs msgs" and len: "length msgs < 2 ^ 64 - 1"
    and step: "snd (execute_next_msg D R X (tr_db t, x)) = (s, x')"
  shows "follows ev view cached (t\<lparr>tr_db := s\<rparr>) ds bs msgs"
proof -
  obtain metas rs where f: "log_rep R (view (tr_db t)) (map entry msgs)"
      "metadata_of R (ev_brotli ev) no_metadata bs = Ok metas" "rep t (bodies ds) metas"
      "in_step (map entry msgs) metas" "results_rep R (view (tr_db t)) rs" "length rs \<le> length msgs"
    by (rule followsE [OF fol])
  show ?thesis
  proof (cases "length rs = length msgs")
    case True
    then have "execute_next_msg D R X (tr_db t, x) = (Ok False, (tr_db t, x))"
      by (intro execute_caught_up [OF f(1,5) head]) (use len in simp_all)
    with step have "s = tr_db t" by simp
    with fol show ?thesis by simp
  next
    case False
    with f(6) have lt: "length rs < length (map entry msgs)" by simp
    let ?i = "of_nat (length rs) :: u64"
    obtain r x'' where d: "digest_message X (tr_db t) ?i (fst (map entry msgs ! length rs))
        (prefetch (map entry msgs) (length rs)) x = (r, x'')" by fastforce
    show ?thesis
    proof (cases "\<exists>v. r = Ok v")
      case False
      with d step have "s = tr_db t"
        by (cases r) (simp_all add: execute_eq [OF f(1,5) head lt])
      with fol show ?thesis by simp
    next
      case True
      then obtain v where "r = Ok v" by blast
      with d step have s: "s = after (store_result R ?i v []) (tr_db t)"
        by (simp add: execute_eq [OF f(1,5) head lt])
      have same: "same_elsewhere (view (tr_db t)) (view s)"
        by (simp add: s same_elsewhere_def store_result_def batch_put_def stream_key_def prefixes_eval count_keys_eval prefix_def db_key_def)
      have "rep (t\<lparr>tr_db := s\<rparr>) (bodies ds) metas"
        using f(3) inbox_rep_frame [OF _ same] by (simp add: rep_def)
      with store_result_reps [OF f(1,5) lt, of v] f(2,4) lt show ?thesis
        by (intro followsI [where rs = "rs @ [v]"]) (simp_all add: s)
    qed
  qed
qed

lemma restart_follows:
  assumes fol: "follows ev view cached t ds bs msgs" and empty: "cached c0 = Map.empty"
  shows "follows ev view cached \<lparr>tr_db = snd (initialize D R (tr_db t)), tr_cache = c0\<rparr> ds bs msgs"
proof -
  obtain metas rs where f: "log_rep R (view (tr_db t)) (map entry msgs)"
      "metadata_of R (ev_brotli ev) no_metadata bs = Ok metas" "rep t (bodies ds) metas"
      "in_step (map entry msgs) metas" "results_rep R (view (tr_db t)) rs" "length rs \<le> length msgs"
    by (rule followsE [OF fol])
  have v: "view (snd (initialize D R (tr_db t))) = view (tr_db t)"
    by (rule initialize_again [OF f(1)]) (use f(3) in \<open>simp add: rep_def\<close>)
  have "rep \<lparr>tr_db = snd (initialize D R (tr_db t)), tr_cache = c0\<rparr> (bodies ds) metas"
    using f(3) v empty by (simp add: rep_def inbox_rep_def coherent_def)
  with f v show ?thesis by (intro followsI [where rs = rs]) simp_all
qed

lemma run_follows:
  assumes head: "head_message_index X = (\<lambda>s x. reth_head_message_index D R s)" and empty: "cached c0 = Map.empty"
    and start: "follows ev view cached (fst st0) [] [] []"
  shows "node_run ev X c0 st0 ds bs st \<Longrightarrow> honest ev ds bs msgs \<Longrightarrow> follows ev view cached (fst st) ds bs msgs"
proof (induction arbitrary: msgs rule: node_run.induct)
  case start
  then have "msgs = []" by (simp add: honest_def)
  with assms(3) show ?case by simp
next
  case (delayed ds bs t x new)
  from node_run_reads [OF delayed.hyps(1)] have h: "honest ev ds bs msgs"
      "chained K (acc_from K 0 (bodies ds)) (of_nat (length ds)) new"
    using honest_delayed delayed.prems by blast+
  have "length (ds @ new) < 2 ^ 64 - 1" using delayed.prems by (simp add: honest_def)
  with delayed_follows [OF _ delayed.hyps(2) _ h(2)] delayed.IH [OF h(1)] show ?case by simp
next
  case (batches ds bs t x new)
  obtain ps qs ms ns where h: "honest ev ds bs ms" "msgs = ms @ ns"
      "parse_batches R (ev_brotli ev) (map batch_bytes bs) = Ok ps" "consistent 0 bs ps"
      "stream_messages R (ev_brotli ev) (delayed_at (bodies ds)) ps 0 = Ok ms"
      "accepted K (bodies ds) (last (0 # map after_inbox_acc bs)) (of_nat (length bs)) new"
      "parse_batches R (ev_brotli ev) (map batch_bytes new) = Ok qs" "consistent (after_all 0 ps) new qs"
      "stream_messages R (ev_brotli ev) (delayed_at (bodies ds)) qs (after_all 0 ps) = Ok ns"
    by (rule honest_batches [OF batches.prems])
  with batches_follows [OF _ batches.hyps(2) h(3-9)] batches.IH [OF h(1)] batches.prems show ?case by simp
next
  case (execute ds bs t x s x')
  have "length msgs < 2 ^ 64 - 1" using execute.prems by (simp add: honest_def)
  with execute_follows [OF head] execute show ?case by fastforce
next
  case (restart ds bs t x x')
  with restart_follows [OF _ empty] show ?case by simp
qed

lemma start_follows:
  assumes "view s0 = Map.empty" and "cached c0 = Map.empty" and "initialize D R s0 = (Ok (), s)"
  shows "follows ev view cached (fst (\<lparr>tr_db = s, tr_cache = c0\<rparr>, x0)) [] [] []"
proof -
  have log: "log_rep R (view s) []" and rep: "rep \<lparr>tr_db = s, tr_cache = c0\<rparr> [] []"
    by (rule fresh_rep [OF assms(1,2)], simp add: assms(3))+
  have "view s = (\<lambda>k. if k \<in> {DELAYED_MESSAGE_COUNT_KEY, SEQUENCER_BATCH_COUNT_KEY, MESSAGE_COUNT_KEY}
      then Some (enc (rlp_u64 R) 0) else None)"
    by (rule initialize_eq [of s0]) (simp add: assms(1,3) cong: if_cong)
  then have "results_rep R (view s) []" by (simp add: results_rep_def key_simps)
  with log rep show ?thesis
    by (intro followsI [where metas = "[]" and rs = "[]"]) (simp_all add: in_step_def last_metadata_def no_metadata_def last_read_def)
qed

text \<open>What such a node answers.\<close>

lemma follows_reads:
  assumes fol: "follows ev view cached t ds bs msgs" and meta: "metadata_of R (ev_brotli ev) no_metadata bs = Ok metas"
  shows "get_message_count D R (tr_db t) = Ok (of_nat (length msgs))"
    and "get_message D R (tr_db t) i = (if unat i < length msgs then Ok (message_with_meta (msgs ! unat i)) else Err not_found)"
    and "get_delayed_message D (tr_db t) = delayed_at (bodies ds)"
    and "get_delayed_acc D K (tr_db t) i =
      (if unat i < length ds then Ok (acc_from K 0 (take (unat i + 1) (bodies ds)))
       else Err (Bail ''accumulator not found: delayed {}'' [unat i]))"
    and "fst (get_batch_metadata ev i t) =
      (if unat i < length bs then Ok (metas ! unat i)
       else Err (Bail ''accumulator not found: no metadata for batch {}'' [unat i]))"
proof -
  obtain rs where f: "log_rep R (view (tr_db t)) (map entry msgs)" "rep t (bodies ds) metas"
    by (rule followsE [OF fol]) (use meta in auto)
  then have d: "delayed_rep R K (view (tr_db t)) (bodies ds)" by (simp add: rep_def inbox_rep_def)
  show "get_message_count D R (tr_db t) = Ok (of_nat (length msgs))"
    using message_count_eq [OF f(1)] by (simp add: get_message_count_def)
  show "get_message D R (tr_db t) i = (if unat i < length msgs then Ok (message_with_meta (msgs ! unat i)) else Err not_found)"
    using get_message_eq [OF f(1), of i] get_message_beyond [OF f(1), of i] by (simp add: entry_def)
  show "get_delayed_message D (tr_db t) = delayed_at (bodies ds)" by (rule get_delayed_message_at [OF d])
  show "get_delayed_acc D K (tr_db t) i =
      (if unat i < length ds then Ok (acc_from K 0 (take (unat i + 1) (bodies ds)))
       else Err (Bail ''accumulator not found: delayed {}'' [unat i]))"
    using get_delayed_acc_eq [OF d, of i] by simp
  show "fst (get_batch_metadata ev i t) =
      (if unat i < length bs then Ok (metas ! unat i)
       else Err (Bail ''accumulator not found: no metadata for batch {}'' [unat i]))"
    using get_batch_metadata_eq [OF f(2), of i] length_metadata_of [OF meta] by auto
qed

end

end
