(* ===== verification/Reader_Correct.thy ===== *)
theory Reader_Correct
  imports Reader Tracker_Stream
begin

text \<open>
  Lemmas on the inbox reader: the arithmetic of its windows, the decoding of call data, and the
  parts of an iteration as operations on a tracker that holds known lists, for a parent chain whose
  answers are known.
\<close>

section \<open>Running actions\<close>

lemma on_tracker_eq: "m (rs_tracker s) = (r, t) \<Longrightarrow> on_tracker m s = (r, s\<lparr>rs_tracker := t\<rparr>)"
  by (simp add: on_tracker_def)

lemma on_chain_eq: "m (rs_world s) = (r, w) \<Longrightarrow> on_chain m s = (r, s\<lparr>rs_world := w\<rparr>)"
  by (simp add: on_chain_def)

lemma on_tracker_read: "on_tracker (db_read f) s = (f (tr_db (rs_tracker s)), s)"
  by (simp add: on_tracker_def db_read_def readM_def)

lemmas run_simps = bindM_ok matchM_ok bindM_err matchM_err okM_def liftR_def or_else_def bailM_def

text \<open>
  \<open>answers m v\<close>: whatever state the world is in, the call answers \<open>v\<close>; \<open>fails m\<close>: it
  answers an error.
\<close>

definition answers :: "('w, 'a) M \<Rightarrow> 'a \<Rightarrow> bool" where
  "answers m v \<longleftrightarrow> (\<forall>w. fst (m w) = Ok v)"

definition fails :: "('w, 'a) M \<Rightarrow> bool" where
  "fails m \<longleftrightarrow> (\<forall>w. \<exists>e. fst (m w) = Err e)"

lemma answers_on_chain:
  assumes "answers m v"
  obtains w where "on_chain m s = (Ok v, s\<lparr>rs_world := w\<rparr>)"
  using assms that on_chain_eq [of m s] by (metis answers_def prod.collapse)

lemma fails_on_chain:
  assumes "fails m"
  obtains e w where "on_chain m s = (Err e, s\<lparr>rs_world := w\<rparr>)"
  using assms that on_chain_eq [of m s] by (metis fails_def prod.collapse)

section \<open>Windows\<close>

lemma next_blocks_between:
  assumes "min_blocks_to_read cfg \<le> max_blocks_to_read cfg"
  shows "min_blocks_to_read cfg \<le> next_blocks cfg n blocks" "next_blocks cfg n blocks \<le> max_blocks_to_read cfg"
  using assms by (simp_all add: next_blocks_def Let_def linorder_not_less)

lemma get_prev_block_back:
  assumes "get_prev_block_for_reorg rd from_block n = Ok b"
  shows "first_message_block rd \<le> b" "b \<le> from_block" "unat from_block - unat b \<le> unat n"
proof -
  have b: "b = max (sat_sub from_block n) (first_message_block rd)" and f: "first_message_block rd < from_block"
    using assms by (auto simp: get_prev_block_for_reorg_def split: if_splits)
  have le: "unat (sat_sub from_block n) \<le> unat b" using b by (simp add: max_def word_le_nat_alt)
  then show "unat from_block - unat b \<le> unat n" by (simp add: unat_sat_sub)
  show "first_message_block rd \<le> b" using b by simp
  have "sat_sub from_block n \<le> from_block" by (simp add: word_le_nat_alt unat_sat_sub)
  with b f show "b \<le> from_block" by simp
qed

lemma below_head_first: "first_message_block rd \<le> below_head rd height"
  by (simp add: below_head_def Let_def)

text \<open>Whatever the chain says, the block to read from is not above the height that is found.\<close>

lemma wait_finality_above:
  "wait_finality rd n from_block h s = (Ok h', s') \<Longrightarrow> from_block < h'"
proof (induction n arbitrary: h s)
  case 0
  then show ?case by (auto simp: okM_def liftR_def split: if_splits)
next
  case (Suc n)
  show ?case
  proof (cases "h \<le> from_block")
    case True
    with Suc.prems Suc.IH show ?thesis by (auto simp: bindM_Ok_iff)
  next
    case False
    with Suc.prems show ?thesis by (simp add: okM_def)
  qed
qed

lemma await_height_bounds:
  assumes "await_height rd wakes from_block s = (Ok (height, start), s')"
  shows "start \<le> height" "read_mode (rd_config rd) = ''latest'' \<Longrightarrow> start \<le> from_block \<and> first_message_block rd \<le> height"
    "read_mode (rd_config rd) \<noteq> ''latest'' \<Longrightarrow> start < height"
  using assms
  by (auto simp: await_height_def bindM_Ok_iff Let_def okM_def below_head_first
      dest: wait_finality_above split: if_splits)

section \<open>Runs of batches\<close>

lemma contiguous_subset: "set (contiguous e bs) \<subseteq> set bs"
  by (induction e bs rule: contiguous.induct) auto

lemma contiguous_numbers:
  "unat e + length bs < 2 ^ 64 \<Longrightarrow>
   map (unat \<circ> sequence_number) (contiguous e bs) = [unat e ..< unat e + length (contiguous e bs)]"
proof (induction e bs rule: contiguous.induct)
  case (1 e)
  then show ?case by simp
next
  case (2 e b bs)
  show ?case
  proof (cases "sequence_number b = e")
    case True
    have "unat (sat_add e 1) = unat e + 1" using 2(3) by (simp add: unat_sat_add)
    with 2 True show ?thesis by (simp add: upt_rec)
  next
    case False
    with 2 show ?thesis by auto
  qed
qed

lemma length_contiguous: "length (contiguous e bs) \<le> length bs"
  by (induction e bs rule: contiguous.induct) auto

text \<open>In a sorted list the run is maximal: the number after it does not occur.\<close>

lemma contiguous_maximal:
  "sorted (map sequence_number bs) \<Longrightarrow> unat e + length bs < 2 ^ 64 \<Longrightarrow> b \<in> set bs \<Longrightarrow>
   unat (sequence_number b) \<noteq> unat e + length (contiguous e bs)"
proof (induction e bs arbitrary: b rule: contiguous.induct)
  case (1 e)
  then show ?case by simp
next
  case (2 e c bs)
  have next_e: "unat (sat_add e 1) = unat e + 1" using 2(4) by (simp add: unat_sat_add)
  consider (eq) "sequence_number c = e" | (gt) "e < sequence_number c" | (lt) "sequence_number c < e"
    by fastforce
  then show ?case
  proof cases
    case eq
    have "unat (sequence_number b) \<noteq> unat e + 1 + length (contiguous (sat_add e 1) bs)"
    proof (cases "b \<in> set bs")
      case True
      with 2(1) [OF eq] 2(3,4) next_e show ?thesis by simp
    next
      case False
      with 2(5) eq have "sequence_number b = e" by simp
      then show ?thesis by simp
    qed
    with eq show ?thesis by simp
  next
    case gt
    then have "e < sequence_number b" using 2(3,5) by fastforce
    moreover have "contiguous e (c # bs) = []" using gt by auto
    ultimately show ?thesis by (simp add: word_less_nat_alt del: contiguous.simps)
  next
    case lt
    then have skip: "contiguous e (c # bs) = contiguous e bs" by auto
    show ?thesis
    proof (cases "b \<in> set bs")
      case True
      with 2(2) lt 2(3,4) skip show ?thesis by (simp add: order_less_imp_not_less)
    next
      case False
      with 2(5) lt skip show ?thesis by (simp add: word_less_nat_alt)
    qed
  qed
qed


section \<open>Call data\<close>

text \<open>
  The words of the parameters that are no offset of a byte string are passed over; the first one that
  is gives the bytes.
\<close>

lemma slice_ok: "a \<le> b \<Longrightarrow> b \<le> length xs \<Longrightarrow> slice a b xs = Ok (take (b - a) (drop a xs))"
  by (simp add: slice_def)

lemma word_at: "length w = 32 \<Longrightarrow> b256_at_word (xs @ w @ ys) (length xs) = Ok (un_be256 w)"
  by (simp add: b256_at_word_def slice_def)

lemma unat_un_be256: "length bs = 32 \<Longrightarrow> unat (un_be256 bs) = nat_be bs"
  using nat_be_lt [of bs] by (simp add: un_be256_def unat_of_nat take_bit_nat_eq_self)

lemma unat_ucast_fits: "unat (w :: 256 word) < 2 ^ 64 \<Longrightarrow> unat (ucast w :: u64) = unat w"
  by (simp add: unsigned_ucast_eq take_bit_nat_eq_self)

text \<open>A word that is past the end is skipped, as long as adding a word to it does not wrap around.\<close>

lemma find_dynamic_skip:
  assumes "b256_at_word params (i * 32) = Ok w" and "length params < unat w + 32"
    and "unat w + 32 < 2 ^ 64 \<or> 2 ^ 64 \<le> unat w"
  shows "find_dynamic (Suc n) i params = find_dynamic n (i + 1) params"
  using assms by (auto simp: unat_ucast_fits unat_plus64 Let_def)

text \<open>A word that points at a length word followed by that many bytes gives those bytes.\<close>

lemma find_dynamic_hit:
  assumes w: "b256_at_word params (i * 32) = Ok w"
    and at: "take (32 + length payload) (drop (unat w) params) = be256 (of_nat (length payload)) @ payload"
    and len: "unat w + 32 + length payload \<le> length params" "length params < 2 ^ 64"
  shows "find_dynamic (Suc n) i params = Ok (Some payload)"
proof -
  let ?w = "ucast w :: u64" let ?l = "of_nat (length payload) :: u64"
  have u: "unat ?w = unat w" "unat (?w + 32) = unat w + 32" "unat ?l = length payload"
    "unat (?w + 32 + ?l) = unat w + 32 + length payload"
    using len by (simp_all add: unat_of_nat64 unat_ucast_fits unat_plus64)
  have u256: "unat (of_nat (length payload) :: 256 word) = length payload"
    using len by (simp add: unat_of_nat take_bit_nat_eq_self)
  have "take 32 (drop (unat w) params) = take 32 (take (32 + length payload) (drop (unat w) params))"
    by (simp add: min_def)
  then have t1: "take 32 (drop (unat w) params) = be256 (of_nat (length payload))"
    unfolding at by simp
  have "take (length payload) (drop (unat w + 32) params) =
      drop 32 (take (32 + length payload) (drop (unat w) params))"
    by (simp add: drop_take add.commute)
  then have t2: "take (length payload) (drop (unat w + 32) params) = payload"
    unfolding at by simp
  show ?thesis
    using w len by (simp add: u u256 slice_ok t1 t2 Let_def)
qed


section \<open>An iteration\<close>

text \<open>\<open>quiet s s'\<close>: at most the cache of the tracker and the world have changed.\<close>

definition quiet :: "('db, 'c, 'w) reader_state \<Rightarrow> ('db, 'c, 'w) reader_state \<Rightarrow> bool" where
  "quiet s s' \<longleftrightarrow>
     tr_db (rs_tracker s') = tr_db (rs_tracker s) \<and> caught_up s' = caught_up s \<and>
     last_seen_batch_count s' = last_seen_batch_count s \<and> last_read_batch_count s' = last_read_batch_count s"

lemma quiet_trans: "quiet a b \<Longrightarrow> quiet b c \<Longrightarrow> quiet a c"
  by (simp add: quiet_def)

lemma quiet_world [simp]: "quiet s (s\<lparr>rs_world := w\<rparr>)"
  by (simp add: quiet_def)

text \<open>The height is found when the chain is high enough already.\<close>

lemma await_height_ready:
  assumes mode: "read_mode (rd_config rd) = ''latest''" and tip: "answers (last_header (l1_reader rd)) tip"
    and high: "sat_add from_block (delay_blocks (rd_config rd) + sat_sub (min_blocks_to_read (rd_config rd)) 1) \<le> tip"
  obtains w where "await_height rd wakes from_block s =
    (Ok (below_head rd tip, min from_block (below_head rd tip)), s\<lparr>rs_world := w\<rparr>)"
proof -
  obtain w where "on_chain (last_header (l1_reader rd)) s = (Ok tip, s\<lparr>rs_world := w\<rparr>)"
    by (rule answers_on_chain [OF tip])
  moreover have "wait_latest rd n needed height s' = (Ok height, s')" if "needed \<le> height" for n needed height s'
    using that by (cases n) (simp_all add: okM_def)
  ultimately show thesis
    using that mode high by (simp add: await_height_def bindM_ok okM_def Let_def)
qed

text \<open>
  The chain at a height agrees with the delayed messages \<open>dms\<close>, or with the batches of \<open>ms\<close> as far
  as they go: its counts, and the accumulator of the last common one.
\<close>

definition agrees_delayed ::
    "('db, 'c, 'w) InboxReader \<Rightarrow> u64 \<Rightarrow> u64 \<Rightarrow> bytes list \<Rightarrow> bool" where
  "agrees_delayed rd height count dms \<longleftrightarrow>
     answers (bridge_message_count (delayed_bridge rd) height) count \<and> length dms \<le> unat count \<and>
     (dms \<noteq> [] \<longrightarrow> answers (bridge_accumulator (delayed_bridge rd) (of_nat (length dms) - 1) height 0)
       (acc_from (ev_keccak (rd_env rd)) 0 dms))"

definition agrees_batches ::
    "('db, 'c, 'w) InboxReader \<Rightarrow> u64 \<Rightarrow> u64 \<Rightarrow> BatchMetadata list \<Rightarrow> bool" where
  "agrees_batches rd height seen ms \<longleftrightarrow>
     answers (inbox_batch_count (sequencer_inbox rd) height) seen \<and> length ms \<le> unat seen \<and>
     (ms \<noteq> [] \<longrightarrow> answers (inbox_accumulator (sequencer_inbox rd) (of_nat (length ms) - 1) height)
       (accumulator (last ms)))"

text \<open>
  \<open>gives rd b d\<close>: the data of the batch \<open>b\<close> and its block are \<open>d\<close>, whatever the state; the ways a
  batch says where its data are.
\<close>

definition gives :: "('db, 'c, 'w) InboxReader \<Rightarrow> SequencerInboxBatch \<Rightarrow> bytes \<times> b256 \<Rightarrow> bool" where
  "gives rd b d \<longleftrightarrow> (\<forall>s. \<exists>w. batch_data rd b s = (Ok d, s\<lparr>rs_world := w\<rparr>))"

lemma gives_no_data: "data_location b = 2 \<Longrightarrow> gives rd b ([], batch_block_hash b)"
proof -
  assume "data_location b = 2"
  then have "batch_data rd b s = (Ok ([], batch_block_hash b), s\<lparr>rs_world := rs_world s\<rparr>)" for s
    by (simp add: batch_data_def okM_def)
  then show ?thesis unfolding gives_def by blast
qed

lemma gives_event:
  fixes rd :: "('db, 'c, 'w) InboxReader"
  assumes "data_location b = 1"
    and "answers (inbox_message_bytes (sequencer_inbox rd) (parent_chain_block_number b) (sequence_number b)
      (tx_hash b) (batch_block_hash b)) (bytes, bh, seen)"
  shows "gives rd b (bytes, bh)"
  unfolding gives_def
proof
  fix s :: "('db, 'c, 'w) reader_state"
  obtain w where "on_chain (inbox_message_bytes (sequencer_inbox rd) (parent_chain_block_number b)
      (sequence_number b) (tx_hash b) (batch_block_hash b)) s = (Ok (bytes, bh, seen), s\<lparr>rs_world := w\<rparr>)"
    by (rule answers_on_chain [OF assms(2)])
  with assms(1) show "\<exists>w. batch_data rd b s = (Ok (bytes, bh), s\<lparr>rs_world := w\<rparr>)"
    by (intro exI [of _ w]) (simp add: batch_data_def run_simps)
qed

lemma gives_call_data:
  fixes rd :: "('db, 'c, 'w) InboxReader"
  assumes "data_location b = 0" and "answers (inbox_tx_input (sequencer_inbox rd) (tx_hash b)) (input, blobs)"
    and "36 \<le> length input" and "find_dynamic ((length input - 4) div 32) 0 (drop 4 input) = Ok (Some bytes)"
  shows "gives rd b (bytes, batch_block_hash b)"
  unfolding gives_def
proof
  fix s :: "('db, 'c, 'w) reader_state"
  obtain w where "on_chain (inbox_tx_input (sequencer_inbox rd) (tx_hash b)) s =
      (Ok (input, blobs), s\<lparr>rs_world := w\<rparr>)"
    by (rule answers_on_chain [OF assms(2)])
  with assms(1,3,4) show "\<exists>w. batch_data rd b s = (Ok (bytes, batch_block_hash b), s\<lparr>rs_world := w\<rparr>)"
    by (intro exI [of _ w]) (simp add: batch_data_def run_simps)
qed

definition filled :: "SequencerInboxBatch \<Rightarrow> bytes \<times> b256 \<Rightarrow> SequencerInboxBatch" where
  "filled b d = b\<lparr>serialized := window_header b @ fst d,
     batch_block_hash := (if batch_block_hash b = 0 then snd d else batch_block_hash b)\<rparr>"

lemma fill_batches_eq:
  "list_all2 (gives rd) bs ds \<Longrightarrow>
   \<exists>w. fill_batches rd bs s = (Ok (map2 filled bs ds), s\<lparr>rs_world := w\<rparr>)"
proof (induction bs ds arbitrary: s rule: list_all2_induct)
  case Nil
  show ?case by (intro exI [of _ "rs_world s"]) (simp add: okM_def)
next
  case (Cons b bs d ds)
  obtain bytes bh where d: "d = (bytes, bh)" by (cases d)
  obtain w where w: "batch_data rd b s = (Ok d, s\<lparr>rs_world := w\<rparr>)" using Cons by (auto simp: gives_def)
  obtain w' where "fill_batches rd bs (s\<lparr>rs_world := w\<rparr>) = (Ok (map2 filled bs ds), s\<lparr>rs_world := w'\<rparr>)"
    using Cons.IH [of "s\<lparr>rs_world := w\<rparr>"] by auto
  with w d show ?case by (auto simp: run_simps Let_def filled_def intro!: exI [of _ w'])
qed

text \<open>A batch whose data are in blobs, or nowhere the code knows, ends the reading of all batches.\<close>

lemma fill_batches_blob:
  assumes "list_all2 (gives rd) bs ds" and "unat (data_location b) > 2"
  shows "\<exists>e w. fill_batches rd (bs @ b # rest) s = (Err e, s\<lparr>rs_world := w\<rparr>)"
  using assms(1)
proof (induction bs ds arbitrary: s rule: list_all2_induct)
  case Nil
  have "data_location b \<noteq> 0" "data_location b \<noteq> 1" "data_location b \<noteq> 2" using assms(2) by auto
  then obtain e where e: "batch_data rd b s = (Err e, s)"
    by (cases "data_location b = 3") (simp_all add: batch_data_def bailM_def)
  show ?case by (intro exI [of _ e] exI [of _ "rs_world s"]) (simp add: bindM_def e)
next
  case (Cons c bs d ds)
  obtain bytes bh where d: "d = (bytes, bh)" by (cases d)
  obtain w where w: "batch_data rd c s = (Ok d, s\<lparr>rs_world := w\<rparr>)" using Cons by (auto simp: gives_def)
  obtain e w' where "fill_batches rd (bs @ b # rest) (s\<lparr>rs_world := w\<rparr>) = (Err e, s\<lparr>rs_world := w'\<rparr>)"
    using Cons.IH [of "s\<lparr>rs_world := w\<rparr>"] by auto
  with w d show ?case by (auto simp: run_simps Let_def intro!: exI [of _ e] exI [of _ w'])
qed

text \<open>The maximum over batches is a bound.\<close>

lemma fold_max_le: "(\<And>x. x \<in> set xs \<Longrightarrow> x \<le> m) \<Longrightarrow> a \<le> m \<Longrightarrow> fold max xs a \<le> (m :: u64)"
  by (induction xs arbitrary: a) auto

lemma max_of_le: "(\<And>x. x \<in> set xs \<Longrightarrow> x \<le> m) \<Longrightarrow> max_of 0 xs \<le> m"
  by (cases xs) (auto simp: max_of_def intro!: fold_max_le)

context tracker_node begin

lemma check_delayed_agrees:
  assumes rd: "rd_env rd = ev" and rep: "rep (rs_tracker s) dms ms" and agree: "agrees_delayed rd height count dms"
  obtains w where "check_delayed rd height s = (Ok (of_nat (length dms) < count, False), s\<lparr>rs_world := w\<rparr>)"
proof -
  let ?n = "of_nat (length dms) :: u64"
  have drep: "delayed_rep R K (view (tr_db (rs_tracker s))) dms" using rep by (simp add: rep_def inbox_rep_def)
  then have n: "unat ?n = length dms" by (simp add: delayed_rep_def unat_of_nat64)
  have le: "?n \<le> count" using n agree by (simp add: agrees_delayed_def word_le_nat_alt)
  then have m: "(if ?n < count then ?n else count) = ?n" by auto
  obtain w where count: "on_chain (bridge_message_count (delayed_bridge rd) height) s = (Ok count, s\<lparr>rs_world := w\<rparr>)"
    using agree by (auto simp: agrees_delayed_def elim: answers_on_chain [where s = s])
  have start: "check_delayed rd height s =
      (if ?n > 0 then
         bindM (or_else (on_chain (bridge_accumulator (delayed_bridge rd) (?n - 1) height 0)) 0) (\<lambda>l1_acc.
         bindM (on_tracker (db_read (\<lambda>s. get_delayed_acc D K s (?n - 1)))) (\<lambda>db_acc.
         okM (?n < count, db_acc \<noteq> l1_acc)))
       else okM (?n < count, False)) (s\<lparr>rs_world := w\<rparr>)"
    using count le
    by (simp add: check_delayed_def rd Let_def run_simps on_tracker_read get_delayed_count_eq [OF drep] m linorder_not_less)
  show thesis
  proof (cases "dms = []")
    case True
    with start that show thesis by (simp add: okM_def)
  next
    case False
    with n have "?n \<noteq> 0" by auto
    with n False have pos: "?n > 0" "unat (?n - 1) = length dms - 1" "length dms - 1 < length dms"
      by (simp_all add: unat_minus_one word_gt_0)
    have a: "answers (bridge_accumulator (delayed_bridge rd) (?n - 1) height 0) (acc_from K 0 dms)"
      using agree False by (simp add: agrees_delayed_def rd)
    obtain w' where "on_chain (bridge_accumulator (delayed_bridge rd) (?n - 1) height 0) (s\<lparr>rs_world := w\<rparr>) =
        (Ok (acc_from K 0 dms), s\<lparr>rs_world := w'\<rparr>)"
      by (rule answers_on_chain [OF a, of "s\<lparr>rs_world := w\<rparr>"]) simp
    with start pos that [of w'] show thesis
      by (simp add: run_simps on_tracker_read get_delayed_acc_eq [OF drep])
  qed
qed

lemma get_batch_acc_eq:
  assumes rep: "rep t dms ms" and i: "unat i < length ms"
  obtains t' where "get_batch_acc ev i t = (Ok (accumulator (ms ! unat i)), t')"
    and "tr_db t' = tr_db t" and "rep t' dms ms"
  using get_batch_metadata_eq [OF rep, of i] i that by (auto simp: get_batch_acc_def monad_simps)

lemma on_tracker_batch_count:
  assumes "rep (rs_tracker s) dms ms"
  shows "on_tracker (db_op (get_batch_count D R)) s = (Ok (of_nat (length ms)), s)"
  using get_batch_count_eq [of "tr_db (rs_tracker s)" ms] assms
  by (simp add: on_tracker_def db_op_def rep_def inbox_rep_def)

lemma check_sequencer_agrees:
  assumes rd: "rd_env rd = ev" and rep: "rep (rs_tracker s) dms ms" and agree: "agrees_batches rd height seen ms"
  obtains s' where "check_sequencer rd height s =
      (Ok (seen, of_nat (length ms), of_nat (length ms) < seen, False), s')"
    and "quiet s s'" and "rep (rs_tracker s') dms ms"
proof -
  let ?n = "of_nat (length ms) :: u64"
  have "length ms < 2 ^ 64" using rep by (simp add: rep_def inbox_rep_def batches_rep_def)
  then have n: "unat ?n = length ms" by (rule unat_of_nat64)
  then have m: "min ?n seen = ?n" using agree by (simp add: agrees_batches_def min_def word_le_nat_alt)
  obtain w where count: "on_chain (inbox_batch_count (sequencer_inbox rd) height) s = (Ok seen, s\<lparr>rs_world := w\<rparr>)"
    using agree by (auto simp: agrees_batches_def elim: answers_on_chain [where s = s])
  let ?s = "s\<lparr>rs_world := w\<rparr>"
  have "on_tracker (db_op (get_batch_count D R)) ?s = (Ok ?n, ?s)"
    by (rule on_tracker_batch_count [where dms = dms]) (simp add: rep)
  with count have start: "check_sequencer rd height s =
      (if ?n > 0 then
         bindM (or_else (on_chain (inbox_accumulator (sequencer_inbox rd) (?n - 1) height)) 0) (\<lambda>l1_acc.
         bindM (on_tracker (get_batch_acc ev (?n - 1))) (\<lambda>db_acc.
         okM (seen, ?n, ?n < seen, db_acc \<noteq> l1_acc)))
       else okM (seen, ?n, ?n < seen, False)) ?s"
    by (simp add: check_sequencer_def rd Let_def run_simps m del: min_less_iff_conj)
  show thesis
  proof (cases "ms = []")
    case True
    with start that [of ?s] rep show thesis by (simp add: okM_def)
  next
    case False
    with n have "?n \<noteq> 0" by auto
    with n False have pos: "?n > 0" "unat (?n - 1) = length ms - 1" "length ms - 1 < length ms"
      by (simp_all add: unat_minus_one word_gt_0)
    have a: "answers (inbox_accumulator (sequencer_inbox rd) (?n - 1) height) (accumulator (last ms))"
      using agree False by (simp add: agrees_batches_def)
    obtain w' where "on_chain (inbox_accumulator (sequencer_inbox rd) (?n - 1) height) ?s =
        (Ok (accumulator (last ms)), s\<lparr>rs_world := w'\<rparr>)"
      by (rule answers_on_chain [OF a, of ?s]) simp
    moreover obtain t' where "get_batch_acc ev (?n - 1) (rs_tracker s) = (Ok (accumulator (last ms)), t')"
        "tr_db t' = tr_db (rs_tracker s)" "rep t' dms ms"
      using get_batch_acc_eq [OF rep, of "?n - 1"] pos False by (auto simp: last_conv_nth)
    ultimately show thesis
      using start pos that [of "s\<lparr>rs_world := w', rs_tracker := t'\<rparr>"]
      by (simp add: run_simps on_tracker_eq quiet_def)
  qed
qed

text \<open>
  A count the chain does not answer reads as zero: every delayed message goes, and every batch that
  has read any.
\<close>

lemma check_delayed_unanswered:
  assumes rd: "rd_env rd = ev" and rep: "rep (rs_tracker s) dms ms"
    and err: "fails (bridge_message_count (delayed_bridge rd) height)"
  obtains s' where "check_delayed rd height s = (Ok (False, False), s')" and "rep (rs_tracker s') [] (kept 0 ms)"
proof -
  have drep: "delayed_rep R K (view (tr_db (rs_tracker s))) dms" using rep by (simp add: rep_def inbox_rep_def)
  obtain e w where count: "on_chain (bridge_message_count (delayed_bridge rd) height) s = (Err e, s\<lparr>rs_world := w\<rparr>)"
    by (rule fails_on_chain [OF err])
  have lt: "length dms < 2 ^ 64" using drep by (simp add: delayed_rep_def)
  show thesis
  proof (cases "dms = []")
    case True
    have "kept 0 ms = ms"
      by (rule kept_all [of "view (tr_db (rs_tracker s))"])
         (use rep True in \<open>simp_all add: rep_def inbox_rep_def unat_eq_zero\<close>)
    with count True that [of "s\<lparr>rs_world := w\<rparr>"] rep show thesis
      by (simp add: check_delayed_def rd Let_def run_simps on_tracker_read get_delayed_count_eq [OF drep])
  next
    case False
    have pos: "(of_nat (length dms) :: u64) > 0"
      using False lt unat_of_nat64 [OF lt] by (simp add: word_less_nat_alt)
    obtain t' where "reorg_delayed_to ev 0 (rs_tracker s) = (Ok (), t')" and "rep t' (take (unat (0 :: u64)) dms) (kept 0 ms)"
      by (rule reorg_delayed_refines [OF rep, of 0]) simp_all
    with count pos that [of "s\<lparr>rs_world := w, rs_tracker := t'\<rparr>"] show thesis
      by (simp add: check_delayed_def rd Let_def run_simps on_tracker_read on_tracker_eq get_delayed_count_eq [OF drep])
  qed
qed

lemma probe_metadata_eq:
  assumes rep: "rep (rs_tracker s) dms ms" and n: "n < length ms"
  obtains s' where "probe_metadata ev n s = (Ok (of_nat n), s')" and "quiet s s'" and "rep (rs_tracker s') dms ms"
proof (cases n)
  case 0
  with that [of s] rep show thesis by (simp add: okM_def quiet_def)
next
  case (Suc m)
  have lt: "length ms < 2 ^ 64" using rep by (simp add: rep_def inbox_rep_def batches_rep_def)
  then have "unat (of_nat n :: u64) = n" using n by (simp add: unat_of_nat64)
  then obtain t' where "get_batch_metadata ev (of_nat n) (rs_tracker s) = (Ok (ms ! n), t')"
      "tr_db t' = tr_db (rs_tracker s)" "rep t' dms ms"
    using get_batch_metadata_eq [OF rep, of "of_nat n"] n by auto
  with Suc that [of "s\<lparr>rs_tracker := t'\<rparr>"] show thesis
    by (simp add: run_simps on_tracker_eq quiet_def)
qed

lemma expected_batch_eq:
  assumes rd: "rd_env rd = ev" and rep: "rep (rs_tracker s) dms ms"
  obtains s' where "expected_batch rd s = (Ok (of_nat (length ms)), s')" and "quiet s s'"
    and "rep (rs_tracker s') dms ms"
proof -
  let ?n = "of_nat (length ms) :: u64"
  have "length ms < 2 ^ 64" using rep by (simp add: rep_def inbox_rep_def batches_rep_def)
  then have n: "unat ?n = length ms" by (rule unat_of_nat64)
  note count = on_tracker_batch_count [OF rep]
  show thesis
  proof (cases "ms = []")
    case True
    with count that [of s] rep show thesis
      by (simp add: expected_batch_def rd Let_def run_simps quiet_def)
  next
    case False
    with n have nz: "?n \<noteq> 0" by auto
    with n False have pos: "?n > 0" "unat (?n - 1) = length ms - 1" "length ms - 1 < length ms"
      by (simp_all add: unat_minus_one word_gt_0)
    obtain s' where s': "probe_metadata ev (length ms - 1) s = (Ok (of_nat (length ms - 1)), s')"
        "quiet s s'" "rep (rs_tracker s') dms ms"
      by (rule probe_metadata_eq [OF rep pos(3)])
    have "of_nat (length ms - 1) + 1 = ?n" using False by (cases ms) simp_all
    with count pos s' that [of s'] show thesis
      by (simp add: expected_batch_def rd Let_def run_simps)
  qed
qed

text \<open>The delayed phase: the chain's messages from the position on are recorded; the log stays.\<close>

lemma fetch_delayed_refines:
  assumes rd: "rd_env rd = ev" and rep: "rep (rs_tracker s) dms ms"
    and look: "answers (bridge_lookup (delayed_bridge rd) from_block to_block) dl"
    and tuples: "delayed_tuples dl = Ok msgs" and ne: "dl \<noteq> []"
    and p: "unat p \<le> length dms" "unat p + length msgs < 2 ^ 64 - 1"
    and chain: "chained K (acc_from K 0 (take (unat p) dms)) p msgs"
  obtains w t' where "fetch_delayed rd from_block to_block s =
      (Ok (of_nat (length dl)), s\<lparr>rs_world := w, rs_tracker := t'\<rparr>)"
    and "rep t' (take (unat p) dms @ bodies msgs) (kept p ms)"
    and "\<And>k. stream_key k \<Longrightarrow> view (tr_db t') k = view (tr_db (rs_tracker s)) k"
proof -
  have "msgs \<noteq> []" using tuples ne by (cases dl) (auto simp: bindR_Ok_iff)
  then obtain t' where add: "add_delayed_messages ev msgs None (rs_tracker s) = (Ok (), t')"
    and t': "rep t' (take (unat p) dms @ bodies msgs) (kept p ms)"
      "\<And>k. stream_key k \<Longrightarrow> view (tr_db t') k = view (tr_db (rs_tracker s)) k"
    using add_delayed_refines [OF rep _ p chain] by blast
  obtain w where "on_chain (bridge_lookup (delayed_bridge rd) from_block to_block) s = (Ok dl, s\<lparr>rs_world := w\<rparr>)"
    by (rule answers_on_chain [OF look])
  with add ne tuples have "fetch_delayed rd from_block to_block s =
      (Ok (of_nat (length dl)), s\<lparr>rs_world := w, rs_tracker := t'\<rparr>)"
    by (simp add: fetch_delayed_def rd run_simps on_tracker_eq)
  with t' that show thesis by blast
qed

lemma backfill_nothing:
  assumes rd: "rd_env rd = ev" and rep: "rep (rs_tracker s) dms ms"
    and bound: "\<And>b. b \<in> set good \<Longrightarrow> unat (after_delayed_count b) \<le> length dms"
  shows "backfill rd from_block to_block good s = (Ok (), s)"
proof -
  have drep: "delayed_rep R K (view (tr_db (rs_tracker s))) dms" using rep by (simp add: rep_def inbox_rep_def)
  then have "unat (of_nat (length dms) :: u64) = length dms" by (simp add: delayed_rep_def unat_of_nat64)
  then have "max_of 0 (map after_delayed_count good) \<le> of_nat (length dms)"
    using bound by (intro max_of_le) (auto simp: word_le_nat_alt)
  then have "\<not> of_nat (length dms) < max_of 0 (map after_delayed_count good)" by simp
  then show ?thesis
    by (simp add: backfill_def rd Let_def run_simps on_tracker_read get_delayed_count_eq [OF drep])
qed

text \<open>The batch phase: of the batches found, the run from the expected one on is handed to the tracker.\<close>

lemma fetch_batches_refines:
  assumes rd: "rd_env rd = ev" and log: "log_rep R (view (tr_db (rs_tracker s))) log"
    and rep: "rep (rs_tracker s) dms ms" and step: "in_step log ms"
    and look: "answers (inbox_lookup (sequencer_inbox rd) (win_from win) to_block) found"
    and data: "list_all2 (gives rd) found ds"
    and bound: "\<And>b. b \<in> set found \<Longrightarrow> unat (after_delayed_count b) \<le> length dms"
    and run: "contiguous (of_nat (length ms)) (sort_key sequence_number (map2 filled found ds)) = bs"
    and ne: "bs \<noteq> []" and p: "length ms = unat (sequence_number (hd bs))"
    and len: "length ms + length bs < 2 ^ 64 - 1" "length log + length msgs < 2 ^ 64"
    and acc: "accepted K dms (accumulator (last_metadata ms)) (sequence_number (hd bs)) bs"
    and parse: "parse_batches R (ev_brotli ev) (map batch_bytes bs) = Ok ps"
    and cons: "consistent (last_read log) bs ps"
    and msgs: "stream_messages R (ev_brotli ev) (delayed_at dms) ps (last_read log) = Ok msgs"
  obtains s' metas where "fetch_batches rd win to_block seen s =
      (Ok (of_nat (length bs), max seen (sequence_number (last bs) + 1), win), s')"
    and "caught_up s' = caught_up s"
    and "log_rep R (view (tr_db (rs_tracker s'))) (log @ map entry msgs)" and "rep (rs_tracker s') dms (ms @ metas)"
    and "in_step (log @ map entry msgs) (ms @ metas)"
    and "metadata_of R (ev_brotli ev) (last_metadata ms) bs = Ok metas"
    and "results_upto (view (tr_db (rs_tracker s))) (view (tr_db (rs_tracker s'))) None"
proof -
  let ?good = "map2 filled found ds"
  obtain w where w: "on_chain (inbox_lookup (sequencer_inbox rd) (win_from win) to_block) s =
      (Ok found, s\<lparr>rs_world := w\<rparr>)"
    by (rule answers_on_chain [OF look])
  obtain w1 where fill: "fill_batches rd found (s\<lparr>rs_world := w\<rparr>) = (Ok ?good, s\<lparr>rs_world := w1\<rparr>)"
    using fill_batches_eq [OF data, of "s\<lparr>rs_world := w\<rparr>"] by auto
  let ?s1 = "s\<lparr>rs_world := w1\<rparr>"
  have rep1: "rep (rs_tracker ?s1) dms ms" using rep by simp
  have good: "?good \<noteq> []" using run ne by auto
  have "unat (after_delayed_count b) \<le> length dms" if "b \<in> set ?good" for b
    using that bound by (auto simp: filled_def dest: set_zip_leftD)
  then have idle: "backfill rd (win_from win) to_block ?good ?s1 = (Ok (), ?s1)"
    by (rule backfill_nothing [OF rd rep1])
  obtain s2 where expect: "expected_batch rd ?s1 = (Ok (of_nat (length ms)), s2)" and q: "quiet ?s1 s2"
      and rep2: "rep (rs_tracker s2) dms ms"
    by (rule expected_batch_eq [OF rd rep1])
  have log2: "log_rep R (view (tr_db (rs_tracker s2))) log" using log q by (simp add: quiet_def)
  obtain t' metas where add: "add_sequencer_batches_and_stream ev bs (rs_tracker s2) = (Ok (), t')"
    and t': "log_rep R (view (tr_db t')) (log @ map entry msgs)" "rep t' dms (ms @ metas)"
      "in_step (log @ map entry msgs) (ms @ metas)" "metadata_of R (ev_brotli ev) (last_metadata ms) bs = Ok metas"
      "results_upto (view (tr_db (rs_tracker s2))) (view (tr_db t')) None"
    by (rule stream_refines_results [OF log2 rep2 step ne p len acc parse cons msgs]) blast
  have "deliver rd win seen ?good ?s1 =
      (Ok (of_nat (length bs), max seen (sequence_number (last bs) + 1), win), s2\<lparr>rs_tracker := t'\<rparr>)"
    using expect run ne add by (simp add: deliver_def rd Let_def run_simps on_tracker_eq)
  with w fill good idle have "fetch_batches rd win to_block seen s =
      (Ok (of_nat (length bs), max seen (sequence_number (last bs) + 1), win), s2\<lparr>rs_tracker := t'\<rparr>)"
    by (simp add: fetch_batches_def run_simps)
  moreover have "caught_up s2 = caught_up s" "tr_db (rs_tracker s2) = tr_db (rs_tracker s)" using q by (simp_all add: quiet_def)
  ultimately show thesis using that [of "s2\<lparr>rs_tracker := t'\<rparr>" metas] t' by simp
qed

text \<open>
  The delayed phase of an iteration: when the chain has more messages, those it has in the window are
  appended; the log is not touched.
\<close>

lemma delayed_phase:
  assumes rd: "rd_env rd = ev" and rep: "rep (rs_tracker s) dms ms"
    and look: "missing \<Longrightarrow> answers (bridge_lookup (delayed_bridge rd) from_block to_block) dl"
    and none: "\<not> missing \<Longrightarrow> dl = []"
    and tuples: "delayed_tuples dl = Ok msgs" and len: "length dms + length msgs < 2 ^ 64 - 1"
    and chain: "chained K (acc_from K 0 dms) (of_nat (length dms)) msgs"
  obtains s' where "(if missing then fetch_delayed rd from_block to_block else okM 0) s = (Ok (of_nat (length dl)), s')"
    and "rep (rs_tracker s') (dms @ bodies msgs) ms"
    and "\<And>k. stream_key k \<Longrightarrow> view (tr_db (rs_tracker s')) k = view (tr_db (rs_tracker s)) k"
    and "caught_up s' = caught_up s"
proof (cases "dl = []")
  case True
  then have m: "msgs = []" using tuples by simp
  show thesis
  proof (cases missing)
    case miss: True
    obtain w where "on_chain (bridge_lookup (delayed_bridge rd) from_block to_block) s = (Ok dl, s\<lparr>rs_world := w\<rparr>)"
      by (rule answers_on_chain [OF look [OF miss]])
    with True m miss rep that [of "s\<lparr>rs_world := w\<rparr>"] show thesis
      by (simp add: fetch_delayed_def run_simps)
  next
    case False
    with True m rep that [of s] show thesis by (simp add: okM_def)
  qed
next
  case False
  then have miss: missing using none by blast
  let ?p = "of_nat (length dms) :: u64"
  have inbox: "batches_rep R (view (tr_db (rs_tracker s))) ms" "unat (last_delayed ms) \<le> length dms"
    using rep by (simp_all add: rep_def inbox_rep_def)
  have u: "unat ?p = length dms" using len by (simp add: unat_of_nat64)
  have p: "unat ?p \<le> length dms" "unat ?p + length msgs < 2 ^ 64 - 1" "take (unat ?p) dms = dms"
    using u len by simp_all
  have "last_delayed ms \<le> ?p" using inbox(2) u by (simp add: word_le_nat_alt)
  then have kept: "kept ?p ms = ms" by (rule kept_all [OF inbox(1)])
  obtain w t' where "fetch_delayed rd from_block to_block s =
      (Ok (of_nat (length dl)), s\<lparr>rs_world := w, rs_tracker := t'\<rparr>)"
    and "rep t' (take (unat ?p) dms @ bodies msgs) (kept ?p ms)"
    and "\<And>k. stream_key k \<Longrightarrow> view (tr_db t') k = view (tr_db (rs_tracker s)) k"
    by (rule fetch_delayed_refines [OF rd rep look [OF miss] tuples False p(1,2)]) (use chain p(3) in simp_all)
  with miss kept p(3) that [of "s\<lparr>rs_world := w, rs_tracker := t'\<rparr>"] show thesis by simp
qed

text \<open>Up to the decision: the height, the block to read from, and what is missing.\<close>

lemma iteration_checks:
  assumes rd: "rd_env rd = ev" and rep: "rep (rs_tracker s) dms ms"
    and mode: "read_mode (rd_config rd) = ''latest''" and tip: "answers (last_header (l1_reader rd)) tip"
    and high: "sat_add (win_from win) (delay_blocks (rd_config rd) + sat_sub (min_blocks_to_read (rd_config rd)) 1) \<le> tip"
    and delayed: "agrees_delayed rd (below_head rd tip) count dms"
    and batches: "agrees_batches rd (below_head rd tip) seen ms"
  obtains w s2 s3 where "await_height rd wakes (win_from win) s =
      (Ok (below_head rd tip, min (win_from win) (below_head rd tip)), s\<lparr>rs_world := w\<rparr>)"
    and "check_delayed rd (below_head rd tip) (s\<lparr>rs_world := w\<rparr>) = (Ok (of_nat (length dms) < count, False), s2)"
    and "check_sequencer rd (below_head rd tip) s2 =
      (Ok (seen, of_nat (length ms), of_nat (length ms) < seen, False), s3)"
    and "quiet s s3" and "rep (rs_tracker s3) dms ms"
proof -
  obtain w where 1: "await_height rd wakes (win_from win) s =
      (Ok (below_head rd tip, min (win_from win) (below_head rd tip)), s\<lparr>rs_world := w\<rparr>)"
    by (rule await_height_ready [OF mode tip high])
  let ?s1 = "s\<lparr>rs_world := w\<rparr>"
  have rep1: "rep (rs_tracker ?s1) dms ms" using rep by simp
  obtain w2 where 2: "check_delayed rd (below_head rd tip) ?s1 =
      (Ok (of_nat (length dms) < count, False), ?s1\<lparr>rs_world := w2\<rparr>)"
    by (rule check_delayed_agrees [OF rd rep1 delayed])
  have rep2: "rep (rs_tracker (?s1\<lparr>rs_world := w2\<rparr>)) dms ms" using rep by simp
  obtain s3 where 3: "check_sequencer rd (below_head rd tip) (?s1\<lparr>rs_world := w2\<rparr>) =
      (Ok (seen, of_nat (length ms), of_nat (length ms) < seen, False), s3)"
      and q: "quiet (?s1\<lparr>rs_world := w2\<rparr>) s3" and rep3: "rep (rs_tracker s3) dms ms"
    by (rule check_sequencer_agrees [OF rd rep2 batches])
  have "quiet s s3" using q by (simp add: quiet_def)
  show thesis by (rule that [OF 1 2 3 \<open>quiet s s3\<close> rep3])
qed

lemma iteration_caught_up:
  assumes rd: "rd_env rd = ev" and rep: "rep (rs_tracker s) dms ms"
    and mode: "read_mode (rd_config rd) = ''latest''" and tip: "answers (last_header (l1_reader rd)) tip"
    and high: "sat_add (win_from win) (delay_blocks (rd_config rd) + sat_sub (min_blocks_to_read (rd_config rd)) 1) \<le> tip"
    and delayed: "agrees_delayed rd (below_head rd tip) (of_nat (length dms)) dms"
    and batches: "agrees_batches rd (below_head rd tip) (of_nat (length ms)) ms"
  obtains s' where "reader_iteration rd wakes win s =
      (Ok \<lparr>win_from = sat_add (below_head rd tip) 1, win_blocks = default_blocks_to_read (rd_config rd)\<rparr>, s')"
    and "tr_db (rs_tracker s') = tr_db (rs_tracker s)" and "rep (rs_tracker s') dms ms" and "caught_up s'"
    and "last_seen_batch_count s' = of_nat (length ms)" and "last_read_batch_count s' = of_nat (length ms)"
proof -
  let ?n = "of_nat (length ms) :: u64"
  obtain w s2 s3 where runs: "await_height rd wakes (win_from win) s =
      (Ok (below_head rd tip, min (win_from win) (below_head rd tip)), s\<lparr>rs_world := w\<rparr>)"
    "check_delayed rd (below_head rd tip) (s\<lparr>rs_world := w\<rparr>) = (Ok (of_nat (length dms) < (of_nat (length dms) :: u64), False), s2)"
    "check_sequencer rd (below_head rd tip) s2 = (Ok (?n, ?n, ?n < ?n, False), s3)"
    and q: "quiet s s3" and rep3: "rep (rs_tracker s3) dms ms"
    by (rule iteration_checks [OF rd rep mode tip high delayed batches])
  let ?s' = "s3\<lparr>last_read_batch_count := ?n, last_seen_batch_count := ?n, caught_up := True\<rparr>"
  have "reader_iteration rd wakes win s =
      (Ok \<lparr>win_from = sat_add (below_head rd tip) 1, win_blocks = default_blocks_to_read (rd_config rd)\<rparr>, ?s')"
    using runs mode
    by (cases "caught_up s3") (simp_all add: reader_iteration_def Let_def run_simps store_counts_def mark_caught_up_def)
  moreover have "tr_db (rs_tracker ?s') = tr_db (rs_tracker s)" using q by (simp add: quiet_def)
  ultimately show thesis using that [of ?s'] rep3 by simp
qed

text \<open>
  An iteration that finds new batches, and perhaps new delayed messages before them: the messages are
  appended, then the batches are handed over.
\<close>

lemma iteration_reads:
  assumes rd: "rd_env rd = ev" and log: "log_rep R (view (tr_db (rs_tracker s))) log"
    and rep: "rep (rs_tracker s) dms ms" and step: "in_step log ms"
    and mode: "read_mode (rd_config rd) = ''latest''" and tip: "answers (last_header (l1_reader rd)) tip"
    and high: "sat_add (win_from win) (delay_blocks (rd_config rd) + sat_sub (min_blocks_to_read (rd_config rd)) 1) \<le> tip"
    and height: "height = below_head rd tip"
    and window: "from_block = min (win_from win) height" "to_block = min (sat_add from_block (win_blocks win)) height"
    and delayed: "agrees_delayed rd height count dms"
    and new: "length dms < unat count \<Longrightarrow> answers (bridge_lookup (delayed_bridge rd) from_block to_block) dl"
      "unat count = length dms \<Longrightarrow> dl = []"
    and tuples: "delayed_tuples dl = Ok dmsgs" and dlen: "length dms + length dmsgs < 2 ^ 64 - 1"
    and chain: "chained K (acc_from K 0 dms) (of_nat (length dms)) dmsgs"
    and dms': "dms' = dms @ bodies dmsgs"
    and batches: "agrees_batches rd height seen ms" and missing: "length ms < unat seen"
    and look: "answers (inbox_lookup (sequencer_inbox rd) from_block to_block) found"
    and data: "list_all2 (gives rd) found ds"
    and bound: "\<And>b. b \<in> set found \<Longrightarrow> unat (after_delayed_count b) \<le> length dms'"
    and run: "contiguous (of_nat (length ms)) (sort_key sequence_number (map2 filled found ds)) = bs"
    and ne: "bs \<noteq> []" and p: "length ms = unat (sequence_number (hd bs))"
    and len: "length ms + length bs < 2 ^ 64 - 1" "length log + length msgs < 2 ^ 64"
      "length dl + length bs < 2 ^ 64"
    and acc: "accepted K dms' (accumulator (last_metadata ms)) (sequence_number (hd bs)) bs"
    and parse: "parse_batches R (ev_brotli ev) (map batch_bytes bs) = Ok ps"
    and cons: "consistent (last_read log) bs ps"
    and msgs: "stream_messages R (ev_brotli ev) (delayed_at dms') ps (last_read log) = Ok msgs"
  obtains s' metas where "reader_iteration rd wakes win s =
      (Ok \<lparr>win_from = sat_add to_block 1,
           win_blocks = next_blocks (rd_config rd) (of_nat (length dl) + of_nat (length bs)) (win_blocks win)\<rparr>, s')"
    and "log_rep R (view (tr_db (rs_tracker s'))) (log @ map entry msgs)"
    and "rep (rs_tracker s') dms' (ms @ metas)" and "in_step (log @ map entry msgs) (ms @ metas)"
    and "last_seen_batch_count s' = max seen (sequence_number (last bs) + 1)"
    and "metadata_of R (ev_brotli ev) (last_metadata ms) bs = Ok metas"
    and "results_upto (view (tr_db (rs_tracker s))) (view (tr_db (rs_tracker s'))) None"
proof -
  let ?n = "of_nat (length ms) :: u64" let ?d = "of_nat (length dms) :: u64"
  have lens: "length dms < 2 ^ 64" "length ms < 2 ^ 64" using dlen len by simp_all
  obtain w s2 s3 where runs: "await_height rd wakes (win_from win) s = (Ok (height, from_block), s\<lparr>rs_world := w\<rparr>)"
    "check_delayed rd height (s\<lparr>rs_world := w\<rparr>) = (Ok (?d < count, False), s2)"
    "check_sequencer rd height s2 = (Ok (seen, ?n, ?n < seen, False), s3)"
    and q: "quiet s s3" and rep3: "rep (rs_tracker s3) dms ms"
    using iteration_checks [OF rd rep mode tip high delayed [unfolded height] batches [unfolded height]]
    unfolding height window by metis
  have log3: "log_rep R (view (tr_db (rs_tracker s3))) log" using log q by (simp add: quiet_def)
  have more: "?n < seen" using missing lens(2) by (simp add: word_less_nat_alt unat_of_nat64)
  have dmore: "?d < count \<longleftrightarrow> length dms < unat count" using lens(1) by (simp add: word_less_nat_alt unat_of_nat64)
  have "length dms \<le> unat count" using delayed by (simp add: agrees_delayed_def)
  then have dnone: "\<not> ?d < count \<Longrightarrow> dl = []" using new(2) dmore by simp
  have dlook: "?d < count \<Longrightarrow> answers (bridge_lookup (delayed_bridge rd) from_block to_block) dl"
    using new(1) dmore by simp
  obtain s4 where fetch_d: "(if ?d < count then fetch_delayed rd from_block to_block else okM 0) s3 =
      (Ok (of_nat (length dl)), s4)"
    and rep4: "rep (rs_tracker s4) dms' ms"
    and frame: "\<And>k. stream_key k \<Longrightarrow> view (tr_db (rs_tracker s4)) k = view (tr_db (rs_tracker s3)) k"
    unfolding dms' by (rule delayed_phase [OF rd rep3 dlook dnone tuples dlen chain]) blast+
  have log4: "log_rep R (view (tr_db (rs_tracker s4))) log" by (rule log_rep_frame [OF log3 frame])
  let ?win = "win\<lparr>win_from := from_block\<rparr>" let ?seen = "max seen (sequence_number (last bs) + 1)"
  have look': "answers (inbox_lookup (sequencer_inbox rd) (win_from ?win) to_block) found" using look by simp
  obtain s5 metas where fetch_b: "fetch_batches rd ?win to_block seen s4 = (Ok (of_nat (length bs), ?seen, ?win), s5)"
    and s5: "log_rep R (view (tr_db (rs_tracker s5))) (log @ map entry msgs)" "rep (rs_tracker s5) dms' (ms @ metas)"
      "in_step (log @ map entry msgs) (ms @ metas)" "metadata_of R (ev_brotli ev) (last_metadata ms) bs = Ok metas"
      "results_upto (view (tr_db (rs_tracker s4))) (view (tr_db (rs_tracker s5))) None"
    by (rule fetch_batches_refines [OF rd log4 rep4 step look' data bound run ne p len(1,2) acc parse cons msgs])
  let ?s' = "s5\<lparr>last_read_batch_count := ?n, last_seen_batch_count := ?seen\<rparr>"
  have "unat (of_nat (length dl) + of_nat (length bs) :: u64) = length dl + length bs"
    using len(3) by (simp add: unat_plus64 unat_of_nat64)
  then have have_msgs: "(of_nat (length dl) + of_nat (length bs) :: u64) > 0"
    using ne by (simp add: word_less_nat_alt)
  have "reader_iteration rd wakes win s =
      (Ok \<lparr>win_from = sat_add to_block 1,
           win_blocks = next_blocks (rd_config rd) (of_nat (length dl) + of_nat (length bs)) (win_blocks win)\<rparr>, ?s')"
    using runs more fetch_d fetch_b have_msgs
    by (cases "?d < count")
       (simp_all add: reader_iteration_def Let_def bindM_def store_counts_def okM_def window(2) [symmetric])
  moreover have "results_upto (view (tr_db (rs_tracker s))) (view (tr_db (rs_tracker s4))) None"
    using results_upto_frame [OF frame] q by (simp add: quiet_def)
  from results_upto_trans [OF this s5(5)]
  have "results_upto (view (tr_db (rs_tracker s))) (view (tr_db (rs_tracker s5))) None" .
  ultimately show thesis using s5 that [of ?s' metas] by simp
qed

text \<open>
  An iteration whose window has no batches: delayed messages are appended when there are some, and
  otherwise only the window grows.
\<close>

lemma iteration_no_batches:
  assumes rd: "rd_env rd = ev" and log: "log_rep R (view (tr_db (rs_tracker s))) log"
    and rep: "rep (rs_tracker s) dms ms"
    and mode: "read_mode (rd_config rd) = ''latest''" and tip: "answers (last_header (l1_reader rd)) tip"
    and high: "sat_add (win_from win) (delay_blocks (rd_config rd) + sat_sub (min_blocks_to_read (rd_config rd)) 1) \<le> tip"
    and height: "height = below_head rd tip"
    and window: "from_block = min (win_from win) height" "to_block = min (sat_add from_block (win_blocks win)) height"
    and delayed: "agrees_delayed rd height count dms"
    and new: "length dms < unat count \<Longrightarrow> answers (bridge_lookup (delayed_bridge rd) from_block to_block) dl"
      "unat count = length dms \<Longrightarrow> dl = []"
    and tuples: "delayed_tuples dl = Ok dmsgs" and dlen: "length dms + length dmsgs < 2 ^ 64 - 1" "length dl < 2 ^ 64"
    and chain: "chained K (acc_from K 0 dms) (of_nat (length dms)) dmsgs"
    and batches: "agrees_batches rd height seen ms"
    and some: "length dms < unat count \<or> length ms < unat seen"
    and look: "length ms < unat seen \<Longrightarrow> answers (inbox_lookup (sequencer_inbox rd) from_block to_block) []"
  obtains s' where "reader_iteration rd wakes win s =
      (Ok \<lparr>win_from = (if dl = [] then from_block else sat_add to_block 1),
           win_blocks = next_blocks (rd_config rd) (of_nat (length dl)) (win_blocks win)\<rparr>, s')"
    and "log_rep R (view (tr_db (rs_tracker s'))) log" and "rep (rs_tracker s') (dms @ bodies dmsgs) ms"
    and "results_upto (view (tr_db (rs_tracker s))) (view (tr_db (rs_tracker s'))) None"
proof -
  let ?n = "of_nat (length ms) :: u64" let ?d = "of_nat (length dms) :: u64"
  have lens: "length dms < 2 ^ 64" "length ms < 2 ^ 64"
    using dlen rep by (simp_all add: rep_def inbox_rep_def batches_rep_def)
  obtain w s2 s3 where runs: "await_height rd wakes (win_from win) s = (Ok (height, from_block), s\<lparr>rs_world := w\<rparr>)"
    "check_delayed rd height (s\<lparr>rs_world := w\<rparr>) = (Ok (?d < count, False), s2)"
    "check_sequencer rd height s2 = (Ok (seen, ?n, ?n < seen, False), s3)"
    and q: "quiet s s3" and rep3: "rep (rs_tracker s3) dms ms"
    using iteration_checks [OF rd rep mode tip high delayed [unfolded height] batches [unfolded height]]
    unfolding height window by metis
  have log3: "log_rep R (view (tr_db (rs_tracker s3))) log" using log q by (simp add: quiet_def)
  have more: "?n < seen \<longleftrightarrow> length ms < unat seen" using lens(2) by (simp add: word_less_nat_alt unat_of_nat64)
  have dmore: "?d < count \<longleftrightarrow> length dms < unat count" using lens(1) by (simp add: word_less_nat_alt unat_of_nat64)
  have "length dms \<le> unat count" using delayed by (simp add: agrees_delayed_def)
  then have dnone: "\<not> ?d < count \<Longrightarrow> dl = []" using new(2) dmore by simp
  have dlook: "?d < count \<Longrightarrow> answers (bridge_lookup (delayed_bridge rd) from_block to_block) dl"
    using new(1) dmore by simp
  obtain s4 where fetch_d: "(if ?d < count then fetch_delayed rd from_block to_block else okM 0) s3 =
      (Ok (of_nat (length dl)), s4)"
    and rep4: "rep (rs_tracker s4) (dms @ bodies dmsgs) ms"
    and frame: "\<And>k. stream_key k \<Longrightarrow> view (tr_db (rs_tracker s4)) k = view (tr_db (rs_tracker s3)) k"
    by (rule delayed_phase [OF rd rep3 dlook dnone tuples dlen(1) chain]) blast+
  have log4: "log_rep R (view (tr_db (rs_tracker s4))) log" by (rule log_rep_frame [OF log3 frame])
  let ?win = "win\<lparr>win_from := from_block\<rparr>"
  obtain w5 where fetch_b: "(if ?n < seen then fetch_batches rd ?win to_block seen else okM (0, seen, ?win)) s4 =
      (Ok (0, seen, ?win), s4\<lparr>rs_world := w5\<rparr>)"
  proof (cases "?n < seen")
    case True
    then have "answers (inbox_lookup (sequencer_inbox rd) (win_from ?win) to_block) []" using look more by simp
    then obtain w5 where "on_chain (inbox_lookup (sequencer_inbox rd) (win_from ?win) to_block) s4 =
        (Ok [], s4\<lparr>rs_world := w5\<rparr>)" by (rule answers_on_chain)
    with True that [of w5] show thesis by (simp add: fetch_batches_def run_simps)
  next
    case False
    with that [of "rs_world s4"] show thesis by (simp add: okM_def)
  qed
  let ?s' = "s4\<lparr>rs_world := w5, last_read_batch_count := ?n, last_seen_batch_count := seen\<rparr>"
  have have_msgs: "(of_nat (length dl) :: u64) > 0 \<longleftrightarrow> dl \<noteq> []"
    using dlen(2) by (simp add: word_less_nat_alt unat_of_nat64)
  have missing: "?d < count \<or> ?n < seen" using some more dmore by simp
  have "reader_iteration rd wakes win s =
      (Ok \<lparr>win_from = (if dl = [] then from_block else sat_add to_block 1),
           win_blocks = next_blocks (rd_config rd) (of_nat (length dl)) (win_blocks win)\<rparr>, ?s')"
    using runs missing fetch_d fetch_b have_msgs
    by (cases "?d < count"; cases "?n < seen")
       (simp_all add: reader_iteration_def Let_def bindM_def store_counts_def okM_def window(2) [symmetric])
  moreover have "results_upto (view (tr_db (rs_tracker s))) (view (tr_db (rs_tracker s4))) None"
    using results_upto_frame [OF frame] q by (simp add: quiet_def)
  ultimately show thesis using log4 rep4 that [of ?s'] by simp
qed

text \<open>Going down the batches finds the last one posted at or below a block.\<close>

lemma recent_block_search_eq:
  assumes "rep (rs_tracker s) dms ms" and "n \<le> length ms"
  shows "\<exists>s'. recent_block_search ev b n s =
      (Ok (case filter (\<lambda>m. parent_chain_block m \<le> b) (take n ms) of [] \<Rightarrow> 0 | xs \<Rightarrow> bm_message_count (last xs)), s') \<and>
    quiet s s' \<and> rs_world s' = rs_world s \<and> rep (rs_tracker s') dms ms"
  using assms
proof (induction n arbitrary: s)
  case 0
  then show ?case by (simp add: okM_def quiet_def)
next
  case (Suc n)
  have "length ms < 2 ^ 64" using Suc.prems by (simp add: rep_def inbox_rep_def batches_rep_def)
  then have u: "unat (of_nat n :: u64) = n" using Suc.prems(2) by (simp add: unat_of_nat64)
  then obtain t' where t': "get_batch_metadata ev (of_nat n) (rs_tracker s) = (Ok (ms ! n), t')"
      "tr_db t' = tr_db (rs_tracker s)" "rep t' dms ms"
    using get_batch_metadata_eq [OF Suc.prems(1), of "of_nat n"] Suc.prems(2) by auto
  let ?s = "s\<lparr>rs_tracker := t'\<rparr>"
  have snoc: "take (Suc n) ms = take n ms @ [ms ! n]" using Suc.prems(2) by (simp add: take_Suc_conv_app_nth)
  show ?case
  proof (cases "parent_chain_block (ms ! n) \<le> b")
    case True
    have found: "(case xs @ [x] of [] \<Rightarrow> 0 | ys \<Rightarrow> bm_message_count (last ys)) = bm_message_count x" for xs x
      by (cases xs) simp_all
    from True t' show ?thesis
      by (intro exI [of _ ?s]) (simp add: run_simps on_tracker_eq snoc found quiet_def)
  next
    case False
    obtain s' where s': "recent_block_search ev b n ?s =
        (Ok (case filter (\<lambda>m. parent_chain_block m \<le> b) (take n ms) of [] \<Rightarrow> 0 | xs \<Rightarrow> bm_message_count (last xs)), s')"
        "quiet ?s s'" "rs_world s' = rs_world ?s" "rep (rs_tracker s') dms ms"
      using Suc.IH [of ?s] t'(3) Suc.prems(2) by auto
    from False t' s' show ?thesis
      by (intro exI [of _ s']) (simp add: run_simps on_tracker_eq snoc quiet_def)
  qed
qed

lemma recent_parent_chain_block_to_msg_eq:
  assumes rd: "rd_env rd = ev" and rep: "rep (rs_tracker s) dms ms"
  shows "\<exists>s'. recent_parent_chain_block_to_msg rd b s =
      (Ok (case filter (\<lambda>m. parent_chain_block m \<le> b) ms of [] \<Rightarrow> 0 | xs \<Rightarrow> bm_message_count (last xs)), s') \<and>
    quiet s s' \<and> rs_world s' = rs_world s \<and> rep (rs_tracker s') dms ms"
proof -
  have "length ms < 2 ^ 64" using rep by (simp add: rep_def inbox_rep_def batches_rep_def)
  then have "unat (of_nat (length ms) :: u64) = length ms" by (rule unat_of_nat64)
  with on_tracker_batch_count [OF rep]
  have "recent_parent_chain_block_to_msg rd b s = recent_block_search ev b (length ms) s"
    by (simp add: recent_parent_chain_block_to_msg_def rd bindM_ok)
  then show ?thesis using recent_block_search_eq [OF rep, of "length ms" b] by simp
qed

text \<open>An iteration that meets a batch with blobs fails, and so does every run of the loop through it.\<close>

lemma iteration_blob:
  assumes rd: "rd_env rd = ev" and rep: "rep (rs_tracker s) dms ms"
    and mode: "read_mode (rd_config rd) = ''latest''" and tip: "answers (last_header (l1_reader rd)) tip"
    and high: "sat_add (win_from win) (delay_blocks (rd_config rd) + sat_sub (min_blocks_to_read (rd_config rd)) 1) \<le> tip"
    and height: "height = below_head rd tip"
    and window: "from_block = min (win_from win) height" "to_block = min (sat_add from_block (win_blocks win)) height"
    and delayed: "agrees_delayed rd height (of_nat (length dms)) dms"
    and batches: "agrees_batches rd height seen ms" and missing: "length ms < unat seen"
    and look: "answers (inbox_lookup (sequencer_inbox rd) from_block to_block) (good @ b # rest)"
    and data: "list_all2 (gives rd) good ds" and blob: "unat (data_location b) > 2"
  obtains e s' where "reader_iteration rd wakes win s = (Err e, s')" and "tr_db (rs_tracker s') = tr_db (rs_tracker s)"
    and "rep (rs_tracker s') dms ms"
proof -
  let ?n = "of_nat (length ms) :: u64" let ?d = "of_nat (length dms) :: u64"
  have "length ms < 2 ^ 64" using rep by (simp add: rep_def inbox_rep_def batches_rep_def)
  then have more: "?n < seen" using missing by (simp add: word_less_nat_alt unat_of_nat64)
  obtain w s2 s3 where runs: "await_height rd wakes (win_from win) s = (Ok (height, from_block), s\<lparr>rs_world := w\<rparr>)"
    "check_delayed rd height (s\<lparr>rs_world := w\<rparr>) = (Ok (?d < ?d, False), s2)"
    "check_sequencer rd height s2 = (Ok (seen, ?n, ?n < seen, False), s3)"
    and q: "quiet s s3" and rep3: "rep (rs_tracker s3) dms ms"
    using iteration_checks [OF rd rep mode tip high delayed [unfolded height] batches [unfolded height]]
    unfolding height window by metis
  obtain w4 where look': "on_chain (inbox_lookup (sequencer_inbox rd) from_block to_block) s3 =
      (Ok (good @ b # rest), s3\<lparr>rs_world := w4\<rparr>)"
    by (rule answers_on_chain [OF look])
  obtain e w5 where fill: "fill_batches rd (good @ b # rest) (s3\<lparr>rs_world := w4\<rparr>) =
      (Err e, s3\<lparr>rs_world := w5\<rparr>)"
    using fill_batches_blob [OF data blob, of rest "s3\<lparr>rs_world := w4\<rparr>"] by auto
  have fetch: "fetch_batches rd (win\<lparr>win_from := from_block\<rparr>) to_block seen s3 = (Err e, s3\<lparr>rs_world := w5\<rparr>)"
    using look' fill by (simp add: fetch_batches_def bindM_def or_else_def matchM_def okM_def)
  have "reader_iteration rd wakes win s = (Err e, s3\<lparr>rs_world := w5\<rparr>)"
    using runs more fetch
    by (simp add: reader_iteration_def Let_def bindM_def store_counts_def okM_def window(2) [symmetric])
  moreover have "tr_db (rs_tracker s3) = tr_db (rs_tracker s)" using q by (simp add: quiet_def)
  ultimately show thesis using that [of e "s3\<lparr>rs_world := w5\<rparr>"] rep3 by simp
qed

end

end
