(* ===== verification/Log_Keys.thy ===== *)
theory Log_Keys
  imports Streamer_Correct
begin

text \<open>
  Which keys an append and a reorg of the log write, which they delete, and that they leave all others
  alone, the streamer's own among them: the results of other messages, their metadata, and keys of no message.
\<close>

section \<open>The keys of messages\<close>

definition message_keys :: "u64 \<Rightarrow> bytes set" where
  "message_keys i = {db_key MESSAGE_PREFIX i, db_key BLOCK_HASH_INPUT_FEED_PREFIX i,
     db_key BLOCK_METADATA_INPUT_FEED_PREFIX i, db_key MISSING_BLOCK_METADATA_INPUT_FEED_PREFIX i}"

text \<open>\<open>new_keys first n\<close>: those of \<open>n\<close> messages from \<open>first\<close> on; the result of a message is not one of them.\<close>

fun new_keys :: "u64 \<Rightarrow> nat \<Rightarrow> bytes set" where
  "new_keys i 0 = {}"
| "new_keys i (Suc n) = message_keys i \<union> new_keys (i + 1) n"

definition tracked :: "u64 option \<Rightarrow> u64 \<Rightarrow> bool" where
  "tracked track i \<longleftrightarrow> (case track of None \<Rightarrow> False | Some start \<Rightarrow> start \<le> i)"

text \<open>
  \<open>metadata_rep track first ms m\<close>: a message from \<open>track\<close> on has its block metadata, or a mark that they are
  missing; the others have neither.
\<close>

fun metadata_rep ::
    "u64 option \<Rightarrow> u64 \<Rightarrow> MessageWithMetadataAndBlockInfo list \<Rightarrow> (bytes \<rightharpoonup> bytes) \<Rightarrow> bool" where
  "metadata_rep track i [] m = True"
| "metadata_rep track i (x # xs) m =
     (m (db_key BLOCK_METADATA_INPUT_FEED_PREFIX i) = (if tracked track i then block_metadata x else None) \<and>
      m (db_key MISSING_BLOCK_METADATA_INPUT_FEED_PREFIX i) =
        (if tracked track i \<and> block_metadata x = None then Some [] else None) \<and>
      metadata_rep track (i + 1) xs m)"

text \<open>\<open>dropped n k\<close>: the key belongs to a message from \<open>n\<close> on, under any of the five prefixes.\<close>

definition dropped :: "u64 \<Rightarrow> bytes \<Rightarrow> bool" where
  "dropped n k \<longleftrightarrow> (\<exists>p \<in> {MESSAGE_PREFIX, BLOCK_HASH_INPUT_FEED_PREFIX, BLOCK_METADATA_INPUT_FEED_PREFIX,
     MISSING_BLOCK_METADATA_INPUT_FEED_PREFIX, MESSAGE_RESULT_PREFIX}. in_range p n k)"

lemma wipe_from_dropped: "wipe_from n m k = (if dropped n k then None else m k)"
  by (auto simp: wipe_from_def dropped_def wipe_def)

lemma earlier_not_new:
  "unat i < unat idx \<Longrightarrow> unat idx + n < 2 ^ 64 \<Longrightarrow> db_key [p] i \<notin> new_keys idx n"
proof (induction n arbitrary: idx)
  case (Suc n)
  have next_idx: "unat (idx + 1) = Suc (unat idx)" using Suc.prems by (intro unat_Suc64) simp
  have "i \<noteq> idx" using Suc.prems(1) by auto
  then have "db_key [p] i \<notin> message_keys idx" by (simp add: message_keys_def key_simps)
  with Suc.IH [of "idx + 1"] Suc.prems next_idx show ?case by simp
qed simp

lemma result_not_new: "db_key MESSAGE_RESULT_PREFIX i \<notin> new_keys idx n"
  by (induction n arbitrary: idx) (auto simp: message_keys_def key_simps)

lemma count_not_new: "MESSAGE_COUNT_KEY \<notin> new_keys idx n"
  by (induction n arbitrary: idx) (auto simp: message_keys_def key_simps)

section \<open>Writing\<close>

lemma write_message_other: "k \<notin> message_keys i \<Longrightarrow> apply_ops (write_message R i x [] track) m k = m k"
  by (simp add: write_message_def message_keys_def batch_put_def Let_def split: option.split)

lemma write_loop_Cons:
  "apply_ops (write_message_loop R i (x # xs) [] track) m =
   apply_ops (write_message_loop R (i + 1) xs [] track) (apply_ops (write_message R i x [] track) m)"
  by (simp add: write_message_loop_append [of R "i + 1" xs "write_message R i x [] track"])

lemma write_loop_other:
  "k \<notin> new_keys i (length ms) \<Longrightarrow> apply_ops (write_message_loop R i ms [] track) m k = m k"
proof (induction ms arbitrary: i m)
  case (Cons x ms)
  then show ?case unfolding write_loop_Cons by (simp add: write_message_other)
qed simp

lemma write_message_metadata:
  assumes "m (db_key BLOCK_METADATA_INPUT_FEED_PREFIX i) = None" "m (db_key MISSING_BLOCK_METADATA_INPUT_FEED_PREFIX i) = None"
  shows "metadata_rep track i [x] (apply_ops (write_message R i x [] track) m)"
  using assms
  by (simp add: write_message_def batch_put_def Let_def tracked_def key_simps split: option.split)

lemma write_loop_metadata:
  "unat i + length ms < 2 ^ 64 \<Longrightarrow>
   (\<And>j. unat i \<le> unat j \<Longrightarrow> m (db_key BLOCK_METADATA_INPUT_FEED_PREFIX j) = None \<and>
      m (db_key MISSING_BLOCK_METADATA_INPUT_FEED_PREFIX j) = None) \<Longrightarrow>
   metadata_rep track i ms (apply_ops (write_message_loop R i ms [] track) m)"
proof (induction ms arbitrary: i m)
  case (Cons x ms)
  let ?m = "apply_ops (write_message R i x [] track) m"
  have next_i: "unat (i + 1) = Suc (unat i)" using Cons.prems(1) by (intro unat_Suc64) simp
  have later: "db_key [p] j \<notin> message_keys i" if "unat (i + 1) \<le> unat j" for p j
  proof -
    have "i \<noteq> j" using that next_i by auto
    then show ?thesis by (simp add: message_keys_def key_simps)
  qed
  have "metadata_rep track (i + 1) ms (apply_ops (write_message_loop R (i + 1) ms [] track) ?m)"
    by (rule Cons.IH)
       (use Cons.prems next_i later in \<open>simp_all add: write_message_other prefixes_eval\<close>)
  moreover have "apply_ops (write_message_loop R (i + 1) ms [] track) ?m (db_key [p] i) = ?m (db_key [p] i)" for p
    by (rule write_loop_other [OF earlier_not_new]) (use Cons.prems(1) next_i in simp_all)
  ultimately show ?case
    using write_message_metadata [of m i track x R] Cons.prems(2) [of i]
    unfolding write_loop_Cons by (simp add: prefixes_eval)
qed simp

lemma metadata_rep_count: "metadata_rep track i ms (m(MESSAGE_COUNT_KEY \<mapsto> v)) \<longleftrightarrow> metadata_rep track i ms m"
  by (induction ms arbitrary: i) (simp_all add: key_simps)

context node_store begin

lemma write_messages_keys:
  assumes "log_body R (view s) log" and "length log + length ms < 2 ^ 64" and "unat i = length log"
  shows "metadata_rep track i ms (view (snd (write_messages D R i ms None track s)))"
    and "k \<notin> insert MESSAGE_COUNT_KEY (new_keys i (length ms)) \<Longrightarrow>
      view (snd (write_messages D R i ms None track s)) k = view s k"
proof -
  let ?m = "apply_ops (write_message_loop R i ms [] track) (view s)"
  have v: "view (snd (write_messages D R i ms None track s)) =
      ?m(MESSAGE_COUNT_KEY \<mapsto> enc (rlp_u64 R) (i + of_nat (length ms)))"
    by (simp add: write_messages_def new_batch_def write_eq Let_def set_message_count_def batch_put_def)
  have "metadata_rep track i ms ?m"
    by (rule write_loop_metadata) (use assms in \<open>simp_all add: log_body_def\<close>)
  then show "metadata_rep track i ms (view (snd (write_messages D R i ms None track s)))"
    unfolding v metadata_rep_count .
  show "view (snd (write_messages D R i ms None track s)) k = view s k"
    if "k \<notin> insert MESSAGE_COUNT_KEY (new_keys i (length ms))"
    using that write_loop_other [of k i ms] unfolding v by simp
qed

lemma append_keys:
  assumes rep: "log_rep R (view s) log" and first: "unat first = length log"
    and len: "length log + length ms < 2 ^ 64" and ok: "reads_ok (last_read log) (reads_of ms)"
  obtains s' where "add_messages_and_end_batch_impl D R first confirmed ms track s = (Ok (), s')"
    and "log_rep R (view s') (log @ map entry ms)" and "metadata_rep track first ms (view s')"
    and "\<And>k. k \<notin> insert MESSAGE_COUNT_KEY (new_keys first (length ms)) \<Longrightarrow> view s' k = view s k"
proof (cases "ms = []")
  case True
  with rep first that [of s] show thesis by (simp add: append_eq [OF rep])
next
  case False
  have body: "log_body R (view s) log" using rep by (simp add: log_rep_def)
  have "check_delayed_reads (last_read log) first ms = Ok ()"
    using ok by (simp add: check_delayed_reads_Ok)
  then have run: "add_messages_and_end_batch_impl D R first confirmed ms track s = write_messages D R first ms None track s"
    using first False by (simp add: append_eq [OF rep])
  obtain s' where s': "write_messages D R first ms None track s = (Ok (), s')" "log_rep R (view s') (log @ map entry ms)"
    by (rule write_messages_eq [OF body len first])
  show thesis
    using that [of s'] run s' write_messages_keys [OF body len first, where track = track] by simp
qed

lemma reorg_keys:
  assumes rep: "log_rep R (view s) log" and n: "n \<noteq> 0" "unat n \<le> length log"
    and len: "unat n + length ms < 2 ^ 64"
  obtains s' where "add_messages_and_reorg D R n ms track s = (Ok (), s')"
    and "log_rep R (view s') (take (unat n) log @ map entry ms)" and "metadata_rep track n ms (view s')"
    and "\<And>k. k \<notin> insert MESSAGE_COUNT_KEY (new_keys n (length ms)) \<Longrightarrow>
      view s' k = (if dropped n k then None else view s k)"
proof -
  let ?log = "take (unat n) log"
  obtain s1 where v1: "view s1 = (wipe_from n (view s))(MESSAGE_COUNT_KEY \<mapsto> enc (rlp_u64 R) n)"
    and run: "add_messages_and_reorg D R n ms track s =
      (if ms \<noteq> [] then write_messages D R n ms None track s1 else (Ok (), s1))"
    by (rule reorg_deletes [OF n(1)])
  have "log_body R (view s) log" using rep by (simp add: log_rep_def)
  then have body: "log_body R (wipe_from n (view s)) ?log" by (rule log_body_wipe_from [OF _ n(2)])
  have len_log: "length ?log = unat n" using n by simp
  have of_n: "of_nat (length ?log) = n" unfolding len_log by simp
  have rep1: "log_rep R (view s1) ?log"
    using log_rep_count [OF body] unfolding v1 of_n .
  then have body1: "log_body R (view s1) ?log" by (simp add: log_rep_def)
  have gone: "k \<noteq> MESSAGE_COUNT_KEY \<Longrightarrow> view s1 k = (if dropped n k then None else view s k)" for k
    by (simp add: v1 wipe_from_dropped)
  show thesis
  proof (cases "ms = []")
    case True
    with run rep1 gone that [of s1] show thesis by simp
  next
    case False
    have fits: "length ?log + length ms < 2 ^ 64" "unat n = length ?log" using len len_log by simp_all
    obtain s' where s': "write_messages D R n ms None track s1 = (Ok (), s')" "log_rep R (view s') (?log @ map entry ms)"
      by (rule write_messages_eq [OF body1 fits])
    show thesis
      using that [of s'] run s' False gone write_messages_keys [OF body1 fits, where track = track] by simp
  qed
qed

end

end
