(* ===== verification/Reference.thy ===== *)
theory Reference
  imports Db Message "HOL-Library.AList"
begin

text \<open>
  Instances of the contracts that stand for code outside the repository: a codec for the crate
  \<open>alloy_rlp\<close> (32-byte strings and list markers as RLP has them, every other length written in
  unary so that there is no limit on it) and an association list for the store \<open>sled\<close>.  They
  show that the contracts can hold and are the concrete inputs of the witnesses; nothing else
  rests on them.
\<close>

section \<open>A codec\<close>

definition tagged :: "u8 \<Rightarrow> nat \<Rightarrow> ('a \<Rightarrow> bytes) \<Rightarrow> (bytes \<Rightarrow> 'a) \<Rightarrow> 'a codec" where
  "tagged t n f g =
     \<lparr>enc = (\<lambda>x. t # f x), enc_len = (\<lambda>x. n + 1),
      dec = (\<lambda>buf. case buf of
          b # rest \<Rightarrow> (if b = t \<and> n \<le> length rest then Ok (g (take n rest), drop n rest)
                       else Err (Ext ''unexpected string''))
        | [] \<Rightarrow> Err (Ext ''input too short''))\<rparr>"

lemma tagged_codec:
  assumes "\<And>x. length (f x) = n" and "\<And>x. g (f x) = x"
  shows "codec (tagged t n f g)"
  by standard (simp_all add: tagged_def assms split: list.split)

fun unary :: "bytes \<Rightarrow> nat \<times> bytes" where
  "unary (b # bs) = (if b = 1 then (case unary bs of (n, rest) \<Rightarrow> (Suc n, rest)) else (0, b # bs))"
| "unary [] = (0, [])"

lemma unary_replicate: "b \<noteq> 1 \<Longrightarrow> unary (replicate n 1 @ b # rest) = (n, b # rest)"
  by (induction n) auto

definition ref_bytes :: "bytes codec" where
  "ref_bytes =
     \<lparr>enc = (\<lambda>x. replicate (length x) 1 @ 0 # x), enc_len = (\<lambda>x. 2 * length x + 1),
      dec = (\<lambda>buf. case unary buf of
          (n, b # rest) \<Rightarrow> (if n \<le> length rest then Ok (take n rest, drop n rest)
                            else Err (Ext ''input too short''))
        | (n, []) \<Rightarrow> Err (Ext ''input too short''))\<rparr>"

lemma ref_bytes_codec: "codec ref_bytes"
  by standard (auto simp: ref_bytes_def unary_replicate split: prod.split list.split)

definition ref_header_enc :: "bool \<Rightarrow> nat \<Rightarrow> bytes" where
  "ref_header_enc l n = replicate n 1 @ [if l then 0xc0 else 0x80]"

definition ref_header_dec :: "bytes \<Rightarrow> ((bool \<times> nat) \<times> bytes) result" where
  "ref_header_dec buf =
     (case unary buf of
        (n, b # rest) \<Rightarrow> (if n \<le> length rest then Ok ((b = 0xc0, n), rest)
                          else Err (Ext ''input too short''))
      | (n, []) \<Rightarrow> Err (Ext ''input too short''))"

definition ref_rlp :: rlp where
  "ref_rlp =
     \<lparr>rlp_u8 = tagged 0x81 1 (\<lambda>x. [x]) hd, rlp_u64 = tagged 0x88 8 be64 un_be64,
      rlp_address = tagged 0x94 20 be160 un_be160, rlp_b256 = tagged 0xa0 32 be256 un_be256,
      rlp_u256 = tagged 0xa0 32 be256 un_be256, rlp_bytes = ref_bytes,
      rlp_header_enc = ref_header_enc, rlp_header_len = (\<lambda>l n. n + 1),
      rlp_header_dec = ref_header_dec\<rparr>"

interpretation ref: alloy_rlp ref_rlp
proof (rule alloy_rlp.intro)
  fix n :: nat and rest :: bytes and buf l h
  show "codec (rlp_u8 ref_rlp)" "codec (rlp_u64 ref_rlp)" "codec (rlp_address ref_rlp)"
    "codec (rlp_b256 ref_rlp)" "codec (rlp_u256 ref_rlp)" "codec (rlp_bytes ref_rlp)"
    by (simp_all add: ref_rlp_def tagged_codec ref_bytes_codec)
  show "n \<le> length rest \<Longrightarrow>
      rlp_header_dec ref_rlp (rlp_header_enc ref_rlp True n @ rest) = Ok ((True, n), rest)"
    by (simp add: ref_rlp_def ref_header_enc_def ref_header_dec_def unary_replicate)
  show "rlp_header_dec ref_rlp buf = Ok ((l, n), rest) \<Longrightarrow> n \<le> length rest"
    "returns (rlp_header_dec ref_rlp buf)"
    by (auto simp: ref_rlp_def ref_header_dec_def split: prod.splits list.splits if_splits)
  show "rlp_header_len ref_rlp l n = length (rlp_header_enc ref_rlp l n)"
    "rlp_header_enc ref_rlp l n \<noteq> []" "enc (rlp_b256 ref_rlp) h = 0xa0 # be256 h"
    by (simp_all add: ref_rlp_def ref_header_enc_def tagged_def)
qed

section \<open>A store\<close>

type_synonym ref_tree = "(bytes \<times> bytes) list"

definition ref_range :: "ref_tree \<Rightarrow> bytes \<Rightarrow> (error + bytes \<times> bytes) list" where
  "ref_range t lo = map Inr (sort_key fst (filter (\<lambda>e. lo \<le> fst e) (AList.clearjunk t)))"

definition ref_sled :: "ref_tree sled" where
  "ref_sled =
     \<lparr>sled_insert = (\<lambda>k v t. (Ok (), AList.update k v t)),
      sled_remove = (\<lambda>k t. (Ok (), AList.delete k t)),
      sled_flush = (\<lambda>t. (Ok (), t)),
      sled_contains_key = (\<lambda>t k. Ok (map_of t k \<noteq> None)),
      sled_get = (\<lambda>t k. Ok (map_of t k)),
      sled_range = ref_range\<rparr>"

lemma sort_key_strict: "distinct (map f xs) \<Longrightarrow> sorted_wrt (<) (map f (sort_key f xs))"
  for f :: "'a \<Rightarrow> 'b::linorder"
  by (simp add: strict_sorted_iff distinct_map flip: sorted_wrt_map)

lemma ref_range:
  "\<exists>es. ref_range t lo = map Inr es \<and> sorted_wrt (<) (map fst es) \<and>
     set es = {(k, v). map_of t k = Some v \<and> lo \<le> k}"
proof (intro exI conjI)
  let ?es = "filter (\<lambda>e. lo \<le> fst e) (AList.clearjunk t)"
  show "ref_range t lo = map Inr (sort_key fst ?es)" by (simp add: ref_range_def)
  have "distinct (map fst ?es)" using distinct_clearjunk [of t] by (rule distinct_map_filter)
  then show "sorted_wrt (<) (map fst (sort_key fst ?es))" by (rule sort_key_strict)
  have "(k, v) \<in> set (AList.clearjunk t) \<longleftrightarrow> map_of t k = Some v" for k v
    by (metis distinct_clearjunk map_of_clearjunk map_of_eq_Some_iff)
  then show "set (sort_key fst ?es) = {(k, v). map_of t k = Some v \<and> lo \<le> k}" by auto
qed

interpretation ref: sled_store ref_sled map_of
  by standard
     (simp_all add: ref_sled_def update_conv' delete_conv' ref_range)

abbreviation ref_db :: "ref_tree database" where
  "ref_db \<equiv> sled_database ref_sled"

end
