(* ===== verification/Wire_Correct.thy ===== *)
theory Wire_Correct
  imports Reference
begin

text \<open>
  The properties of the formats: the legacy layout and the RLP codecs of messages, the body the
  delayed accumulator hashes, the init message, the keys of the database and what the store
  does with them.  Each has a witness at a concrete input.
\<close>

section \<open>Concrete inputs\<close>

definition sample_header :: L1IncomingMessageHeader where
  "sample_header = \<lparr>kind = 3, poster = 0xbeef, block_number = 17, timestamp = 1700000000,
     request_id = Some 5, l1_base_fee = 7\<rparr>"

definition sample_message :: L1IncomingMessage where
  "sample_message = \<lparr>header = sample_header, l2msg = [1, 2, 3], batch_gas_cost = Some 9\<rparr>"

definition sample_mwm :: MessageWithMetadata where
  "sample_mwm = \<lparr>message = sample_message, delayed_messages_read = 1\<rparr>"

definition sample_legacy :: bytes where
  "sample_legacy = [3] @ replicate 12 0 @ be160 0xbeef @ be64 17 @ be64 1700000000 @ be256 5 @ be256 7 @ [1, 2, 3]"

lemma sample_legacy: "serialize_incoming_l1_message_legacy sample_message = Ok sample_legacy"
  by (simp add: serialize_incoming_l1_message_legacy_def sample_message_def sample_header_def
      sample_legacy_def)

section \<open>The legacy layout\<close>

text \<open>C31: what is serialized in the legacy layout is parsed back, without the gas cost, which the
  layout has no room for.\<close>

theorem legacy_roundtrip:
  "serialize_incoming_l1_message_legacy msg = Ok bs \<Longrightarrow>
   parse_incoming_l1_message_legacy bs = Ok (msg\<lparr>batch_gas_cost := None\<rparr>)"
  by (rule parse_serialize_legacy)

theorem legacy_roundtrip_witness:
  "parse_incoming_l1_message_legacy sample_legacy = Ok (sample_message\<lparr>batch_gas_cost := None\<rparr>)"
  by (rule legacy_roundtrip [OF sample_legacy])

text \<open>The legacy parser accepts exactly the layout: one byte of kind, 32 bytes with the poster
  at the end, two numbers of 8 bytes, two of 32, then the payload; the request id is never
  missing, and the 12 bytes before the poster are ignored.\<close>

theorem legacy_parser_accepts:
  "parse_incoming_l1_message_legacy bs = Ok msg \<longleftrightarrow>
   batch_gas_cost msg = None \<and>
   (\<exists>pad req. length pad = 12 \<and> request_id (header msg) = Some req \<and>
     bs = kind (header msg) # pad @ be160 (poster (header msg)) @ be64 (block_number (header msg))
       @ be64 (timestamp (header msg)) @ be256 req @ be256 (l1_base_fee (header msg)) @ l2msg msg)"
  by (rule parse_legacy_Ok_iff)

section \<open>The RLP codecs\<close>

context alloy_rlp begin

lemma mwm_roundtrip:
  "MessageWithMetadata_decode R (MessageWithMetadata_encode R m @ rest) = Ok (m, rest)"
  "MessageWithMetadata_length R m = length (MessageWithMetadata_encode R m)"
  using mwm.dec_enc [of m rest] mwm.enc_len [of m] by simp_all

lemma result_roundtrip:
  "MessageResult_decode R (MessageResult_encode R r @ rest) = Ok (r, rest)"
  "BlockHashDbValue_decode R (BlockHashDbValue_encode R b @ rest) = Ok (b, rest)"
  using result.dec_enc [of r rest] bh.dec_enc [of b rest] by simp_all

lemma decoders_return:
  "returns (L1IncomingMessageHeader_decode R buf)" "returns (L1IncomingMessage_decode R buf)"
  "returns (MessageWithMetadata_decode R buf)" "returns (BlockHashDbValue_decode R buf)"
  "returns (MessageResult_decode R buf)"
  using header.dec_returns [of buf] message.dec_returns [of buf] mwm.dec_returns [of buf]
    bh.dec_returns [of buf] result.dec_returns [of buf] by simp_all

end

text \<open>C32: a stored message is decoded to what was encoded and the decoder stops where the encoding
  ends; the announced length is the length of the encoding.\<close>

theorem message_codec_roundtrip:
  "alloy_rlp R \<Longrightarrow>
   MessageWithMetadata_decode R (MessageWithMetadata_encode R m @ rest) = Ok (m, rest) \<and>
   MessageWithMetadata_length R m = length (MessageWithMetadata_encode R m)"
  by (simp add: alloy_rlp.mwm_roundtrip)

theorem message_codec_roundtrip_witness:
  "MessageWithMetadata_decode ref_rlp (MessageWithMetadata_encode ref_rlp sample_mwm @ [1, 2]) =
     Ok (sample_mwm, [1, 2])"
  using message_codec_roundtrip [OF ref.alloy_rlp_axioms] by blast

text \<open>The records stored about a block, its result and its announced hash, are decoded to what was
  encoded, also when no hash was announced.\<close>

theorem result_codec_roundtrip:
  "alloy_rlp R \<Longrightarrow>
   MessageResult_decode R (MessageResult_encode R r @ rest) = Ok (r, rest) \<and>
   BlockHashDbValue_decode R (BlockHashDbValue_encode R b @ rest) = Ok (b, rest)"
  by (simp add: alloy_rlp.result_roundtrip)

theorem result_codec_roundtrip_witness:
  "BlockHashDbValue_decode ref_rlp (BlockHashDbValue_encode ref_rlp \<lparr>bh_block_hash = None\<rparr> @ [7]) =
     Ok (\<lparr>bh_block_hash = None\<rparr>, [7])"
  using result_codec_roundtrip [OF ref.alloy_rlp_axioms] by blast

text \<open>No bytes make a decoder of the node panic: every slice it takes is in range.\<close>

theorem decoders_total:
  "alloy_rlp R \<Longrightarrow>
   returns (L1IncomingMessageHeader_decode R buf) \<and> returns (L1IncomingMessage_decode R buf) \<and>
   returns (MessageWithMetadata_decode R buf) \<and> returns (BlockHashDbValue_decode R buf) \<and>
   returns (MessageResult_decode R buf)"
  by (simp add: alloy_rlp.decoders_return)

theorem decoders_total_witness: "returns (MessageWithMetadata_decode ref_rlp [1, 0xc0, 0x81])"
  using decoders_total [OF ref.alloy_rlp_axioms] by blast

section \<open>The body of a delayed message\<close>

text \<open>The bytes the delayed accumulator commits to determine the whole header of a message and
  the hash of its payload; a request id can be neither dropped nor added unnoticed.\<close>

theorem delayed_body_commits:
  "delayed_message_body K m = delayed_message_body K m' \<Longrightarrow>
   header m = header m' \<and> K (l2msg m) = K (l2msg m')"
  by (rule delayed_message_body_inj)

theorem delayed_body_commits_witness:
  "header sample_message = header (sample_message\<lparr>batch_gas_cost := None\<rparr>)"
proof -
  have "delayed_message_body (\<lambda>_. 0) sample_message =
      delayed_message_body (\<lambda>_. 0) (sample_message\<lparr>batch_gas_cost := None\<rparr>)"
    by (simp add: delayed_message_body_def)
  from delayed_body_commits [OF this] show ?thesis by blast
qed

section \<open>The init message\<close>

lemma be256_split: "32 \<le> length data \<Longrightarrow> data = be256 (un_be256 (take 32 data)) @ drop 32 data"
  by (simp add: be256_un_be256)

lemma parse_init_versioned:
  assumes "kind (header msg) = 11" and "l2msg msg = be256 cid @ v # rest"
  shows "parse_init_message msg =
    (let conf = (\<lambda>c. if c = [] then None else Some c) in
     if v = 1 then
       (if length rest < 32 then Err (Bail ''init message v1 too short for basefee'' [])
        else Ok \<lparr>chain_id = cid, initial_l1_base_fee = un_be256 (take 32 rest),
                 chain_config_json = conf (drop 32 rest)\<rparr>)
     else if v = 0 then
       Ok \<lparr>chain_id = cid, initial_l1_base_fee = 100000000, chain_config_json = conf rest\<rparr>
     else Err (Bail ''unknown init message version {}'' [unat v]))"
proof -
  have "drop 33 (be256 cid @ x # rest) = rest" "drop 65 (be256 cid @ x # rest) = drop 32 rest"
    "(be256 cid @ x # rest) ! 32 = x" for x
    by (simp_all add: nth_append)
  with assms show ?thesis by (simp add: parse_init_message_def Let_def del: drop_append)
qed

text \<open>An init message is accepted exactly when its kind is 11 and its payload is a chain id,
  alone, or followed by version 0 and a chain configuration, or by version 1, a base fee and a
  configuration; without a base fee the default of 0.1 gwei holds, an empty configuration is none.\<close>

theorem init_message_accepts:
  "parse_init_message msg = Ok p \<longleftrightarrow>
   kind (header msg) = 11 \<and>
   (\<exists>conf. chain_config_json p = (if conf = [] then None else Some conf) \<and>
     (l2msg msg = be256 (chain_id p) \<and> conf = [] \<and> initial_l1_base_fee p = 100000000 \<or>
      l2msg msg = be256 (chain_id p) @ [0] @ conf \<and> initial_l1_base_fee p = 100000000 \<or>
      l2msg msg = be256 (chain_id p) @ [1] @ be256 (initial_l1_base_fee p) @ conf))" (is "?L \<longleftrightarrow> ?R")
proof
  assume ?R
  then obtain conf where k: "kind (header msg) = 11"
    and conf: "chain_config_json p = (if conf = [] then None else Some conf)"
    and "l2msg msg = be256 (chain_id p) \<and> conf = [] \<and> initial_l1_base_fee p = 100000000 \<or>
      l2msg msg = be256 (chain_id p) @ [0] @ conf \<and> initial_l1_base_fee p = 100000000 \<or>
      l2msg msg = be256 (chain_id p) @ [1] @ be256 (initial_l1_base_fee p) @ conf"
    by blast
  then consider (bare) "l2msg msg = be256 (chain_id p)" "conf = []" "initial_l1_base_fee p = 100000000"
    | (v0) "l2msg msg = be256 (chain_id p) @ 0 # conf" "initial_l1_base_fee p = 100000000"
    | (v1) "l2msg msg = be256 (chain_id p) @ 1 # be256 (initial_l1_base_fee p) @ conf"
    by auto
  then show ?L
  proof cases
    case bare
    with k conf show ?thesis by (simp add: parse_init_message_def Let_def)
  next
    case v0
    with conf parse_init_versioned [OF k v0(1)] show ?thesis by simp
  next
    case v1
    with conf parse_init_versioned [OF k v1] show ?thesis by simp
  qed
next
  let ?d = "l2msg msg"
  assume L: ?L
  then have k: "kind (header msg) = 11" by (simp add: parse_init_message_def split: if_splits)
  have "32 \<le> length ?d"
    using L k by (auto simp: parse_init_message_def Let_def split: if_splits)
  then have d: "?d = be256 (un_be256 (take 32 ?d)) @ drop 32 ?d" by (rule be256_split)
  show ?R
  proof (cases "drop 32 ?d")
    case Nil
    with \<open>32 \<le> length ?d\<close> have "length ?d = 32" by simp
    then have "take 32 ?d = ?d" "p = \<lparr>chain_id = un_be256 (take 32 ?d), initial_l1_base_fee = 100000000,
        chain_config_json = None\<rparr>"
      using L k by (auto simp: parse_init_message_def Let_def)
    with k \<open>length ?d = 32\<close> show ?thesis by (simp add: be256_un_be256)
  next
    case (Cons v rest)
    define cid where "cid = un_be256 (take 32 ?d)"
    have d: "?d = be256 cid @ v # rest" using d unfolding Cons cid_def .
    note parse = parse_init_versioned [OF k d]
    consider "v = 0" | "v = 1" "32 \<le> length rest"
      using L unfolding parse by (auto simp: Let_def split: if_splits)
    then show ?thesis
    proof cases
      case 1
      from L have "p = \<lparr>chain_id = cid, initial_l1_base_fee = 100000000,
          chain_config_json = (if rest = [] then None else Some rest)\<rparr>"
        unfolding parse using 1 by (simp add: Let_def)
      with d k 1 show ?thesis by (intro conjI exI [of _ rest]) simp_all
    next
      case 2
      obtain fee conf where rest: "rest = be256 fee @ conf" using be256_split [OF 2(2)] by blast
      from L have "p = \<lparr>chain_id = cid, initial_l1_base_fee = fee,
          chain_config_json = (if conf = [] then None else Some conf)\<rparr>"
        unfolding parse using 2 by (simp add: rest Let_def)
      with d k 2 rest show ?thesis by (intro conjI exI [of _ conf]) simp_all
    qed
  qed
qed

section \<open>Keys\<close>

text \<open>Within one prefix, keys are ordered in the database as their indices are; keys of different
  prefixes differ; and a key never coincides with a counter.\<close>

theorem keys_ordered:
  "(db_key p i < db_key p j \<longleftrightarrow> i < j) \<and> (db_key [a] i = db_key [b] j \<longleftrightarrow> a = b \<and> i = j) \<and>
   db_key MESSAGE_PREFIX i \<notin> {MESSAGE_COUNT_KEY, DELAYED_MESSAGE_COUNT_KEY, SEQUENCER_BATCH_COUNT_KEY} \<and>
   db_key RLP_DELAYED_MESSAGE_PREFIX i \<notin>
     {MESSAGE_COUNT_KEY, DELAYED_MESSAGE_COUNT_KEY, SEQUENCER_BATCH_COUNT_KEY} \<and>
   db_key SEQUENCER_BATCH_META_PREFIX i \<notin>
     {MESSAGE_COUNT_KEY, DELAYED_MESSAGE_COUNT_KEY, SEQUENCER_BATCH_COUNT_KEY}"
  by (simp add: key_simps) (simp add: db_key_def uint64_to_key_def append_less_append_iff be64_less_iff)

section \<open>The store\<close>

context sled_store begin

lemma scan_exact:
  "\<exists>es. db_scan (sled_database S) t p (uint64_to_key n) = (es, None) \<and>
     set es = {(k, v). view t k = Some v \<and> in_range p n k} \<and> sorted_wrt (<) (map fst es)"
  using scan_ok [of t p "uint64_to_key n"] scan_entries [of t p "uint64_to_key n"]
    scan_ascending [of t p "uint64_to_key n"]
  by (cases "db_scan (sled_database S) t p (uint64_to_key n)") (auto simp: in_range_def)

end

text \<open>C30: a scan of the sled store visits exactly the entries of the prefix from the index on, in
  ascending order, and ends without an error, although the iterator stops at the first key
  that lacks the prefix.\<close>

theorem sled_scan_exact:
  "sled_store S view \<Longrightarrow>
   \<exists>es. db_scan (sled_database S) t p (uint64_to_key n) = (es, None) \<and>
     set es = {(k, v). view t k = Some v \<and> in_range p n k} \<and> sorted_wrt (<) (map fst es)"
  by (rule sled_store.scan_exact)

theorem sled_scan_exact_witness:
  "\<exists>es. db_scan ref_db [(db_key [1] 0, [7]), (db_key [2] 0, [8])] [1] (uint64_to_key 0) = (es, None) \<and>
     set es = {(k, v). map_of [(db_key [1] 0, [7]), (db_key [2] 0, [8])] k = Some v \<and> in_range [1] 0 k} \<and>
     sorted_wrt (<) (map fst es)"
  by (rule sled_scan_exact [OF ref.sled_store_axioms])

text \<open>Writing a batch succeeds and performs its puts and deletes in the order they were queued.\<close>

theorem sled_batch_in_order:
  "sled_store S view \<Longrightarrow>
   fst (sled_batch_write S ops t) = Ok () \<and> view (snd (sled_batch_write S ops t)) = apply_ops ops (view t)"
  by (rule sled_store.batch_write_view)

theorem sled_batch_in_order_witness:
  "map_of (snd (sled_batch_write ref_sled [Put [1] [7], Del [1], Put [2] [8]] [])) = [[2] \<mapsto> [8]]"
  using sled_batch_in_order [OF ref.sled_store_axioms, of "[Put [1] [7], Del [1], Put [2] [8]]" "[]"]
  by auto

end
