(* ===== verification/Streamer_Props.thy ===== *)
theory Streamer_Props
  imports Engine_Correct Log_Keys Wire_Correct
begin

text \<open>
  The properties of the streamer and of the engine adapter, each with a witness on a small
  database.  They are stated over a database that meets the contract \<open>database\<close>, as the
  sled implementation does.
\<close>

section \<open>A small database\<close>

definition empty_log :: ref_tree where
  "empty_log = [(MESSAGE_COUNT_KEY, enc (rlp_u64 ref_rlp) 0)]"

definition info :: "MessageWithMetadata \<Rightarrow> MessageWithMetadataAndBlockInfo" where
  "info m = \<lparr>message_with_meta = m, block_hash = Some 4, block_metadata = None\<rparr>"

definition sample_msgs :: "MessageWithMetadataAndBlockInfo list" where
  "sample_msgs = [info sample_mwm, info (sample_mwm\<lparr>delayed_messages_read := 2\<rparr>)]"

lemma ref_node: "node_store ref_rlp ref_db map_of"
  by (simp add: node_store_def ref.alloy_rlp_axioms ref.database_axioms)

lemma empty_log_rep: "log_rep ref_rlp (map_of empty_log) []"
  by (simp add: log_rep_def log_body_def empty_log_def key_simps)

definition two_messages :: ref_tree where
  "two_messages =
     [(MESSAGE_COUNT_KEY, enc (rlp_u64 ref_rlp) 2),
      (db_key MESSAGE_PREFIX 0, enc (mwm_codec ref_rlp) sample_mwm),
      (db_key BLOCK_HASH_INPUT_FEED_PREFIX 0, enc (bh_codec ref_rlp) \<lparr>bh_block_hash = Some 4\<rparr>),
      (db_key MESSAGE_PREFIX 1, enc (mwm_codec ref_rlp) (sample_mwm\<lparr>delayed_messages_read := 2\<rparr>)),
      (db_key BLOCK_HASH_INPUT_FEED_PREFIX 1, enc (bh_codec ref_rlp) \<lparr>bh_block_hash = Some 4\<rparr>)]"

lemma unat_less_2: "unat (i :: u64) < Suc (Suc 0) \<longleftrightarrow> i = 0 \<or> i = 1"
  by (auto simp: less_Suc_eq word_unat_eq_iff)

lemma two_messages_rep: "log_rep ref_rlp (map_of two_messages) (map entry sample_msgs)"
  by (auto simp: log_rep_def log_body_def two_messages_def sample_msgs_def info_def entry_def key_simps
      unat_less_2 not_less_eq_eq)

lemma two_messages_no_results: "results_rep ref_rlp (map_of two_messages) []"
  by (simp add: results_rep_def two_messages_def key_simps)

definition sample_engine :: "unit RethExecEngine" where
  "sample_engine = \<lparr>beacon_engine_handle = None, payload_builder_handle = None, genesis_hash = 1\<rparr>"

definition sample_state :: "unit engine_state" where
  "sample_state = \<lparr>last_timestamp = 5, world = ()\<rparr>"

section \<open>Appending and dropping messages\<close>

text \<open>C11: an append at the message counter whose messages read at most one delayed message each
  succeeds and makes the stored log the old one followed by the new messages, with the block metadata of those
  to be tracked, or a mark where they have none; every other key of the database keeps its value, those of
  older messages and all results included, so that no new message has a result.\<close>

theorem append_extends_log:
  assumes "node_store R D view" and "log_rep R (view s) log" and "unat first = length log"
    and "length log + length ms < 2 ^ 64" and "reads_ok (last_read log) (reads_of ms)"
  shows "\<exists>s'. add_messages_and_end_batch_impl D R first confirmed ms track s = (Ok (), s') \<and>
    log_rep R (view s') (log @ map entry ms) \<and> metadata_rep track first ms (view s') \<and>
    (\<forall>k. k \<notin> insert MESSAGE_COUNT_KEY (new_keys first (length ms)) \<longrightarrow> view s' k = view s k)"
  by (rule node_store.append_keys [OF assms, of confirmed track]) blast

theorem append_extends_log_witness:
  "\<exists>s'. add_messages_and_end_batch_impl ref_db ref_rlp 0 True sample_msgs (Some 1) empty_log = (Ok (), s') \<and>
    log_rep ref_rlp (map_of s') (map entry sample_msgs) \<and>
    map_of s' (db_key MISSING_BLOCK_METADATA_INPUT_FEED_PREFIX 0) = None \<and>
    map_of s' (db_key MISSING_BLOCK_METADATA_INPUT_FEED_PREFIX 1) = Some [] \<and>
    map_of s' (db_key MESSAGE_RESULT_PREFIX 0) = None"
proof -
  have none: "map_of empty_log (db_key MESSAGE_RESULT_PREFIX 0) = None" by (simp add: empty_log_def key_simps)
  obtain s' where "add_messages_and_end_batch_impl ref_db ref_rlp 0 True sample_msgs (Some 1) empty_log = (Ok (), s')"
    and "log_rep ref_rlp (map_of s') ([] @ map entry sample_msgs)" and "metadata_rep (Some 1) 0 sample_msgs (map_of s')"
    and keys: "\<forall>k. k \<notin> insert MESSAGE_COUNT_KEY (new_keys 0 (length sample_msgs)) \<longrightarrow> map_of s' k = map_of empty_log k"
    using append_extends_log [OF ref_node empty_log_rep, of 0 sample_msgs True "Some 1"]
    by (auto simp: sample_msgs_def info_def sample_mwm_def last_read_def)
  moreover have "db_key MESSAGE_RESULT_PREFIX 0 \<notin> insert MESSAGE_COUNT_KEY (new_keys 0 (length sample_msgs))"
    using result_not_new by (simp add: key_simps del: new_keys.simps)
  with keys none have "map_of s' (db_key MESSAGE_RESULT_PREFIX 0) = None" by metis
  ultimately show ?thesis
    by (intro exI [of _ s']) (simp add: sample_msgs_def info_def tracked_def)
qed

text \<open>An append that does not start at the counter, or in which a message reads two or more
  delayed messages beyond the one before it, is refused and changes nothing.\<close>

theorem append_refused:
  assumes "node_store R D view" and "log_rep R (view s) log"
    and "unat first \<noteq> length log \<or> \<not> reads_ok (last_read log) (reads_of ms)"
  shows "\<exists>e. add_messages_and_end_batch_impl D R first confirmed ms track s = (Err e, s)"
proof -
  have "\<not> reads_ok (last_read log) (reads_of ms) \<Longrightarrow> \<exists>e. check_delayed_reads (last_read log) first ms = Err e"
    using check_delayed_reads_result check_delayed_reads_Ok by metis
  with assms(3) show ?thesis by (auto simp: node_store.append_eq [OF assms(1,2)])
qed

theorem append_refused_witness:
  "\<exists>e. add_messages_and_end_batch_impl ref_db ref_rlp 1 True sample_msgs None empty_log = (Err e, empty_log)"
  by (rule append_refused [OF ref_node empty_log_rep]) simp

text \<open>C10: a reorg to a message that is stored keeps the messages before it, drops everything recorded
  of the ones from it on, results, block hashes and metadata included, and appends the new ones, with their
  metadata and without results; every other key of the database keeps its value, the results and metadata of
  the messages before it included.\<close>

theorem reorg_truncates_log:
  assumes "node_store R D view" and "log_rep R (view s) log" and "n \<noteq> 0" and "unat n \<le> length log"
    and "unat n + length ms < 2 ^ 64"
  shows "\<exists>s'. add_messages_and_reorg D R n ms track s = (Ok (), s') \<and>
    log_rep R (view s') (take (unat n) log @ map entry ms) \<and> metadata_rep track n ms (view s') \<and>
    (\<forall>i. view s' (db_key MESSAGE_RESULT_PREFIX i) =
      (if n \<le> i then None else view s (db_key MESSAGE_RESULT_PREFIX i))) \<and>
    (\<forall>k. k \<notin> insert MESSAGE_COUNT_KEY (new_keys n (length ms)) \<longrightarrow>
      view s' k = (if dropped n k then None else view s k))"
proof -
  obtain s' where s': "add_messages_and_reorg D R n ms track s = (Ok (), s')"
    "log_rep R (view s') (take (unat n) log @ map entry ms)" "metadata_rep track n ms (view s')"
    and keys: "\<And>k. k \<notin> insert MESSAGE_COUNT_KEY (new_keys n (length ms)) \<Longrightarrow>
      view s' k = (if dropped n k then None else view s k)"
    by (rule node_store.reorg_keys [OF assms, of track]) blast
  have "view s' (db_key MESSAGE_RESULT_PREFIX i) = (if n \<le> i then None else view s (db_key MESSAGE_RESULT_PREFIX i))" for i
  proof -
    have "db_key MESSAGE_RESULT_PREFIX i \<noteq> MESSAGE_COUNT_KEY" "dropped n (db_key MESSAGE_RESULT_PREFIX i) \<longleftrightarrow> n \<le> i"
      by (simp_all add: dropped_def key_simps)
    with keys [of "db_key MESSAGE_RESULT_PREFIX i"] result_not_new show ?thesis by simp
  qed
  with s' keys show ?thesis by blast
qed

theorem reorg_truncates_log_witness:
  "\<exists>s'. add_messages_and_reorg ref_db ref_rlp 1 [info sample_mwm] None two_messages = (Ok (), s') \<and>
    log_rep ref_rlp (map_of s') [entry (info sample_mwm), entry (info sample_mwm)] \<and>
    map_of s' (db_key MESSAGE_RESULT_PREFIX 1) = None"
proof -
  obtain s' where "add_messages_and_reorg ref_db ref_rlp 1 [info sample_mwm] None two_messages = (Ok (), s')"
    and "log_rep ref_rlp (map_of s') (take (unat (1 :: u64)) (map entry sample_msgs) @ map entry [info sample_mwm])"
    and res: "\<forall>i. map_of s' (db_key MESSAGE_RESULT_PREFIX i) =
      (if 1 \<le> i then None else map_of two_messages (db_key MESSAGE_RESULT_PREFIX i))"
    using reorg_truncates_log [OF ref_node two_messages_rep, of 1 "[info sample_mwm]" None]
    by (auto simp: sample_msgs_def)
  then show ?thesis by (intro exI [of _ s']) (simp add: sample_msgs_def)
qed

text \<open>The init message cannot be dropped.\<close>

theorem init_message_kept:
  "add_messages_and_reorg D R 0 ms track s = (Err (Bail ''cannot reorg out init message'' []), s)"
  by (simp add: add_messages_and_reorg_def bailM_def)

text \<open>A stored message is read back with its block hash and metadata, and reading beyond the log is
  an error.\<close>

theorem log_reads_back:
  assumes "node_store R D view" and "log_rep R (view s) log"
  shows "if unat i < length log
    then get_message_with_metadata_and_block_info D R s i =
      Ok \<lparr>message_with_meta = fst (log ! unat i), block_hash = snd (log ! unat i),
          block_metadata = view s (db_key BLOCK_METADATA_INPUT_FEED_PREFIX i)\<rparr>
    else get_message_with_metadata_and_block_info D R s i = Err not_found"
  using node_store.read_back [OF assms, of i] node_store.get_message_beyond [OF assms, of i]
  by (simp add: get_message_with_metadata_and_block_info_def)

theorem log_reads_back_witness:
  "get_message_with_metadata_and_block_info ref_db ref_rlp two_messages 2 = Err not_found"
  using log_reads_back [OF ref_node two_messages_rep, of 2] by (simp add: sample_msgs_def)

section \<open>Execution\<close>

text \<open>C17: one step of execution digests the first message without a result, handing the engine the
  message after it for prefetching, stores the result under its index, and says whether another
  message is waiting; an engine error leaves the database as it was.\<close>

theorem execution_step:
  assumes "node_store R D view" and "log_rep R (view s) log" and "results_rep R (view s) rs"
    and "length rs < length log"
  shows "execute_next_msg D R (reth_engine D R E) (s, x) =
    (case reth_digest_message D R E s (of_nat (length rs)) (fst (log ! length rs)) (prefetch log (length rs)) x of
       (Ok r, x') \<Rightarrow>
         (Ok (length rs + 2 \<le> length log), (snd (db_write D (store_result R (of_nat (length rs)) r []) s), x'))
     | (Err e, x') \<Rightarrow> (Err e, (s, x'))
     | (Panic, x') \<Rightarrow> (Panic, (s, x'))
     | (Diverge, x') \<Rightarrow> (Diverge, (s, x')))"
proof -
  have D: "database D view" using assms(1) by (simp add: node_store_def)
  have "head_message_index (reth_engine D R E) = (\<lambda>s x. reth_head_message_index D R s)"
    "digest_message (reth_engine D R E) = reth_digest_message D R E"
    by (simp_all add: reth_engine_def)
  with node_store.execute_eq [OF assms(1-3) _ assms(4), of "reth_engine D R E" x] show ?thesis
    unfolding database.after_def [OF D] by simp
qed

theorem execution_step_witness:
  "execute_next_msg ref_db ref_rlp (reth_engine ref_db ref_rlp sample_engine) (two_messages, sample_state) =
     (Err (Bail ''missing beacon engine handle'' []), (two_messages, sample_state))"
  using execution_step [OF ref_node two_messages_rep two_messages_no_results, of sample_engine sample_state]
  by (simp add: sample_msgs_def reth_digest_message_def sample_engine_def bailM_def)

text \<open>When every message has a result, a step does nothing.\<close>

theorem execution_idle:
  assumes "node_store R D view" and "log_rep R (view s) log" and "results_rep R (view s) rs"
    and "length rs = length log" and "length log < 2 ^ 64 - 1"
  shows "execute_next_msg D R (reth_engine D R E) (s, x) = (Ok False, (s, x))"
  using node_store.execute_caught_up [OF assms(1-3) _ assms(4,5), of "reth_engine D R E"]
  by (simp add: reth_engine_def)

lemma no_results_empty: "results_rep ref_rlp (map_of empty_log) []"
  by (simp add: results_rep_def empty_log_def key_simps)

theorem execution_idle_witness:
  "execute_next_msg ref_db ref_rlp (reth_engine ref_db ref_rlp sample_engine) (empty_log, sample_state) =
     (Ok False, (empty_log, sample_state))"
  by (rule execution_idle [OF ref_node empty_log_rep no_results_empty]) simp_all

text \<open>The head the engine reports is the last message with a result: the search down the
  results finds it, and it is \<open>u64::MAX\<close> when no message has one.\<close>

theorem head_is_last_result:
  assumes "node_store R D view" and "log_rep R (view s) log" and "results_rep R (view s) rs"
    and "length rs \<le> length log"
  shows "reth_head_message_index D R s = Ok (if rs = [] then - 1 else of_nat (length rs - 1))"
  using node_store.reth_head_eq [OF assms] by (simp add: head_of_def)

theorem head_is_last_result_witness: "reth_head_message_index ref_db ref_rlp two_messages = Ok (- 1)"
  using head_is_last_result [OF ref_node two_messages_rep two_messages_no_results] by simp

text \<open>With an engine that digests every message, as many steps as messages are waiting give each
  of them a result, in order, and leave the log and the results there were as they are.\<close>

theorem execution_catches_up:
  assumes "node_store R D view" and "log_rep R (view s) log" and "results_rep R (view s) rs"
    and "length rs + k \<le> length log"
    and "head_message_index X = (\<lambda>s x. reth_head_message_index D R s)"
    and "\<And>s i m p x. \<exists>r x'. digest_message X s i m p x = (Ok r, x')"
  shows "\<exists>rs'. length rs' = length rs + k \<and> take (length rs) rs' = rs \<and>
      log_rep R (view (fst (execute_times D R X k (s, x)))) log \<and>
      results_rep R (view (fst (execute_times D R X k (s, x)))) rs'"
  using node_store.execute_times_results [OF assms(1,5,6,2,3,4)] .

definition constant_engine :: "(ref_tree, unit) exec_engine" where
  "constant_engine =
     \<lparr>head_message_index = (\<lambda>s x. reth_head_message_index ref_db ref_rlp s),
      digest_message = (\<lambda>s i m p x. (Ok \<lparr>res_block_hash = 1, send_root = 2\<rparr>, x))\<rparr>"

theorem execution_catches_up_witness:
  "\<exists>rs. length rs = 2 \<and>
     results_rep ref_rlp (map_of (fst (execute_times ref_db ref_rlp constant_engine 2 (two_messages, ())))) rs"
proof -
  have "head_message_index constant_engine = (\<lambda>s x. reth_head_message_index ref_db ref_rlp s)"
    "\<And>s i m p x. \<exists>r x'. digest_message constant_engine s i m p x = (Ok r, x')"
    by (simp_all add: constant_engine_def)
  then obtain rs' where "length rs' = length ([] :: MessageResult list) + 2"
      "results_rep ref_rlp (map_of (fst (execute_times ref_db ref_rlp constant_engine 2 (two_messages, ())))) rs'"
    using execution_catches_up [OF ref_node two_messages_rep two_messages_no_results, of 2 constant_engine]
    by (fastforce simp: sample_msgs_def)
  then show ?thesis by (intro exI [of _ rs']) simp
qed

text \<open>A message is built on the block of the message before it, the first one on the genesis block.\<close>

theorem built_on_previous:
  assumes "node_store R D view" and "results_rep R (view s) rs" and "unat i \<le> length rs"
  shows "digest_parent_hash D R g s i = Ok (if i = 0 then g else res_block_hash (rs ! (unat i - 1)))"
  by (rule node_store.digest_parent_hash_eq [OF assms])

theorem built_on_previous_witness: "digest_parent_hash ref_db ref_rlp 9 two_messages 0 = Ok 9"
  using built_on_previous [OF ref_node two_messages_no_results, of 0 9] by simp

text \<open>Blocks never go back in time: a message that is digested leaves a last timestamp that is later
  than the one before (while one is left) and not earlier than the message's own.\<close>

theorem time_moves_forward:
  assumes "reth_digest_message D R E s i msg pf x = (Ok r, x')"
  shows "last_timestamp x \<le> last_timestamp x' \<and> timestamp (header (message msg)) \<le> last_timestamp x' \<and>
    (last_timestamp x = - 1 \<or> last_timestamp x < last_timestamp x')"
proof -
  let ?t = "next_timestamp (last_timestamp x) (timestamp (header (message msg)))"
  have "?t \<le> last_timestamp x'" by (rule digest_timestamp [OF assms])
  then show ?thesis
    using next_timestamp_ge [where prev = "last_timestamp x" and ts = "timestamp (header (message msg))"]
      next_timestamp_gt [of "last_timestamp x" "timestamp (header (message msg))"]
    by (meson order_trans less_le_trans)
qed

definition eager_beacon :: "unit beacon_handle" where
  "eager_beacon = \<lparr>fork_choice_updated = (\<lambda>st ts w. (Ok Valid, w))\<rparr>"

definition eager_builder :: "unit builder_handle" where
  "eager_builder =
     \<lparr>send_new_payload = (\<lambda>parent ts w. (PayloadId 1, w)),
      resolve_kind = (\<lambda>pid w. (Some (Ok \<lparr>block_hash_of = 3, header_timestamp = 6, extra_data = []\<rparr>), w))\<rparr>"

definition eager_engine :: "unit RethExecEngine" where
  "eager_engine = \<lparr>beacon_engine_handle = Some eager_beacon, payload_builder_handle = Some eager_builder,
     genesis_hash = 1\<rparr>"

lemma eager_run:
  "reth_digest_message ref_db ref_rlp eager_engine two_messages 0 sample_mwm None sample_state =
     (Ok \<lparr>res_block_hash = 3, send_root = 0\<rparr>, \<lparr>last_timestamp = 1700000000, world = ()\<rparr>)"
  by (simp add: reth_digest_message_def eager_engine_def eager_beacon_def eager_builder_def
      digest_parent_hash_def monad_simps on_world_def map_errM_def send_new_payload_loop.simps
      sample_state_def sample_mwm_def sample_message_def sample_header_def next_timestamp_def
      send_root_of_def Let_def max_def)

theorem time_moves_forward_witness:
  "last_timestamp sample_state < last_timestamp \<lparr>last_timestamp = 1700000000, world = ()\<rparr>"
  using time_moves_forward [OF eager_run] by (simp add: sample_state_def)

text \<open>The builder is asked at most 61 times for one block, whatever it answers.\<close>

theorem builder_calls_bounded:
  fixes calls :: "'w \<Rightarrow> nat"
  assumes "\<And>w. calls (snd (send_new_payload B parent ts w)) \<le> calls w + 1"
  shows "calls (snd (send_new_payload_loop B parent ts 0 w)) \<le> calls w + 61"
  using send_new_payload_loop_calls [where calls = calls and attempts = 0 and B = B and parent = parent
      and ts = ts and w = w] assms by simp

definition closed_builder :: "nat builder_handle" where
  "closed_builder =
     \<lparr>send_new_payload = (\<lambda>parent ts w. (ChannelClosed, w + 1)), resolve_kind = (\<lambda>pid w. (None, w))\<rparr>"

theorem builder_calls_bounded_witness:
  "snd (send_new_payload_loop closed_builder 0 0 0 (4 :: nat)) \<le> 65"
  using builder_calls_bounded [where calls = id and B = closed_builder and parent = 0 and ts = 0 and w = 4]
  by (simp add: closed_builder_def)

end
