(* ===== verification/Reference_Node.thy ===== *)
theory Reference_Node
  imports Tracker_Stream Streamer_Props
begin

text \<open>
  A small node: a cache that keeps a list in order of use, trivial hashing and compression, and
  the databases the witnesses of the tracker start from.
\<close>

section \<open>The cache\<close>

type_synonym ref_cache = "(u64 \<times> BatchMetadata) list"

definition ref_lru :: "ref_cache lru" where
  "ref_lru =
     \<lparr>lru_get = (\<lambda>k c. case map_of c k of
          Some v \<Rightarrow> (Some v, (k, v) # AList.delete k c) | None \<Rightarrow> (None, c)),
      lru_put = (\<lambda>k v c. take 1000 ((k, v) # AList.delete k c)),
      lru_pop = (\<lambda>k c. AList.delete k c)\<rparr>"

lemma map_of_take: "map_of (take n xs) k = Some v \<Longrightarrow> map_of xs k = Some v"
  by (metis append_take_drop_id map_add_find_right map_of_append)

interpretation ref_cache: lru_cache ref_lru map_of
proof
  fix k k' :: u64 and c :: ref_cache and v v' :: BatchMetadata
  show "fst (lru_get ref_lru k c) = map_of c k" "map_of (snd (lru_get ref_lru k c)) = map_of c"
    by (auto simp: ref_lru_def delete_conv' fun_eq_iff split: option.split)
  show "map_of (lru_put ref_lru k v c) k = Some v" "map_of (lru_pop ref_lru k c) = (map_of c)(k := None)"
    by (simp_all add: ref_lru_def delete_conv')
  assume "map_of (lru_put ref_lru k v c) k' = Some v'" and "k' \<noteq> k"
  then show "map_of c k' = Some v'"
    using map_of_take [of 1000 "(k, v) # AList.delete k c" k' v']
    by (simp add: ref_lru_def delete_conv' del: take_Suc_Cons)
qed

definition ref_env :: "(ref_tree, ref_cache) env" where
  "ref_env = \<lparr>ev_db = ref_db, ev_rlp = ref_rlp, ev_keccak = (\<lambda>_. 0), ev_brotli = Ok, ev_lru = ref_lru\<rparr>"

lemma ref_env_simps [simp]:
  "ev_db ref_env = ref_db" "ev_rlp ref_env = ref_rlp" "ev_keccak ref_env = (\<lambda>_. 0)"
  "ev_brotli ref_env = Ok" "ev_lru ref_env = ref_lru"
  by (simp_all add: ref_env_def)

interpretation ref_node: tracker_node ref_env map_of map_of
  by (simp add: tracker_node_def Streamer_Props.ref_node ref_cache.lru_cache_axioms)

text \<open>The tracker \<open>t\<close> holds the delayed messages \<open>dms\<close> and the batches with the metadata \<open>ms\<close>.\<close>

abbreviation holds ::
    "('db, 'c) env \<Rightarrow> ('db \<Rightarrow> bytes \<rightharpoonup> bytes) \<Rightarrow> ('c \<Rightarrow> u64 \<rightharpoonup> BatchMetadata) \<Rightarrow> ('db, 'c) tracker \<Rightarrow>
     bytes list \<Rightarrow> BatchMetadata list \<Rightarrow> bool" where
  "holds ev view cached t dms ms \<equiv>
     inbox_rep (ev_rlp ev) (ev_keccak ev) (view (tr_db t)) (cached (tr_cache t)) dms ms"

section \<open>Databases\<close>

definition fresh :: "(ref_tree, ref_cache) tracker" where
  "fresh = \<lparr>tr_db = [(DELAYED_MESSAGE_COUNT_KEY, enc (rlp_u64 ref_rlp) 0),
       (SEQUENCER_BATCH_COUNT_KEY, enc (rlp_u64 ref_rlp) 0), (MESSAGE_COUNT_KEY, enc (rlp_u64 ref_rlp) 0)],
     tr_cache = []\<rparr>"

lemma fresh_holds: "holds ref_env map_of map_of fresh [] []"
  by (auto simp: inbox_rep_def delayed_rep_def batches_rep_def coherent_def ascending_def sequences_def
      last_delayed_def fresh_def key_simps)
     (auto simp: count_keys_eval)

lemma fresh_log: "log_rep ref_rlp (map_of (tr_db fresh)) []"
  by (simp add: log_rep_def log_body_def fresh_def key_simps)

definition first_batch :: BatchMetadata where
  "first_batch = \<lparr>accumulator = 5, bm_message_count = 1, bm_delayed_message_count = 1, parent_chain_block = 7\<rparr>"

text \<open>One delayed message, one batch that reads it, and a log that is one message ahead.\<close>

definition busy :: "(ref_tree, ref_cache) tracker" where
  "busy = \<lparr>tr_db =
      [(DELAYED_MESSAGE_COUNT_KEY, enc (rlp_u64 ref_rlp) 1),
       (db_key RLP_DELAYED_MESSAGE_PREFIX 0, be256 0 @ sample_legacy),
       (SEQUENCER_BATCH_COUNT_KEY, enc (rlp_u64 ref_rlp) 1),
       (db_key SEQUENCER_BATCH_META_PREFIX 0, encode_metadata ref_rlp first_batch),
       (db_key DELAYED_SEQUENCED_PREFIX 1, enc (rlp_u64 ref_rlp) 0)] @ two_messages,
     tr_cache = []\<rparr>"

lemma sample_well_formed: "well_formed sample_legacy"
  unfolding well_formed_def using parse_serialize_legacy [OF sample_legacy] by blast

lemma busy_delayed: "delayed_rep ref_rlp (\<lambda>_. 0) (map_of (tr_db busy)) [sample_legacy]"
  by (auto simp: delayed_rep_def busy_def two_messages_def key_simps sample_well_formed unat_eq_zero)

lemma busy_batches: "batches_rep ref_rlp (map_of (tr_db busy)) [first_batch]"
proof -
  have marks: "prefix DELAYED_SEQUENCED_PREFIX k \<Longrightarrow> map_of (tr_db busy) k \<noteq> None \<Longrightarrow>
      k = db_key DELAYED_SEQUENCED_PREFIX 1" for k
    by (auto simp: busy_def two_messages_def db_key_def prefixes_eval count_keys_eval split: if_splits)
  have marked: "map_of (tr_db busy) (db_key DELAYED_SEQUENCED_PREFIX d) =
      (if d = 1 then Some (enc (rlp_u64 ref_rlp) 0) else None)" for d
    by (simp add: busy_def two_messages_def key_simps)
  have seq: "sequences [first_batch] d j \<longleftrightarrow> j = 0 \<and> d = 1" for d j
    by (auto simp: sequences_def last_delayed_def first_batch_def)
  show ?thesis
    using marks marked seq
    by (auto simp: batches_rep_def ascending_def)
       (auto simp: busy_def two_messages_def key_simps unat_eq_zero)
qed

lemma busy_holds: "holds ref_env map_of map_of busy [sample_legacy] [first_batch]"
  using busy_delayed busy_batches
  by (simp add: inbox_rep_def coherent_def last_delayed_def first_batch_def) (simp add: busy_def)

lemma busy_log: "log_rep ref_rlp (map_of (tr_db busy)) (map entry sample_msgs)"
  by (rule log_rep_frame [OF two_messages_rep]) (auto simp: busy_def key_simps)

end
