(* ===== verification/Mux_Props.thy ===== *)
theory Mux_Props
  imports Reference_Node
begin

text \<open>
  The properties of the multiplexer: what it delivers from the batches of a source, in which order
  of delayed messages, within which times, how that compares with the count the tracker keeps, and
  where it stops or panics.
\<close>

section \<open>Where a pop does not deliver\<close>

context batch_source begin

lemma next_segment:
  assumes ready: "ready mx seq h bs r tb d" and n: "next_sub R r tb = ((ts', bn'), seg # r')"
  obtains i q where
    "scan_segments R (get_position_within_message B (backend mx))
       (drop (unat (cached_segment_num mx)) (segments seq)) (cached_segment_num mx)
       (cached_segment_timestamp mx) (cached_segment_block_number mx) (cached_submessage_number mx) =
     Ok (of_nat i, ts', bn', q)"
    and "unat (of_nat i :: u64) = i" and "i < length (segments seq)" and "segments seq ! i = seg"
proof -
  define i where "i = length (segments seq) - length (seg # r')"
  obtain q where scan: "scan_segments R (get_position_within_message B (backend mx))
       (drop (unat (cached_segment_num mx)) (segments seq)) (cached_segment_num mx)
       (cached_segment_timestamp mx) (cached_segment_block_number mx) (cached_submessage_number mx) =
     Ok (of_nat i, ts', bn', q)" and suf: "suffix (seg # r') (segments seq)"
    using ready_scan [OF ready n] unfolding i_def by metis
  have len: "length (seg # r') \<le> length (segments seq)" using suf by (rule suffix_length_le)
  have "length (segments seq) < 2 ^ 64" using ready by (simp add: ready_def)
  then have "unat (of_nat i :: u64) = i" by (intro unat_of_nat64) (simp add: i_def)
  moreover have "segments seq ! i = seg" using suffix_drop [OF suf] unfolding i_def by (metis nth_via_drop)
  moreover have "i < length (segments seq)" using len by (simp add: i_def)
  ultimately show thesis using that [of i q] scan by blast
qed

lemma pop_unknown:
  assumes at: "at_batch mx ((bytes, h) # bs) d"
    and parse: "\<And>n. parse_sequencer_message R brotli n h bytes = Ok seq"
    and n: "next_sub R (segments seq) (0, 0) = (tb', seg # r')" and unknown: "\<not> known_segment seg"
  shows "fst (pop B R brotli mx) = Ok None"
proof -
  obtain mx' where pop: "pop B R brotli mx = pop_cached B R brotli mx'"
    and ready: "ready mx' seq h ((bytes, h) # bs) (segments seq) (0, 0) d"
    by (rule pop_opens [OF at parse])
  obtain ts bn where tb': "tb' = (ts, bn)" by (cases tb')
  have kinds: "seg \<noteq> []" "hd seg \<noteq> BATCH_SEGMENT_KIND_L2_MESSAGE" "hd seg \<noteq> BATCH_SEGMENT_KIND_L2_MESSAGE_BROTLI"
      "hd seg \<noteq> BATCH_SEGMENT_KIND_DELAYED_MESSAGES"
    using unknown by (auto simp: known_segment_def skipped_def message_segment_def)
  have cached: "cached_msg mx' = Some seq" using ready by (simp add: ready_def)
  obtain mx1 where "get_next_msg B R brotli mx' = (Ok (None, None), mx1)"
    by (rule next_segment [OF ready n [unfolded tb']])
       (use kinds cached in \<open>simp add: get_next_msg_def Let_def\<close>)
  from pop_cached_eq [OF this] pop show ?thesis by simp
qed

lemma pop_inverted:
  assumes at: "at_batch mx ((bytes, h) # bs) d"
    and parse: "\<And>n. parse_sequencer_message R brotli n h bytes = Ok seq"
    and n: "next_sub R (segments seq) (0, 0) = (tb', seg # r')" and kind: "hd seg = BATCH_SEGMENT_KIND_L2_MESSAGE"
    and inverted: "max_l1_block seq < min_l1_block seq \<or> max_timestamp seq < min_timestamp seq"
  shows "fst (pop B R brotli mx) = Panic"
proof -
  obtain mx' where pop: "pop B R brotli mx = pop_cached B R brotli mx'"
    and ready: "ready mx' seq h ((bytes, h) # bs) (segments seq) (0, 0) d"
    by (rule pop_opens [OF at parse])
  obtain ts bn where tb': "tb' = (ts, bn)" by (cases tb')
  have "\<not> skipped seg" using next_sub_hd [OF n] .
  then have seg: "seg \<noteq> []" by (auto simp: skipped_def)
  have "l2_message seq hh dd ts bn x = Panic" for hh dd x
    using inverted by (auto simp: l2_message_def clamp_u64_def)
  moreover have "cached_msg mx' = Some seq" using ready by (simp add: ready_def)
  ultimately obtain mx1 where "get_next_msg B R brotli mx' = (Panic, mx1)"
    using kind seg
    by - (rule next_segment [OF ready n [unfolded tb']], simp add: get_next_msg_def Let_def segment_kinds)
  then show ?thesis by (simp add: pop pop_cached_def bindM_def)
qed

lemma at_new:
  "get_position_within_message B b = 0 \<Longrightarrow> batches_of b = bs \<Longrightarrow> at_batch (new_multiplexer b d) bs d"
  by (simp add: at_batch_def new_multiplexer_def)

end

section \<open>Sample batches\<close>

text \<open>A batch as it is posted: five numbers, a marker, the compressed segments.\<close>

definition posted :: "SequencerMessage \<Rightarrow> bytes \<Rightarrow> bytes" where
  "posted seq z =
     be64 (min_timestamp seq) @ be64 (max_timestamp seq) @ be64 (min_l1_block seq) @ be64 (max_l1_block seq)
     @ be64 (after_delayed_messages seq) @ 1 # z"

definition sample_seq :: "bytes list \<Rightarrow> u64 \<Rightarrow> SequencerMessage" where
  "sample_seq segs n = \<lparr>min_timestamp = 10, max_timestamp = 99, min_l1_block = 5, max_l1_block = 50,
     after_delayed_messages = n, segments = segs\<rparr>"

lemma sample_seq_simps [simp]:
  "segments (sample_seq segs n) = segs" "after_delayed_messages (sample_seq segs n) = n"
  by (simp_all add: sample_seq_def)

definition sample_batch :: "bytes list \<Rightarrow> u64 \<Rightarrow> SequencerInboxBatch" where
  "sample_batch segs n =
     \<lparr>sequence_number = 0, before_inbox_acc = 0, after_inbox_acc = 8, after_message_count = 0,
      after_delayed_count = n, after_delayed_acc = 0,
      time_bounds = \<lparr>tb_min_timestamp = 10, tb_max_timestamp = 99, tb_min_block_number = 5,
                     tb_max_block_number = 50\<rparr>,
      data_location = 0, bridge_address = 0, parent_chain_block_number = 7, batch_block_hash = 6, tx_hash = 0,
      serialized = posted (sample_seq segs n) (concat (map (enc (rlp_bytes ref_rlp)) segs))\<rparr>"

lemma sample_batch_simps [simp]:
  "sequence_number (sample_batch segs n) = 0" "before_inbox_acc (sample_batch segs n) = 0"
  "after_inbox_acc (sample_batch segs n) = 8" "after_delayed_count (sample_batch segs n) = n"
  "after_delayed_acc (sample_batch segs n) = 0" "parent_chain_block_number (sample_batch segs n) = 7"
  "batch_block_hash (sample_batch segs n) = 6"
  by (simp_all add: sample_batch_def)

lemma parse_posted:
  assumes "alloy_rlp R" and "length (segments seq) \<le> 100 * 1024"
    and "brotli z = Ok (concat (map (enc (rlp_bytes R)) (segments seq)))"
  shows "parse_sequencer_message R brotli n h (posted seq z) = Ok seq"
  using assms(3) alloy_rlp.decode_segments_encoded [OF assms(1), of "[]" "segments seq"] assms(2)
  by (simp add: parse_sequencer_message_def posted_def u64_at_def)

lemma parse_sample:
  "length segs \<le> 100 * 1024 \<Longrightarrow>
   parse_sequencer_message ref_rlp Ok n h (serialized (sample_batch segs k)) = Ok (sample_seq segs k)"
  unfolding sample_batch_def
  using parse_posted [OF ref.alloy_rlp_axioms, of "sample_seq segs k" Ok] by (simp add: sample_seq_def)

definition two_segments :: "bytes list" where
  "two_segments = [4 # enc (rlp_u64 ref_rlp) 20, [0, 7, 8]]"

definition l2_at_20 :: MessageWithMetadataAndBlockInfo where
  "l2_at_20 = \<lparr>message_with_meta = \<lparr>message = \<lparr>header = \<lparr>kind = 3, poster = 0, block_number = 20,
       timestamp = 10, request_id = None, l1_base_fee = 0\<rparr>, l2msg = [7, 8], batch_gas_cost = None\<rparr>,
     delayed_messages_read = 0\<rparr>, block_hash = Some 6, block_metadata = None\<rparr>"

lemma two_segments_messages:
  "batch_messages ref_rlp Ok delayed (sample_seq two_segments 0) (Some 6) 0 = Ok [l2_at_20]"
  "delayed 0 = Ok x \<Longrightarrow>
   batch_messages ref_rlp Ok delayed (sample_seq two_segments 1) (Some 6) 0 = Ok [l2_at_20, delayed_message x 1]"
proof -
  have dec: "dec (rlp_u64 ref_rlp) (enc (rlp_u64 ref_rlp) 20) = Ok (20, [])"
    using ref.u64.dec_enc [of 20 "[]"] by simp
  have filtered: "filter message_segment two_segments = [[0, 7, 8]]"
    by (simp add: two_segments_def message_segment_def segment_kinds)
  have walk: "walk_segments ref_rlp Ok delayed (sample_seq segs n) (Some 6) two_segments (0, 0) 0 =
      Ok ([l2_at_20], 0)" for segs n
    by (simp add: two_segments_def sample_seq_def skipped_def advanced_def segment_kinds dec
        segment_message_def l2_message_def clamp_u64_def l2_at_20_def sat_add_def)
  show "batch_messages ref_rlp Ok delayed (sample_seq two_segments 0) (Some 6) 0 = Ok [l2_at_20]"
    by (simp add: batch_messages_def walk filtered)
  show "batch_messages ref_rlp Ok delayed (sample_seq two_segments 1) (Some 6) 0 =
      Ok [l2_at_20, delayed_message x 1]" if "delayed 0 = Ok x"
    using that by (simp add: batch_messages_def walk filtered)
qed

text \<open>The source the tracker hands to the multiplexer, with the delayed messages of \<open>busy\<close>.\<close>

abbreviation sample_source :: "TrackerBackend inbox_backend" where
  "sample_source \<equiv> tracker_backend ref_db (tr_db busy)"

lemma sample_batch_source:
  "batch_source ref_rlp sample_source pending (get_delayed_message ref_db (tr_db busy))"
  by (rule tracker_batch_source [OF ref.alloy_rlp_axioms])

lemma sample_delayed:
  "get_delayed_message ref_db (tr_db busy) = delayed_at [sample_legacy]"
  using ref_node.get_delayed_message_at busy_delayed by simp

lemma sample_position: "get_position_within_message sample_source (build_backend bs) = 0"
  by (simp add: tracker_backend_def build_backend_def)

lemma sample_pending:
  "pending (build_backend [sample_batch segs n]) = [(serialized (sample_batch segs n), Some 6)]"
  by (simp add: pending_def build_backend_def batch_bytes_def sample_batch_def)

lemma sample_parsed:
  "length segs \<le> 100 * 1024 \<Longrightarrow>
   parse_batches ref_rlp Ok (pending (build_backend [sample_batch segs n])) = Ok [(sample_seq segs n, Some 6)]"
  by (simp add: sample_pending parse_sample)

lemma two_segments_known: "list_all known_segment two_segments" "length two_segments \<le> 100 * 1024"
proof -
  show "list_all known_segment two_segments"
    by (simp add: two_segments_def known_segment_def skipped_def message_segment_def segment_kinds)
  have "length two_segments = 2" by (simp add: two_segments_def)
  then show "length two_segments \<le> 100 * 1024" by linarith
qed

definition sample_delayed_message :: MessageWithMetadataAndBlockInfo where
  "sample_delayed_message = delayed_message (sample_message\<lparr>batch_gas_cost := None\<rparr>) 1"

lemma sample_stream:
  "stream_messages ref_rlp Ok (get_delayed_message ref_db (tr_db busy)) [(sample_seq two_segments 1, Some 6)] 0 =
     Ok [l2_at_20, sample_delayed_message]"
proof -
  have "delayed_at [sample_legacy] 0 = Ok (sample_message\<lparr>batch_gas_cost := None\<rparr>)"
    using parse_serialize_legacy [OF sample_legacy] by (simp add: delayed_at_def)
  then show ?thesis
    by (simp add: sample_delayed two_segments_messages(2) sample_delayed_message_def)
qed

section \<open>What is delivered\<close>

text \<open>C7: draining the multiplexer delivers the messages of every batch of its source in turn: the
  segments of a batch in order, each under the running time and block number, then the delayed
  messages the batch grants beyond them, then the next batch; and it ends.\<close>

theorem mux_delivers:
  assumes "batch_source R B batches_of delayed" and "get_position_within_message B b = 0"
    and "parse_batches R brotli (batches_of b) = Ok ps"
    and "list_all (\<lambda>(seq, h). list_all known_segment (segments seq)) ps"
    and "stream_messages R brotli delayed ps d = Ok ms" and "length ms < fuel"
  shows "fst (pop_all B R brotli fuel [] (new_multiplexer b d)) = Ok ms"
  using batch_source.pop_all_stream [OF assms(1) batch_source.at_new [OF assms(1,2) refl] assms(3-6)] .

theorem mux_delivers_witness:
  "fst (pop_all sample_source ref_rlp Ok 3 [] (new_multiplexer (build_backend [sample_batch two_segments 1]) 0)) =
     Ok [l2_at_20, sample_delayed_message]"
  by (rule mux_delivers [OF sample_batch_source sample_position sample_parsed _ sample_stream])
     (use two_segments_known in simp_all)

text \<open>C18: batches whose delayed counts do not decrease are delivered in the order the streamer insists
  on: each message reads as many delayed messages as the one before it or one more, and the last
  one reads what the last batch grants.\<close>

theorem mux_reads_in_order:
  assumes "batch_source R B batches_of delayed" and "get_position_within_message B b = 0"
    and "parse_batches R brotli (batches_of b) = Ok ps"
    and "list_all (\<lambda>(seq, h). list_all known_segment (segments seq)) ps"
    and "stream_messages R brotli delayed ps d = Ok ms" and "length ms < fuel"
    and "delayed_ascending d ps"
  shows "\<exists>out. fst (pop_all B R brotli fuel [] (new_multiplexer b d)) = Ok out \<and>
    reads_ok d (reads_of out) \<and> last (d # reads_of out) = last (d # map (after_delayed_messages \<circ> fst) ps)"
  using batch_source.pop_all_stream [OF assms(1) batch_source.at_new [OF assms(1,2) refl] assms(3-6)]
    stream_reads [OF assms(5,7)] by blast

theorem mux_reads_in_order_witness:
  "\<exists>out. fst (pop_all sample_source ref_rlp Ok 3 []
      (new_multiplexer (build_backend [sample_batch two_segments 1]) 0)) = Ok out \<and>
    reads_ok 0 (reads_of out) \<and> last (0 # reads_of out) = 1"
  using mux_reads_in_order [OF sample_batch_source sample_position sample_parsed _ sample_stream,
      of 3] two_segments_known by simp

section \<open>Times and counts\<close>

text \<open>A message within the bounds a batch sets.\<close>

definition within_bounds :: "SequencerMessage \<Rightarrow> MessageWithMetadataAndBlockInfo \<Rightarrow> bool" where
  "within_bounds seq m \<longleftrightarrow>
     (let hd = header (message (message_with_meta m)) in
      min_l1_block seq \<le> block_number hd \<and> block_number hd \<le> max_l1_block seq \<and>
      min_timestamp seq \<le> timestamp hd \<and> timestamp hd \<le> max_timestamp seq)"

definition proper_bounds :: "SequencerMessage \<Rightarrow> bool" where
  "proper_bounds seq \<longleftrightarrow> min_l1_block seq \<le> max_l1_block seq \<and> min_timestamp seq \<le> max_timestamp seq"

lemma segment_message_bounds:
  assumes "segment_message R brotli delayed seq (Some x) seg tb d = Ok (m, d')" and "proper_bounds seq"
    and "block_hash m \<noteq> None"
  shows "within_bounds seq m"
proof -
  obtain ts bn where tb: "tb = (ts, bn)" by (cases tb)
  show ?thesis
  proof (cases "hd seg = BATCH_SEGMENT_KIND_DELAYED_MESSAGES")
    case True
    with assms show ?thesis
      by (auto simp: segment_message_def tb within_bounds_def proper_bounds_def invalid_message_def
          delayed_message_def bindR_Ok_iff split: if_splits)
  next
    case False
    then obtain payload where "l2_message seq (Some x) d ts bn payload = Ok m"
      using assms(1) by (auto simp: segment_message_def tb bindR_Ok_iff)
    with assms(2) show ?thesis
      by (auto simp: l2_message_def within_bounds_def proper_bounds_def clamp_u64_def bindR_Ok_iff)
  qed
qed

lemma walk_bounds:
  "walk_segments R brotli delayed seq (Some x) r tb d = Ok (ms, d') \<Longrightarrow> proper_bounds seq \<Longrightarrow>
   m \<in> set ms \<Longrightarrow> block_hash m \<noteq> None \<Longrightarrow> within_bounds seq m"
proof (induction r arbitrary: tb d ms)
  case (Cons seg r)
  show ?case
  proof (cases "skipped seg")
    case True
    with Cons show ?thesis by auto
  next
    case False
    then obtain m1 d1 ms' where m1: "segment_message R brotli delayed seq (Some x) seg tb d = Ok (m1, d1)"
      and rest: "walk_segments R brotli delayed seq (Some x) r tb d1 = Ok (ms', d')" and ms: "ms = m1 # ms'"
      using Cons.prems(1) by (auto simp: bindR_Ok_iff)
    from Cons.prems(3) ms consider "m = m1" | "m \<in> set ms'" by auto
    then show ?thesis
      by cases (use segment_message_bounds [OF m1] Cons.IH [OF rest] Cons.prems in auto)
  qed
qed simp

lemma walk_delayed_no_hash: "walk_delayed delayed d k = Ok ms \<Longrightarrow> m \<in> set ms \<Longrightarrow> block_hash m = None"
  by (induction k arbitrary: d ms) (auto simp: bindR_Ok_iff delayed_message_def)

lemma batch_bounds:
  assumes "batch_messages R brotli delayed seq (Some x) d = Ok ms" and "proper_bounds seq"
    and "m \<in> set ms" and "block_hash m \<noteq> None"
  shows "within_bounds seq m"
proof (cases "after_delayed_messages seq \<le> d \<and> filter message_segment (segments seq) = []")
  case True
  with assms show ?thesis
    by (auto simp: batch_messages_def within_bounds_def proper_bounds_def invalid_message_def)
next
  case False
  with assms(1) obtain ms1 d' tail where
      "walk_segments R brotli delayed seq (Some x) (segments seq) (0, 0) d = Ok (ms1, d')"
      "walk_delayed delayed d' (unat (after_delayed_messages seq) - unat d') = Ok tail" "ms = ms1 @ tail"
    by (auto simp: batch_messages_def bindR_Ok_iff split: if_splits)
  with assms walk_bounds walk_delayed_no_hash show ?thesis by fastforce
qed

text \<open>One batch is all the source has.\<close>

lemma one_batch:
  assumes "batch_source R B batches_of delayed" and "get_position_within_message B b = 0"
    and "batches_of b = [(bytes, h)]" and "parse_sequencer_message R brotli 0 h bytes = Ok seq"
    and "list_all known_segment (segments seq)" and "batch_messages R brotli delayed seq h d = Ok ms"
    and "length ms < fuel"
  shows "fst (pop_all B R brotli fuel [] (new_multiplexer b d)) = Ok ms"
  using batch_source.pop_all_stream [OF assms(1) batch_source.at_new [OF assms(1,2) refl],
      of brotli "[(seq, h)]" d ms fuel] assms(3-7) by simp

text \<open>What a batch contributes itself, its L2 messages and the message that stands for an empty
  batch, carries a block number and a time within the bounds of the batch; the delayed messages
  between them keep their own.\<close>

theorem mux_within_bounds:
  assumes "batch_source R B batches_of delayed" and "get_position_within_message B b = 0"
    and "batches_of b = [(bytes, Some x)]" and "parse_sequencer_message R brotli 0 (Some x) bytes = Ok seq"
    and "list_all known_segment (segments seq)" and "batch_messages R brotli delayed seq (Some x) d = Ok ms"
    and "length ms < fuel" and "proper_bounds seq"
  shows "\<exists>out. fst (pop_all B R brotli fuel [] (new_multiplexer b d)) = Ok out \<and>
    list_all (\<lambda>m. block_hash m \<noteq> None \<longrightarrow> within_bounds seq m) out"
  using one_batch [OF assms(1-7)] batch_bounds [OF assms(6,8)] by (auto simp: list_all_iff)

theorem mux_within_bounds_witness:
  "\<exists>out. fst (pop_all sample_source ref_rlp Ok 3 []
      (new_multiplexer (build_backend [sample_batch two_segments 1]) 0)) = Ok out \<and>
    list_all (\<lambda>m. block_hash m \<noteq> None \<longrightarrow> within_bounds (sample_seq two_segments 1) m) out"
proof (rule mux_within_bounds [OF sample_batch_source sample_position sample_pending parse_sample])
  show "batch_messages ref_rlp Ok (get_delayed_message ref_db (tr_db busy)) (sample_seq two_segments 1)
      (Some 6) 0 = Ok [l2_at_20, sample_delayed_message]"
    using sample_stream by (auto simp: bindR_Ok_iff)
qed (use two_segments_known in \<open>simp_all add: proper_bounds_def sample_seq_def\<close>)

text \<open>
  The batch of the test in \<open>crates/inbox-reader/tests/sequencer_ingestion.rs\<close>: one segment of kind 0 and
  two new delayed messages.  It is regular, the multiplexer delivers three messages from it, and the tracker
  counts three; the test expects a count of one.
\<close>

lemma test_batch_counts_three:
  assumes "segments seq = [0 # payload]" and "after_delayed_messages seq = 2" and "after_delayed_count x = 2"
    and "batch_messages R brotli delayed seq h 0 = Ok ms"
  shows "regular seq 0" and "length ms = 3" and "bm_message_count (batch_metadata seq x no_metadata) = 3"
proof -
  show reg: "regular seq 0"
    using assms(1,2)
    by (simp add: regular_def known_segment_def message_segment_def delayed_segment_def skipped_def segment_kinds)
  show len: "length ms = 3"
    using batch_length [OF assms(4) reg] assms(1,2) by (simp add: l2_segment_def segment_kinds)
  have "bm_delayed_message_count no_metadata = 0" "bm_message_count no_metadata = 0"
    by (simp_all add: no_metadata_def)
  with batch_metadata_count [of R brotli delayed seq h no_metadata ms x] assms(2-4) reg len
  show "bm_message_count (batch_metadata seq x no_metadata) = 3" by simp
qed

text \<open>C19: for a regular batch the tracker counts as many messages as the multiplexer delivers: one for each
  segment of a message and one for each new delayed message.  (For a segment of kind 0 and two delayed messages
  these are three, where a test of the reader expects one: lemma \<open>test_batch_counts_three\<close>.)\<close>

theorem mux_count_agrees:
  assumes "batch_source R B batches_of delayed" and "get_position_within_message B b = 0"
    and "batches_of b = [(bytes, h)]" and "parse_sequencer_message R brotli 0 h bytes = Ok seq"
    and "regular seq (bm_delayed_message_count prev)"
    and "batch_messages R brotli delayed seq h (bm_delayed_message_count prev) = Ok ms"
    and "length ms < fuel" and "after_delayed_count x = after_delayed_messages seq"
  shows "\<exists>out. fst (pop_all B R brotli fuel [] (new_multiplexer b (bm_delayed_message_count prev))) = Ok out \<and>
    bm_message_count (batch_metadata seq x prev) = bm_message_count prev + of_nat (length out)"
proof -
  have "list_all known_segment (segments seq)" using assms(5) by (simp add: regular_def)
  from one_batch [OF assms(1-4) this assms(6,7)] batch_metadata_count [OF assms(6,5,8)] show ?thesis by blast
qed

lemma sample_regular: "regular (sample_seq two_segments 1) 0"
  by (simp add: regular_def two_segments_known)
     (simp add: two_segments_def delayed_segment_def segment_kinds)

theorem mux_count_agrees_witness:
  "\<exists>out. fst (pop_all sample_source ref_rlp Ok 3 []
      (new_multiplexer (build_backend [sample_batch two_segments 1]) 0)) = Ok out \<and>
    bm_message_count (batch_metadata (sample_seq two_segments 1) (sample_batch two_segments 1) no_metadata) =
      of_nat (length out)"
proof -
  have "batch_messages ref_rlp Ok (get_delayed_message ref_db (tr_db busy)) (sample_seq two_segments 1)
      (Some 6) 0 = Ok [l2_at_20, sample_delayed_message]"
    using sample_stream by (auto simp: bindR_Ok_iff)
  with mux_count_agrees [OF sample_batch_source sample_position sample_pending parse_sample,
      of two_segments 1 no_metadata _ 3 "sample_batch two_segments 1"] sample_regular two_segments_known
  show ?thesis by (simp add: no_metadata_def sample_batch_def)
qed

section \<open>Where the stream departs from the count, stops, or panics\<close>

text \<open>C37: a batch that has no message segments and grants no delayed message is delivered as one invalid
  message, while the tracker's metadata do not count it: from then on the two disagree.\<close>

theorem void_batch_uncounted:
  assumes "batch_source R B batches_of delayed" and "get_position_within_message B b = 0"
    and "batches_of b = [(bytes, h)]" and "parse_sequencer_message R brotli 0 h bytes = Ok seq"
    and "list_all skipped (segments seq)" and "after_delayed_messages seq = bm_delayed_message_count prev"
    and "after_delayed_count x = after_delayed_messages seq"
  shows "fst (pop_all B R brotli 2 [] (new_multiplexer b (bm_delayed_message_count prev))) =
      Ok [invalid_message seq h] \<and>
    bm_message_count (batch_metadata seq x prev) = bm_message_count prev"
proof -
  have none: "filter message_segment (segments seq) = []"
    using assms(5) not_message_skipped by (auto simp: filter_empty_conv list_all_iff)
  have "list_all known_segment (segments seq)" using assms(5) by (auto simp: known_segment_def list_all_iff)
  from one_batch [OF assms(1-4) this void_batch [OF none assms(6)]] void_batch_metadata [OF none] assms(6,7)
  show ?thesis by simp
qed

theorem void_batch_uncounted_witness:
  "fst (pop_all sample_source ref_rlp Ok 2 [] (new_multiplexer (build_backend [sample_batch [] 0]) 0)) =
      Ok [invalid_message (sample_seq [] 0) (Some 6)] \<and>
    bm_message_count (batch_metadata (sample_seq [] 0) (sample_batch [] 0) no_metadata) = 0"
  using void_batch_uncounted [OF sample_batch_source sample_position sample_pending parse_sample,
      of "[]" 0 no_metadata "sample_batch [] 0"]
  by (simp add: no_metadata_def sample_batch_def)

lemma unknown_segment_ends:
  assumes "batch_source R B batches_of delayed" and "get_position_within_message B b = 0"
    and "batches_of b = (bytes, h) # rest" and "\<And>n. parse_sequencer_message R brotli n h bytes = Ok seq"
    and "segments seq = seg # segs" and "\<not> known_segment seg"
  shows "fst (pop_all B R brotli (Suc fuel) [] (new_multiplexer b d)) = Ok []"
proof -
  have "\<not> skipped seg" using assms(6) by (simp add: known_segment_def)
  then have "next_sub R (segments seq) (0, 0) = ((0, 0), seg # segs)" using assms(5) by simp
  then have "fst (pop B R brotli (new_multiplexer b d)) = Ok None"
    by (rule batch_source.pop_unknown [OF assms(1) batch_source.at_new [OF assms(1-3)] assms(4) _ assms(6)])
  then show ?thesis by (cases "pop B R brotli (new_multiplexer b d)") (simp add: bindM_def okM_def)
qed

text \<open>A batch that starts with a segment of a kind the protocol does not have ends the stream: draining
  delivers nothing, from this batch or from any after it.\<close>

theorem unknown_segment_stops:
  assumes "batch_source R B batches_of delayed" and "get_position_within_message B b = 0"
    and "batches_of b = (bytes, h) # rest" and "\<And>n. parse_sequencer_message R brotli n h bytes = Ok seq"
    and "segments seq = seg # segs" and "\<not> known_segment seg"
  shows "fst (pop_all B R brotli (Suc fuel) [] (new_multiplexer b d)) = Ok []"
  by (rule unknown_segment_ends [OF assms])

theorem unknown_segment_stops_witness:
  "fst (pop_all sample_source ref_rlp Ok 5 [] (new_multiplexer (build_backend [sample_batch [[9]] 0]) 0)) = Ok []"
  using unknown_segment_stops [OF sample_batch_source sample_position sample_pending parse_sample,
      of "[[9]]" 0 "[9]" "[]" 4 0]
  by (simp add: known_segment_def skipped_def message_segment_def segment_kinds)

text \<open>A batch whose lower bound on the block number or on the time is above the upper one makes its
  first L2 message panic: the bounds come from the posted bytes and are not checked.\<close>

theorem inverted_bounds_panic:
  assumes "batch_source R B batches_of delayed" and "get_position_within_message B b = 0"
    and "batches_of b = (bytes, h) # rest" and "\<And>n. parse_sequencer_message R brotli n h bytes = Ok seq"
    and "segments seq = (BATCH_SEGMENT_KIND_L2_MESSAGE # payload) # segs"
    and "max_l1_block seq < min_l1_block seq \<or> max_timestamp seq < min_timestamp seq"
  shows "fst (pop_all B R brotli (Suc fuel) [] (new_multiplexer b d)) = Panic"
proof -
  let ?seg = "BATCH_SEGMENT_KIND_L2_MESSAGE # payload"
  have "next_sub R (segments seq) (0, 0) = ((0, 0), ?seg # segs)"
    using assms(5) by (simp add: skipped_def segment_kinds)
  then have "fst (pop B R brotli (new_multiplexer b d)) = Panic"
    by (rule batch_source.pop_inverted [OF assms(1) batch_source.at_new [OF assms(1-3)] assms(4) _ _ assms(6)])
       simp
  then show ?thesis by (cases "pop B R brotli (new_multiplexer b d)") (simp add: bindM_def)
qed

theorem inverted_bounds_panic_witness:
  "fst (pop_all sample_source ref_rlp Ok 1 []
     (new_multiplexer (build_backend [(sample_batch [] 0)
        \<lparr>serialized := posted ((sample_seq [[0, 7]] 0)\<lparr>max_l1_block := 4\<rparr>) (enc (rlp_bytes ref_rlp) [0, 7])\<rparr>]) 0)) =
   Panic"
proof -
  let ?seq = "(sample_seq [[0, 7]] 0)\<lparr>max_l1_block := 4\<rparr>"
  let ?b = "build_backend [(sample_batch [] 0)\<lparr>serialized := posted ?seq (enc (rlp_bytes ref_rlp) [0, 7])\<rparr>]"
  have "parse_sequencer_message ref_rlp Ok n (Some 6) (posted ?seq (enc (rlp_bytes ref_rlp) [0, 7])) = Ok ?seq" for n
    by (rule parse_posted [OF ref.alloy_rlp_axioms]) simp_all
  moreover have "pending ?b = [(posted ?seq (enc (rlp_bytes ref_rlp) [0, 7]), Some 6)]"
    by (simp add: pending_def build_backend_def batch_bytes_def sample_batch_def)
  moreover have "segments ?seq = [BATCH_SEGMENT_KIND_L2_MESSAGE # [7]]" by (simp add: segment_kinds)
  ultimately show ?thesis
    using inverted_bounds_panic [OF sample_batch_source sample_position, of _ _ "Some 6" "[]" Ok ?seq "[7]" "[]" 0 0]
    by (simp add: sample_seq_def)
qed

end
