(* ===== verification/Tracker_Props.thy ===== *)
theory Tracker_Props
  imports Mux_Props
begin

text \<open>
  The properties of the inbox tracker, over any store and cache that meet their contracts:
  what each of its operations does to the two lists it keeps, the delayed messages and the
  metadata of the batches, and how it keeps the log of messages in step with them.
\<close>

lemma ref_tracker: "tracker_node ref_env map_of map_of"
  by (rule ref_node.tracker_node_axioms)

section \<open>Starting and reading\<close>

text \<open>C40: on an empty database initialisation leaves a tracker without delayed messages and batches and a
  streamer without messages.\<close>

theorem initialize_fresh:
  assumes "tracker_node ev view cached" and "view s = Map.empty" and "cached c = Map.empty"
  shows "\<exists>s'. initialize (ev_db ev) (ev_rlp ev) s = (Ok (), s') \<and> log_rep (ev_rlp ev) (view s') [] \<and>
    holds ev view cached \<lparr>tr_db = s', tr_cache = c\<rparr> [] []"
  using tracker_node.fresh_rep [OF assms] unfolding tracker_node.rep_def [OF assms(1)] by metis

theorem initialize_fresh_witness:
  "\<exists>s'. initialize ref_db ref_rlp [] = (Ok (), s') \<and> log_rep ref_rlp (map_of s') [] \<and>
    holds ref_env map_of map_of \<lparr>tr_db = s', tr_cache = []\<rparr> [] []"
  using initialize_fresh [OF ref_tracker, of "[]" "[]"] by simp

text \<open>A recorded delayed message is read back with the accumulator before it, its accumulator is the
  hash chain over all messages up to it, and both are errors beyond the recorded ones.\<close>

theorem delayed_reads_back:
  assumes "tracker_node ev view cached" and "holds ev view cached t dms ms"
  shows "get_delayed_acc (ev_db ev) (ev_keccak ev) (tr_db t) i =
      (if unat i < length dms then Ok (acc_from (ev_keccak ev) 0 (take (unat i + 1) dms))
       else Err (Bail ''accumulator not found: delayed {}'' [unat i])) \<and>
    get_delayed_message (ev_db ev) (tr_db t) i =
      (if unat i < length dms then parse_incoming_l1_message_legacy (dms ! unat i) else Err not_found) \<and>
    get_delayed_count (ev_db ev) (ev_rlp ev) (tr_db t) = Ok (of_nat (length dms))"
proof -
  have rep: "delayed_rep (ev_rlp ev) (ev_keccak ev) (view (tr_db t)) dms"
    using assms(2) by (simp add: inbox_rep_def)
  show ?thesis
    unfolding tracker_node.get_delayed_acc_eq [OF assms(1) rep] tracker_node.get_delayed_message_at [OF assms(1) rep]
      tracker_node.get_delayed_count_eq [OF assms(1) rep] delayed_at_def
    by simp
qed

theorem delayed_reads_back_witness:
  "get_delayed_message ref_db (tr_db busy) 0 = Ok (sample_message\<lparr>batch_gas_cost := None\<rparr>)"
  using delayed_reads_back [OF ref_tracker busy_holds, of 0] parse_serialize_legacy [OF sample_legacy] by simp

text \<open>The metadata of a batch is read through the cache: whatever the cache has kept, the answer is the
  recorded metadata, or an error beyond the last batch, and the tracker's contents stay the same.\<close>

theorem metadata_reads_back:
  assumes "tracker_node ev view cached" and "holds ev view cached t dms ms"
  shows "\<exists>t'. get_batch_metadata ev i t =
      ((if unat i < length ms then Ok (ms ! unat i)
        else Err (Bail ''accumulator not found: no metadata for batch {}'' [unat i])), t') \<and>
    tr_db t' = tr_db t \<and> holds ev view cached t' dms ms"
  using tracker_node.get_batch_metadata_eq [OF assms(1)] assms(2) unfolding tracker_node.rep_def [OF assms(1)] by blast

theorem metadata_reads_back_witness:
  "\<exists>t'. get_batch_metadata ref_env 0 busy = (Ok first_batch, t') \<and> tr_db t' = tr_db busy \<and>
    holds ref_env map_of map_of t' [sample_legacy] [first_batch]"
  using metadata_reads_back [OF ref_tracker busy_holds, of 0] by simp

text \<open>A batch counter that is ahead of the recorded batches, as a crash between the two writes leaves
  it, is repaired when it is read: the count is that of the batches with metadata, and the store is
  again the one that counter belongs to.\<close>

theorem batch_count_repaired:
  assumes "tracker_node ev view cached" and "batches_rep (ev_rlp ev) (view s) ms"
    and "view s' = (view s)(SEQUENCER_BATCH_COUNT_KEY \<mapsto> enc (rlp_u64 (ev_rlp ev)) n)" and "length ms < unat n"
  shows "\<exists>s''. get_batch_count (ev_db ev) (ev_rlp ev) s' = (Ok (of_nat (length ms)), s'') \<and> view s'' = view s"
  using tracker_node.repaired_count_eq [OF assms] by metis

theorem batch_count_repaired_witness:
  "\<exists>s''. get_batch_count ref_db ref_rlp
      (AList.update SEQUENCER_BATCH_COUNT_KEY (enc (rlp_u64 ref_rlp) 9) (tr_db busy)) = (Ok 1, s'') \<and>
    map_of s'' = map_of (tr_db busy)"
  using batch_count_repaired [OF ref_tracker, of "tr_db busy" "[first_batch]" _ 9] busy_batches
  by (simp add: update_conv')

text \<open>C36: the search finds the batch a message belongs to: the first one whose metadata count more messages
  than the position, or none when every batch ends at or before it; it always ends.\<close>

theorem finds_batch_of_message:
  assumes "tracker_node ev view cached" and "holds ev view cached t dms ms"
    and "counts_grow ms" and "length ms < 2 ^ 63"
  shows "\<exists>r t'. find_inbox_batch_containing_message ev pos t = (Ok r, t') \<and> tr_db t' = tr_db t \<and>
    (if ms = [] \<or> bm_message_count (last ms) \<le> pos then r = (0, False)
     else \<exists>i. r = (i, True) \<and> holds_message ms pos (unat i))"
proof -
  have "tracker_node.rep ev view cached t dms ms"
    unfolding tracker_node.rep_def [OF assms(1)] by (rule assms(2))
  from tracker_node.find_batch_eq [OF assms(1) this assms(3,4)] show ?thesis by blast
qed

theorem finds_batch_of_message_witness:
  "\<exists>t'. find_inbox_batch_containing_message ref_env 0 busy = (Ok (0, True), t') \<and> tr_db t' = tr_db busy"
  using finds_batch_of_message [OF ref_tracker busy_holds, of 0]
  by (fastforce simp: counts_grow_def first_batch_def holds_message_def unat_eq_zero)

section \<open>Delayed messages\<close>

text \<open>C9: delayed messages that continue the chain of accumulators from a position on are recorded there:
  what was recorded from the position on is replaced, and the batches that had read any of it are
  dropped with their metadata, their marks and their cache entries.\<close>

theorem add_delayed_extends:
  assumes "tracker_node ev view cached" and "holds ev view cached t dms ms" and "msgs \<noteq> []"
    and "unat p \<le> length dms" and "unat p + length msgs < 2 ^ 64 - 1"
    and "chained (ev_keccak ev) (acc_from (ev_keccak ev) 0 (take (unat p) dms)) p msgs"
  shows "\<exists>t'. add_delayed_messages ev msgs None t = (Ok (), t') \<and>
    holds ev view cached t' (take (unat p) dms @ bodies msgs) (kept p ms)"
  using tracker_node.add_delayed_refines [OF assms(1) _ assms(3-6), of t ms] assms(2)
  unfolding tracker_node.rep_def [OF assms(1)] by metis

theorem add_delayed_extends_witness:
  "\<exists>t'. add_delayed_messages ref_env [(0, 0, sample_legacy)] None fresh = (Ok (), t') \<and>
    holds ref_env map_of map_of t' [sample_legacy] []"
  using add_delayed_extends [OF ref_tracker fresh_holds, of "[(0, 0, sample_legacy)]" 0]
  by (simp add: sample_well_formed kept_def)

text \<open>C21: delayed messages that leave a gap, or of which one has another position than the next, another
  accumulator than the messages before it lead to, or a body that does not parse, are refused, and
  nothing is written.\<close>

theorem add_delayed_refused:
  assumes "tracker_node ev view cached" and "holds ev view cached t dms ms" and "msgs \<noteq> []"
    and "fst (hd msgs) = p"
    and "length dms < unat p \<or>
      \<not> chained (ev_keccak ev) (acc_from (ev_keccak ev) 0 (take (unat p) dms)) p msgs"
  shows "\<exists>e. add_delayed_messages ev msgs None t = (Err e, t)"
proof -
  have "tracker_node.rep ev view cached t dms ms"
    unfolding tracker_node.rep_def [OF assms(1)] by (rule assms(2))
  from tracker_node.add_delayed_rejects [OF assms(1) this assms(3-5)] show ?thesis .
qed

theorem add_delayed_refused_witness:
  "\<exists>e. add_delayed_messages ref_env [(0, 1, sample_legacy)] None busy = (Err e, busy)"
  by (rule add_delayed_refused [OF ref_tracker busy_holds _ refl]) simp_all

text \<open>C15: a reorg of the delayed messages to a count keeps the messages below it and the batches that read
  no more than it.\<close>

theorem reorg_delayed_truncates:
  assumes "tracker_node ev view cached" and "holds ev view cached t dms ms" and "unat p \<le> length dms"
  shows "\<exists>t'. reorg_delayed_to ev p t = (Ok (), t') \<and>
    holds ev view cached t' (take (unat p) dms) (takeWhile (\<lambda>m. bm_delayed_message_count m \<le> p) ms)"
  using tracker_node.reorg_delayed_refines [OF assms(1) _ assms(3), of t ms] assms(2)
  unfolding tracker_node.rep_def [OF assms(1)] kept_def by metis

theorem reorg_delayed_truncates_witness:
  "\<exists>t'. reorg_delayed_to ref_env 0 busy = (Ok (), t') \<and> holds ref_env map_of map_of t' [] []"
  using reorg_delayed_truncates [OF ref_tracker busy_holds, of 0] by (simp add: first_batch_def)

section \<open>Batches\<close>

text \<open>C8: batches that are numbered from a position on, continue the chain of batch accumulators there and
  name the accumulators of the delayed messages they read are recorded with their metadata in place
  of the batches from that position on; the log of messages is not touched.\<close>

theorem add_batches_records:
  assumes "tracker_node ev view cached" and "holds ev view cached t dms ms" and "bs \<noteq> []"
    and "unat p \<le> length ms" and "unat p + length bs < 2 ^ 64 - 1"
    and "accepted (ev_keccak ev) dms (accumulator (last_metadata (take (unat p) ms))) p bs"
    and "metadata_of (ev_rlp ev) (ev_brotli ev) (last_metadata (take (unat p) ms)) bs = Ok metas"
    and "ascending (take (unat p) ms @ metas)"
  shows "\<exists>t'. add_sequencer_batches ev bs t = (Ok (), t') \<and>
    holds ev view cached t' dms (take (unat p) ms @ metas) \<and>
    (\<forall>k. stream_key k \<longrightarrow> view (tr_db t') k = view (tr_db t) k)"
  using tracker_node.add_batches_refines [OF assms(1) _ assms(3-8), of t] assms(2)
  unfolding tracker_node.rep_def [OF assms(1)] by metis

lemma sample_metadata:
  "metadata_of ref_rlp Ok no_metadata [sample_batch two_segments 0] =
     Ok [\<lparr>accumulator = 8, bm_message_count = 1, bm_delayed_message_count = 0, parent_chain_block = 7\<rparr>]"
proof -
  have "filter l2_segment two_segments = [[0, 7, 8]]" by (simp add: two_segments_def l2_segment_def)
  then show ?thesis
    using two_segments_known
    by (simp add: parse_sample batch_metadata_def no_metadata_def sat_sub_def)
qed

theorem add_batches_records_witness:
  "\<exists>t'. add_sequencer_batches ref_env [sample_batch two_segments 0] fresh = (Ok (), t') \<and>
    holds ref_env map_of map_of t' []
      [\<lparr>accumulator = 8, bm_message_count = 1, bm_delayed_message_count = 0, parent_chain_block = 7\<rparr>]"
proof -
  have "accumulator no_metadata = 0" by (simp add: no_metadata_def)
  then show ?thesis
    using add_batches_records [OF ref_tracker fresh_holds, of "[sample_batch two_segments 0]" 0] sample_metadata
    by (simp add: last_metadata_def ascending_def) blast
qed

text \<open>C20: batches that leave a gap, are out of order, do not continue the chain of batch accumulators, or
  read delayed messages that are not recorded with the accumulator they name, are refused; nothing
  is written.\<close>

theorem add_batches_refused:
  assumes "tracker_node ev view cached" and "holds ev view cached t dms ms" and "bs \<noteq> []"
    and "sequence_number (hd bs) = p"
    and "length ms < unat p \<or>
      \<not> accepted (ev_keccak ev) dms (accumulator (last_metadata (take (unat p) ms))) p bs"
  shows "\<exists>e t'. add_sequencer_batches ev bs t = (Err e, t') \<and> tr_db t' = tr_db t \<and>
    holds ev view cached t' dms ms"
proof -
  have rep: "tracker_node.rep ev view cached t dms ms"
    unfolding tracker_node.rep_def [OF assms(1)] by (rule assms(2))
  show ?thesis
  proof (cases "length ms < unat p")
    case True
    with tracker_node.add_batches_gap [OF assms(1) rep assms(3)] assms(4) show ?thesis
      unfolding tracker_node.rep_def [OF assms(1)] by metis
  next
    case False
    with tracker_node.add_batches_rejects [OF assms(1) rep assms(3,4)] assms(5) show ?thesis
      unfolding tracker_node.rep_def [OF assms(1)] by (metis linorder_not_less)
  qed
qed

theorem add_batches_refused_witness:
  "\<exists>e t'. add_sequencer_batches ref_env [sample_batch two_segments 1] fresh = (Err e, t') \<and>
    tr_db t' = tr_db fresh \<and> holds ref_env map_of map_of t' [] []"
  by (rule add_batches_refused [OF ref_tracker fresh_holds _ refl]) simp_all

text \<open>C35: a reorg of the batches to a count keeps the first of them, answers how many messages they have,
  and keeps all delayed messages.\<close>

theorem reorg_batches_truncates:
  assumes "tracker_node ev view cached" and "holds ev view cached t dms ms" and "unat p \<le> length ms"
  shows "\<exists>t'. reorg_batches_to_db ev p t = (Ok (bm_message_count (last_metadata (take (unat p) ms))), t') \<and>
    holds ev view cached t' dms (take (unat p) ms)"
  using tracker_node.reorg_batches_refines [OF assms(1) _ assms(3), of t dms] assms(2)
  unfolding tracker_node.rep_def [OF assms(1)] by metis

theorem reorg_batches_truncates_witness:
  "\<exists>t'. reorg_batches_to_db ref_env 0 busy = (Ok 0, t') \<and> holds ref_env map_of map_of t' [sample_legacy] []"
  using reorg_batches_truncates [OF ref_tracker busy_holds, of 0] by (simp add: last_metadata_def no_metadata_def)

section \<open>From batches to messages\<close>

text \<open>C6: a tracker whose last metadata count the messages of the log, handed the next batches, appends
  exactly their messages to the log, records their metadata, and is in step again.\<close>

theorem batches_stream_in_step:
  assumes "tracker_node ev view cached" and "log_rep (ev_rlp ev) (view (tr_db t)) log"
    and "holds ev view cached t dms ms" and "in_step log ms" and "bs \<noteq> []"
    and "length ms = unat (sequence_number (hd bs))"
    and "length ms + length bs < 2 ^ 64 - 1" and "length log + length msgs < 2 ^ 64"
    and "accepted (ev_keccak ev) dms (accumulator (last_metadata ms)) (sequence_number (hd bs)) bs"
    and "parse_batches (ev_rlp ev) (ev_brotli ev) (map batch_bytes bs) = Ok ps"
    and "consistent (last_read log) bs ps"
    and "stream_messages (ev_rlp ev) (ev_brotli ev) (delayed_at dms) ps (last_read log) = Ok msgs"
  shows "\<exists>t' metas. add_sequencer_batches_and_stream ev bs t = (Ok (), t') \<and>
    metadata_of (ev_rlp ev) (ev_brotli ev) (last_metadata ms) bs = Ok metas \<and>
    log_rep (ev_rlp ev) (view (tr_db t')) (log @ map entry msgs) \<and>
    holds ev view cached t' dms (ms @ metas) \<and> in_step (log @ map entry msgs) (ms @ metas)"
proof -
  have rep: "tracker_node.rep ev view cached t dms ms"
    unfolding tracker_node.rep_def [OF assms(1)] by (rule assms(3))
  show ?thesis
    by (rule tracker_node.stream_refines [OF assms(1,2) rep assms(4-12)])
       (use tracker_node.rep_def [OF assms(1)] in blast)
qed

theorem batches_stream_in_step_witness:
  "\<exists>t' metas. add_sequencer_batches_and_stream ref_env [sample_batch two_segments 0] fresh = (Ok (), t') \<and>
    log_rep ref_rlp (map_of (tr_db t')) [entry l2_at_20] \<and> holds ref_env map_of map_of t' [] metas"
proof -
  have "parse_batches ref_rlp Ok (map batch_bytes [sample_batch two_segments 0]) =
      Ok [(sample_seq two_segments 0, Some 6)]"
    using sample_parsed two_segments_known by (simp add: pending_def build_backend_def)
  moreover have "consistent 0 [sample_batch two_segments 0] [(sample_seq two_segments 0, Some 6)]"
    by (simp add: regular_def two_segments_known)
       (simp add: two_segments_def delayed_segment_def message_segment_def segment_kinds)
  ultimately show ?thesis
    using batches_stream_in_step [OF ref_tracker _ fresh_holds,
        of "[]" "[sample_batch two_segments 0]" "[l2_at_20]" "[(sample_seq two_segments 0, Some 6)]"] fresh_log
    by (simp add: in_step_def last_metadata_def no_metadata_def last_read_def two_segments_messages(1)) metis
qed

text \<open>When the log is ahead of the metadata, as a process that stops between the two writes of a
  delivery leaves it, delivering the next batches succeeds and does nothing: the tracker does not
  get past this point by itself.\<close>

theorem batches_skipped_when_ahead:
  assumes "tracker_node ev view cached" and "log_rep (ev_rlp ev) (view (tr_db t)) log"
    and "holds ev view cached t dms ms" and "bs \<noteq> []" and "length ms = unat (sequence_number (hd bs))"
    and "counts_grow ms" and "ms \<noteq> []" and "length ms < 2 ^ 63"
    and "bm_message_count (last ms) < of_nat (length log)"
  shows "\<exists>t'. add_sequencer_batches_and_stream ev bs t = (Ok (), t') \<and> tr_db t' = tr_db t"
proof -
  have rep: "tracker_node.rep ev view cached t dms ms"
    unfolding tracker_node.rep_def [OF assms(1)] by (rule assms(3))
  show ?thesis by (rule tracker_node.stream_skips [OF assms(1,2) rep assms(4-9)]) blast
qed

theorem batches_skipped_when_ahead_witness:
  "\<exists>t'. add_sequencer_batches_and_stream ref_env [(sample_batch two_segments 1)\<lparr>sequence_number := 1\<rparr>] busy =
      (Ok (), t') \<and> tr_db t' = tr_db busy"
  by (rule batches_skipped_when_ahead [OF ref_tracker _ busy_holds, of "map entry sample_msgs"])
     (use busy_log in \<open>simp_all add: counts_grow_def first_batch_def sample_msgs_def\<close>)

text \<open>C16: when the parent chain takes delayed messages back, the batches that read them are dropped, but
  their messages stay in the log, which nothing ever cuts back: the log of a node in step is then ahead
  of its metadata, and delivering the batches that take the place of the dropped ones succeeds and
  does nothing.\<close>

theorem reorg_strands_log:
  assumes "tracker_node ev view cached" and "log_rep (ev_rlp ev) (view (tr_db t)) log"
    and "holds ev view cached t dms ms" and "in_step log ms" and "counts_grow ms" and "length ms < 2 ^ 63"
    and "unat p \<le> length dms" and "kept_ms = takeWhile (\<lambda>m. bm_delayed_message_count m \<le> p) ms"
    and "kept_ms \<noteq> []" and "kept_ms \<noteq> ms"
    and "bs \<noteq> []" and "unat (sequence_number (hd bs)) = length kept_ms"
  shows "\<exists>t' t''. reorg_delayed_to ev p t = (Ok (), t') \<and> log_rep (ev_rlp ev) (view (tr_db t')) log \<and>
    holds ev view cached t' (take (unat p) dms) kept_ms \<and>
    add_sequencer_batches_and_stream ev bs t' = (Ok (), t'') \<and> tr_db t'' = tr_db t'"
proof -
  have rep: "tracker_node.rep ev view cached t dms ms"
    unfolding tracker_node.rep_def [OF assms(1)] by (rule assms(3))
  have kept: "kept_ms = kept p ms" by (simp add: assms(8) kept_def)
  obtain t' where run: "reorg_delayed_to ev p t = (Ok (), t')"
    and rep_kept: "tracker_node.rep ev view cached t' (take (unat p) dms) (kept p ms)"
    and frame: "\<And>k. stream_key k \<Longrightarrow> view (tr_db t') k = view (tr_db t) k"
    by (rule tracker_node.reorg_delayed_refines [OF assms(1) rep assms(7)]) (rule that)
  have rep': "tracker_node.rep ev view cached t' (take (unat p) dms) kept_ms" using rep_kept by (simp only: kept)
  have log: "log_rep (ev_rlp ev) (view (tr_db t')) log" by (rule log_rep_frame [OF assms(2) frame])
  obtain t'' where "add_sequencer_batches_and_stream ev bs t' = (Ok (), t'')" "tr_db t'' = tr_db t'"
    by (rule tracker_node.stranded_skips [OF assms(1) log rep_kept assms(4-6)]) (use assms(9-12) kept in simp_all)
  with run log rep' show ?thesis unfolding tracker_node.rep_def [OF assms(1)] by blast
qed

text \<open>Two batches, the second of which reads the second delayed message.\<close>

definition second_batch :: BatchMetadata where
  "second_batch = \<lparr>accumulator = 6, bm_message_count = 2, bm_delayed_message_count = 2, parent_chain_block = 8\<rparr>"

definition busier :: "(ref_tree, ref_cache) tracker" where
  "busier = \<lparr>tr_db =
      [(DELAYED_MESSAGE_COUNT_KEY, enc (rlp_u64 ref_rlp) 2),
       (db_key RLP_DELAYED_MESSAGE_PREFIX 0, be256 0 @ sample_legacy),
       (db_key RLP_DELAYED_MESSAGE_PREFIX 1, be256 0 @ sample_legacy),
       (SEQUENCER_BATCH_COUNT_KEY, enc (rlp_u64 ref_rlp) 2),
       (db_key SEQUENCER_BATCH_META_PREFIX 0, encode_metadata ref_rlp first_batch),
       (db_key SEQUENCER_BATCH_META_PREFIX 1, encode_metadata ref_rlp second_batch),
       (db_key DELAYED_SEQUENCED_PREFIX 1, enc (rlp_u64 ref_rlp) 0),
       (db_key DELAYED_SEQUENCED_PREFIX 2, enc (rlp_u64 ref_rlp) 1)] @ two_messages,
     tr_cache = []\<rparr>"

lemma busier_log: "log_rep ref_rlp (map_of (tr_db busier)) (map entry sample_msgs)"
  by (rule log_rep_frame [OF two_messages_rep]) (auto simp: busier_def key_simps)

lemma busier_delayed: "delayed_rep ref_rlp (\<lambda>_. 0) (map_of (tr_db busier)) [sample_legacy, sample_legacy]"
proof -
  have "acc_from (\<lambda>_. 0) 0 [sample_legacy] = 0"
    using parse_serialize_legacy [OF sample_legacy] by (simp add: acc_after_def hash_after_def)
  then show ?thesis
    by (auto simp: delayed_rep_def busier_def two_messages_def key_simps sample_well_formed unat_less_2
        not_less_eq_eq simp del: acc_from.simps(2))
qed

lemma busier_batches: "batches_rep ref_rlp (map_of (tr_db busier)) [first_batch, second_batch]"
proof -
  have marks: "prefix DELAYED_SEQUENCED_PREFIX k \<Longrightarrow> map_of (tr_db busier) k \<noteq> None \<Longrightarrow>
      k = db_key DELAYED_SEQUENCED_PREFIX 1 \<or> k = db_key DELAYED_SEQUENCED_PREFIX 2" for k
    by (auto simp: busier_def two_messages_def db_key_def prefixes_eval count_keys_eval split: if_splits)
  have marked: "map_of (tr_db busier) (db_key DELAYED_SEQUENCED_PREFIX d) =
      (if d = 1 then Some (enc (rlp_u64 ref_rlp) 0) else if d = 2 then Some (enc (rlp_u64 ref_rlp) 1) else None)" for d
    by (simp add: busier_def two_messages_def key_simps)
  have cnt: "bm_delayed_message_count first_batch = 1" "bm_delayed_message_count second_batch = 2"
    by (simp_all add: first_batch_def second_batch_def)
  have seq: "sequences [first_batch, second_batch] d j \<longleftrightarrow> j = 0 \<and> d = 1 \<or> j = 1 \<and> d = 2" for d j
    by (auto simp: sequences_def last_delayed_def cnt less_Suc_eq)
  show ?thesis
    using marks marked seq
    by (auto simp: batches_rep_def ascending_def cnt)
       (auto simp: busier_def two_messages_def key_simps unat_less_2)
qed

lemma second_counts:
  "bm_delayed_message_count first_batch = 1" "bm_delayed_message_count second_batch = 2"
  "bm_message_count first_batch = 1" "bm_message_count second_batch = 2"
  by (simp_all add: first_batch_def second_batch_def)

lemma busier_holds: "holds ref_env map_of map_of busier [sample_legacy, sample_legacy] [first_batch, second_batch]"
  using busier_delayed busier_batches by (simp add: inbox_rep_def coherent_def last_delayed_def second_counts) (simp add: busier_def)

lemma busier_in_step: "in_step (map entry sample_msgs) [first_batch, second_batch]"
proof -
  have "last_read (map entry sample_msgs) = 2" by (simp add: last_read_def sample_msgs_def info_def entry_def)
  then show ?thesis by (simp add: in_step_def last_metadata_def second_counts sample_msgs_def)
qed

theorem reorg_strands_log_witness:
  "\<exists>t' t''. reorg_delayed_to ref_env 1 busier = (Ok (), t') \<and>
    log_rep ref_rlp (map_of (tr_db t')) (map entry sample_msgs) \<and>
    holds ref_env map_of map_of t' [sample_legacy] [first_batch] \<and>
    add_sequencer_batches_and_stream ref_env [(sample_batch two_segments 1)\<lparr>sequence_number := 1\<rparr>] t' = (Ok (), t'') \<and>
    tr_db t'' = tr_db t'"
proof -
  have "\<exists>t' t''. reorg_delayed_to ref_env 1 busier = (Ok (), t') \<and>
      log_rep (ev_rlp ref_env) (map_of (tr_db t')) (map entry sample_msgs) \<and>
      holds ref_env map_of map_of t' (take (unat (1 :: u64)) [sample_legacy, sample_legacy]) [first_batch] \<and>
      add_sequencer_batches_and_stream ref_env [(sample_batch two_segments 1)\<lparr>sequence_number := 1\<rparr>] t' = (Ok (), t'') \<and>
      tr_db t'' = tr_db t'"
    by (rule reorg_strands_log [OF ref_tracker _ busier_holds busier_in_step])
       (use busier_log in \<open>simp_all add: counts_grow_def second_counts word_le_nat_alt\<close>)
  then show ?thesis by simp
qed

end
