(* ===== verification/Reader_Props.thy ===== *)
theory Reader_Props
  imports Reader_Correct Tracker_Props
begin

text \<open>
  The properties of the inbox reader: one iteration brings a tracker in step with what the parent
  chain has, or finds that it already is; what an unanswered call or a batch the code cannot read
  does to it; and the pieces an iteration is made of.
\<close>

section \<open>A parent chain that does not change\<close>

definition still :: "'a \<Rightarrow> (unit, 'a) M" where
  "still v = (\<lambda>w. (Ok v, w))"

lemma answers_still [simp]: "answers (still v) v"
  by (simp add: answers_def still_def)

definition unanswered :: "(unit, 'a) M" where
  "unanswered = (\<lambda>w. (Err (Ext ''timeout''), w))"

lemma fails_unanswered [simp]: "fails unanswered"
  by (simp add: fails_def unanswered_def)

text \<open>The messages and batches of such a chain, its height being 100, and a reader of it.\<close>

definition sample_reader ::
    "u64 \<Rightarrow> DelayedInboxMessage list \<Rightarrow> u64 \<Rightarrow> b256 \<Rightarrow> SequencerInboxBatch list \<Rightarrow> bytes \<Rightarrow>
     (ref_tree, ref_cache, unit) InboxReader" where
  "sample_reader dcount dmsgs bcount last_acc bs data =
     \<lparr>rd_env = ref_env,
      delayed_bridge = \<lparr>bridge_message_count = (\<lambda>_. still dcount), bridge_accumulator = (\<lambda>_ _ _. still 0),
        bridge_lookup = (\<lambda>_ _. still dmsgs)\<rparr>,
      sequencer_inbox = \<lparr>inbox_batch_count = (\<lambda>_. still bcount), inbox_accumulator = (\<lambda>_ _. still last_acc),
        inbox_lookup = (\<lambda>_ _. still bs), inbox_message_bytes = (\<lambda>_ _ _ _. still (data, 6, [])),
        inbox_tx_input = (\<lambda>_. still ([], []))\<rparr>,
      l1_reader = \<lparr>last_header = still 100, latest_safe_block_nr = still 0, latest_finalized_block_nr = still 0\<rparr>,
      next_wake = still Tick, first_message_block = 5, rd_config = default_reader_config\<rparr>"

lemma sample_reader_simps [simp]:
  "rd_env (sample_reader dc dl bc ba bs z) = ref_env"
  "bridge_message_count (delayed_bridge (sample_reader dc dl bc ba bs z)) h = still dc"
  "bridge_accumulator (delayed_bridge (sample_reader dc dl bc ba bs z)) q h bh = still 0"
  "bridge_lookup (delayed_bridge (sample_reader dc dl bc ba bs z)) a b = still dl"
  "inbox_batch_count (sequencer_inbox (sample_reader dc dl bc ba bs z)) h = still bc"
  "inbox_accumulator (sequencer_inbox (sample_reader dc dl bc ba bs z)) q h = still ba"
  "inbox_lookup (sequencer_inbox (sample_reader dc dl bc ba bs z)) a b = still bs"
  "inbox_message_bytes (sequencer_inbox (sample_reader dc dl bc ba bs z)) h q tx bh = still (z, 6, [])"
  "last_header (l1_reader (sample_reader dc dl bc ba bs z)) = still 100"
  "rd_config (sample_reader dc dl bc ba bs z) = default_reader_config"
  "first_message_block (sample_reader dc dl bc ba bs z) = 5"
  by (simp_all add: sample_reader_def)

lemma default_config_simps [simp]:
  "read_mode default_reader_config = ''latest''" "delay_blocks default_reader_config = 0"
  "min_blocks_to_read default_reader_config = 1" "max_blocks_to_read default_reader_config = 5000"
  by (simp_all add: default_reader_config_def)

lemma sample_below_head [simp]: "below_head (sample_reader dc dl bc ba bs z) 100 = 100"
  by (simp add: below_head_def)

definition reader_at :: "(ref_tree, ref_cache) tracker \<Rightarrow> (ref_tree, ref_cache, unit) reader_state" where
  "reader_at t = \<lparr>rs_tracker = t, rs_world = (), caught_up = False, last_seen_batch_count = 0, last_read_batch_count = 0\<rparr>"

lemma reader_at_tracker [simp]: "rs_tracker (reader_at t) = t"
  by (simp add: reader_at_def)

definition at_10 :: window where "at_10 = \<lparr>win_from = 10, win_blocks = 200\<rparr>"

lemma at_10_simps [simp]: "win_from at_10 = 10" "win_blocks at_10 = 200"
  by (simp_all add: at_10_def)

section \<open>An iteration\<close>

text \<open>C5: when the chain has more batches, and perhaps more delayed messages, an iteration of the reader
  records the delayed messages of its window, hands the run of batches from the next one on to the
  tracker, and leaves a node in step: the log extended by exactly the messages of these batches, their
  metadata recorded, the window moved past the blocks read and resized by how much there was to read.\<close>

theorem iteration_reads_chain:
  assumes "tracker_node ev view cached" and "rd_env rd = ev"
    and "log_rep (ev_rlp ev) (view (tr_db (rs_tracker s))) log"
    and "holds ev view cached (rs_tracker s) dms ms" and "in_step log ms"
    and "read_mode (rd_config rd) = ''latest''" and "answers (last_header (l1_reader rd)) tip"
    and "sat_add (win_from win) (delay_blocks (rd_config rd) + sat_sub (min_blocks_to_read (rd_config rd)) 1) \<le> tip"
    and "height = below_head rd tip"
    and "from_block = min (win_from win) height" and "to_block = min (sat_add from_block (win_blocks win)) height"
    and "agrees_delayed rd height count dms"
    and "length dms < unat count \<Longrightarrow> answers (bridge_lookup (delayed_bridge rd) from_block to_block) dl"
    and "unat count = length dms \<Longrightarrow> dl = []"
    and "delayed_tuples dl = Ok dmsgs" and "length dms + length dmsgs < 2 ^ 64 - 1"
    and "chained (ev_keccak ev) (acc_from (ev_keccak ev) 0 dms) (of_nat (length dms)) dmsgs"
    and "dms' = dms @ bodies dmsgs"
    and "agrees_batches rd height seen ms" and "length ms < unat seen"
    and "answers (inbox_lookup (sequencer_inbox rd) from_block to_block) found"
    and "list_all2 (gives rd) found ds"
    and "\<And>b. b \<in> set found \<Longrightarrow> unat (after_delayed_count b) \<le> length dms'"
    and "contiguous (of_nat (length ms)) (sort_key sequence_number (map2 filled found ds)) = bs"
    and "bs \<noteq> []" and "length ms = unat (sequence_number (hd bs))"
    and "length ms + length bs < 2 ^ 64 - 1" and "length log + length msgs < 2 ^ 64"
    and "length dl + length bs < 2 ^ 64"
    and "accepted (ev_keccak ev) dms' (accumulator (last_metadata ms)) (sequence_number (hd bs)) bs"
    and "parse_batches (ev_rlp ev) (ev_brotli ev) (map batch_bytes bs) = Ok ps"
    and "consistent (last_read log) bs ps"
    and "stream_messages (ev_rlp ev) (ev_brotli ev) (delayed_at dms') ps (last_read log) = Ok msgs"
  shows "\<exists>s' metas. reader_iteration rd wakes win s =
      (Ok \<lparr>win_from = sat_add to_block 1,
           win_blocks = next_blocks (rd_config rd) (of_nat (length dl) + of_nat (length bs)) (win_blocks win)\<rparr>, s') \<and>
    log_rep (ev_rlp ev) (view (tr_db (rs_tracker s'))) (log @ map entry msgs) \<and>
    holds ev view cached (rs_tracker s') dms' (ms @ metas) \<and> in_step (log @ map entry msgs) (ms @ metas) \<and>
    last_seen_batch_count s' = max seen (sequence_number (last bs) + 1)"
proof -
  have rep: "tracker_node.rep ev view cached (rs_tracker s) dms ms"
    unfolding tracker_node.rep_def [OF assms(1)] by (rule assms(4))
  show ?thesis
    by (rule tracker_node.iteration_reads [OF assms(1,2,3) rep assms(5-22) _ assms(24-33)])
       (use assms(23) tracker_node.rep_def [OF assms(1)] in blast)+
qed

text \<open>An empty tracker, a chain with one delayed message and one batch with two segments that reads it.\<close>

definition chain_delayed :: DelayedInboxMessage where
  "chain_delayed = \<lparr>dim_seq_num = 0, dim_block_hash = 0, dim_before_inbox_acc = 0, dim_message = sample_message,
     dim_parent_chain_block_number = 7\<rparr>"

definition chain_batch :: SequencerInboxBatch where
  "chain_batch = (sample_batch two_segments 1)\<lparr>data_location := 1, serialized := []\<rparr>"

definition chain_data :: bytes where
  "chain_data = 1 # concat (map (enc (rlp_bytes ref_rlp)) two_segments)"

lemma chain_batch_filled:
  "filled chain_batch (chain_data, 6) = (sample_batch two_segments 1)\<lparr>data_location := 1\<rparr>"
  by (simp add: filled_def chain_batch_def chain_data_def sample_batch_def window_header_def posted_def sample_seq_def)

theorem iteration_reads_chain_witness:
  "\<exists>s' metas. reader_iteration (sample_reader 1 [chain_delayed] 1 0 [chain_batch] chain_data) 0 at_10 (reader_at fresh) =
      (Ok \<lparr>win_from = 101, win_blocks = 200\<rparr>, s') \<and>
    log_rep ref_rlp (map_of (tr_db (rs_tracker s'))) [entry l2_at_20, entry sample_delayed_message] \<and>
    holds ref_env map_of map_of (rs_tracker s') [sample_legacy] metas"
proof -
  let ?rd = "sample_reader 1 [chain_delayed] 1 0 [chain_batch] chain_data"
  let ?b = "(sample_batch two_segments 1)\<lparr>data_location := 1\<rparr>"
  have gives: "list_all2 (gives ?rd) [chain_batch] [(chain_data, 6)]"
    by (simp add: chain_batch_def gives_event [where seen = "[]"])
  have tuples: "delayed_tuples [chain_delayed] = Ok [(0, 0, sample_legacy)]"
    by (simp add: chain_delayed_def sample_legacy)
  have run: "contiguous (of_nat (length ([] :: BatchMetadata list)))
      (sort_key sequence_number (map2 filled [chain_batch] [(chain_data, 6)])) = [?b]"
    by (simp add: chain_batch_filled)
  have parse: "parse_batches ref_rlp Ok (map batch_bytes [?b]) = Ok [(sample_seq two_segments 1, Some 6)]"
    using two_segments_known by (simp add: batch_bytes_def parse_sample)
  have cons: "consistent 0 [?b] [(sample_seq two_segments 1, Some 6)]"
    by (simp add: regular_def two_segments_known)
       (simp add: two_segments_def delayed_segment_def message_segment_def segment_kinds)
  have stream: "stream_messages ref_rlp Ok (delayed_at [sample_legacy]) [(sample_seq two_segments 1, Some 6)] 0 =
      Ok [l2_at_20, sample_delayed_message]"
    using sample_stream by (simp add: sample_delayed)
  have zero: "acc_from (\<lambda>_. 0) 0 [sample_legacy] = 0"
    using parse_serialize_legacy [OF sample_legacy] by (simp add: acc_after_def hash_after_def)
  have blocks: "next_blocks default_reader_config (of_nat 1 + of_nat 1) 200 = 200"
    by (simp add: next_blocks_def default_reader_config_def sat_mul_def sat_add_def sat_sub_def)
  have last0: "last_read [] = 0" "accumulator (last_metadata []) = 0"
    by (simp_all add: last_read_def last_metadata_def no_metadata_def)
  have "\<exists>s' metas. reader_iteration ?rd 0 at_10 (reader_at fresh) =
      (Ok \<lparr>win_from = sat_add 100 1, win_blocks = next_blocks (rd_config ?rd)
         (of_nat (length [chain_delayed]) + of_nat (length [?b])) (win_blocks at_10)\<rparr>, s') \<and>
    log_rep (ev_rlp ref_env) (map_of (tr_db (rs_tracker s'))) ([] @ map entry [l2_at_20, sample_delayed_message]) \<and>
    holds ref_env map_of map_of (rs_tracker s') [sample_legacy] ([] @ metas) \<and>
    in_step ([] @ map entry [l2_at_20, sample_delayed_message]) ([] @ metas) \<and>
    last_seen_batch_count s' = max 1 (sequence_number (last [?b]) + 1)"
    by (rule iteration_reads_chain [OF ref_tracker, where dms = "[]" and tip = 100 and height = 100 and from_block = 10
          and count = 1 and dmsgs = "[(0, 0, sample_legacy)]" and found = "[chain_batch]"
          and ds = "[(chain_data, 6)]" and ps = "[(sample_seq two_segments 1, Some 6)]"])
       (use fresh_log fresh_holds gives tuples run parse cons stream zero last0 in
         \<open>simp_all add: in_step_def agrees_delayed_def agrees_batches_def sample_well_formed chain_batch_def
           last_metadata_def no_metadata_def sat_add_def sat_sub_def\<close>)
  then show ?thesis using blocks by (auto simp: sat_add_def)
qed

text \<open>When the counts and the last accumulators of the chain are those of the tracker, an iteration
  changes nothing in the database, goes on above the height with the default window, counts the batches
  as seen and read, and the reader says it has caught up.\<close>

theorem iteration_catches_up:
  assumes "tracker_node ev view cached" and "rd_env rd = ev" and "holds ev view cached (rs_tracker s) dms ms"
    and "read_mode (rd_config rd) = ''latest''" and "answers (last_header (l1_reader rd)) tip"
    and "sat_add (win_from win) (delay_blocks (rd_config rd) + sat_sub (min_blocks_to_read (rd_config rd)) 1) \<le> tip"
    and "agrees_delayed rd (below_head rd tip) (of_nat (length dms)) dms"
    and "agrees_batches rd (below_head rd tip) (of_nat (length ms)) ms"
  shows "\<exists>s'. reader_iteration rd wakes win s =
      (Ok \<lparr>win_from = sat_add (below_head rd tip) 1, win_blocks = default_blocks_to_read (rd_config rd)\<rparr>, s') \<and>
    tr_db (rs_tracker s') = tr_db (rs_tracker s) \<and> holds ev view cached (rs_tracker s') dms ms \<and> caught_up s' \<and>
    last_seen_batch_count s' = of_nat (length ms) \<and> last_read_batch_count s' = of_nat (length ms)"
proof -
  have rep: "tracker_node.rep ev view cached (rs_tracker s) dms ms"
    unfolding tracker_node.rep_def [OF assms(1)] by (rule assms(3))
  show ?thesis
    by (rule tracker_node.iteration_caught_up [OF assms(1,2) rep assms(4-8)])
       (use tracker_node.rep_def [OF assms(1)] in blast)
qed

lemma busy_acc: "acc_from (\<lambda>_. 0) 0 [sample_legacy] = 0"
  using parse_serialize_legacy [OF sample_legacy] by (simp add: acc_after_def hash_after_def)

lemma busy_agrees:
  "agrees_delayed (sample_reader 1 dl bc 5 bs z) h 1 [sample_legacy]"
  "bc \<noteq> 0 \<Longrightarrow> agrees_batches (sample_reader dc dl bc 5 bs z) h bc [first_batch]"
  using busy_acc
  by (simp_all add: agrees_delayed_def agrees_batches_def first_batch_def Suc_le_eq unat_gt_0)

theorem iteration_catches_up_witness:
  "\<exists>s'. reader_iteration (sample_reader 1 [] 1 5 [] []) 0 at_10 (reader_at busy) =
      (Ok \<lparr>win_from = 101, win_blocks = 200\<rparr>, s') \<and> tr_db (rs_tracker s') = tr_db busy \<and> caught_up s'"
proof -
  have "\<exists>s'. reader_iteration (sample_reader 1 [] 1 5 [] []) 0 at_10 (reader_at busy) =
      (Ok \<lparr>win_from = sat_add (below_head (sample_reader 1 [] 1 5 [] []) 100) 1,
           win_blocks = default_blocks_to_read (rd_config (sample_reader 1 [] 1 5 [] []))\<rparr>, s') \<and>
    tr_db (rs_tracker s') = tr_db (rs_tracker (reader_at busy)) \<and>
    holds ref_env map_of map_of (rs_tracker s') [sample_legacy] [first_batch] \<and> caught_up s' \<and>
    last_seen_batch_count s' = of_nat (length [first_batch]) \<and> last_read_batch_count s' = of_nat (length [first_batch])"
    by (rule iteration_catches_up [OF ref_tracker])
       (use busy_holds busy_agrees in \<open>simp_all add: sat_add_def sat_sub_def\<close>)
  then show ?thesis by (auto simp: sat_add_def default_reader_config_def)
qed

text \<open>C22: a chain that does not answer how many delayed messages there are is read as one that has none:
  the reader drops every delayed message it has recorded, and every batch that read any of them.\<close>

theorem unanswered_count_drops:
  assumes "tracker_node ev view cached" and "rd_env rd = ev" and "holds ev view cached (rs_tracker s) dms ms"
    and "fails (bridge_message_count (delayed_bridge rd) height)"
  shows "\<exists>s'. check_delayed rd height s = (Ok (False, False), s') \<and>
    holds ev view cached (rs_tracker s') [] (takeWhile (\<lambda>m. bm_delayed_message_count m = 0) ms)"
proof -
  have rep: "tracker_node.rep ev view cached (rs_tracker s) dms ms"
    unfolding tracker_node.rep_def [OF assms(1)] by (rule assms(3))
  show ?thesis
    by (rule tracker_node.check_delayed_unanswered [OF assms(1,2) rep assms(4)])
       (use tracker_node.rep_def [OF assms(1)] in \<open>simp add: kept_def\<close>)
qed

definition mute_reader :: "(ref_tree, ref_cache, unit) InboxReader" where
  "mute_reader = (sample_reader 1 [] 1 5 [] [])\<lparr>delayed_bridge := \<lparr>bridge_message_count = (\<lambda>_. unanswered),
     bridge_accumulator = (\<lambda>_ _ _. still 0), bridge_lookup = (\<lambda>_ _. still [])\<rparr>\<rparr>"

theorem unanswered_count_drops_witness:
  "\<exists>s'. check_delayed mute_reader 100 (reader_at busy) = (Ok (False, False), s') \<and>
    holds ref_env map_of map_of (rs_tracker s') [] []"
proof -
  have "holds ref_env map_of map_of (rs_tracker (reader_at busy)) [sample_legacy] [first_batch]"
    using busy_holds by simp
  from unanswered_count_drops [OF ref_tracker _ this, of mute_reader 100] show ?thesis
    by (simp add: mute_reader_def first_batch_def)
qed

text \<open>One batch whose data are in blobs, or at a place the code does not know, ends the reader: the
  iteration fails, none of the batches found with it is recorded, and the loop does not go on.\<close>

theorem blob_batch_ends_reader:
  assumes "tracker_node ev view cached" and "rd_env rd = ev" and "holds ev view cached (rs_tracker s) dms ms"
    and "read_mode (rd_config rd) = ''latest''" and "answers (last_header (l1_reader rd)) tip"
    and "sat_add (win_from win) (delay_blocks (rd_config rd) + sat_sub (min_blocks_to_read (rd_config rd)) 1) \<le> tip"
    and "height = below_head rd tip"
    and "from_block = min (win_from win) height" and "to_block = min (sat_add from_block (win_blocks win)) height"
    and "agrees_delayed rd height (of_nat (length dms)) dms"
    and "agrees_batches rd height seen ms" and "length ms < unat seen"
    and "answers (inbox_lookup (sequencer_inbox rd) from_block to_block) (good @ b # rest)"
    and "list_all2 (gives rd) good ds" and "unat (data_location b) > 2"
  shows "\<exists>e s'. reader_iterations rd wakes (Suc n) win s = (Err e, s') \<and>
    tr_db (rs_tracker s') = tr_db (rs_tracker s) \<and> holds ev view cached (rs_tracker s') dms ms"
proof -
  have rep: "tracker_node.rep ev view cached (rs_tracker s) dms ms"
    unfolding tracker_node.rep_def [OF assms(1)] by (rule assms(3))
  obtain e s' where "reader_iteration rd wakes win s = (Err e, s')"
    and s': "tr_db (rs_tracker s') = tr_db (rs_tracker s)" "tracker_node.rep ev view cached (rs_tracker s') dms ms"
    by (rule tracker_node.iteration_blob [OF assms(1,2) rep assms(4-15)])
  then have "reader_iterations rd wakes (Suc n) win s = (Err e, s')" by (simp add: bindM_err)
  with s' show ?thesis using tracker_node.rep_def [OF assms(1)] by blast
qed

definition blob_batch :: SequencerInboxBatch where
  "blob_batch = chain_batch\<lparr>data_location := 3, sequence_number := 1\<rparr>"

theorem blob_batch_ends_reader_witness:
  "\<exists>e s'. reader_iterations (sample_reader 1 [] 2 5 [chain_batch, blob_batch] chain_data) 0 7 at_10 (reader_at busy) =
      (Err e, s') \<and> tr_db (rs_tracker s') = tr_db busy"
proof -
  let ?rd = "sample_reader 1 [] 2 5 [chain_batch, blob_batch] chain_data"
  have gives: "list_all2 (gives ?rd) [chain_batch] [(chain_data, 6)]"
    by (simp add: chain_batch_def gives_event [where seen = "[]"])
  have "\<exists>e s'. reader_iterations ?rd 0 (Suc 6) at_10 (reader_at busy) = (Err e, s') \<and>
    tr_db (rs_tracker s') = tr_db (rs_tracker (reader_at busy)) \<and>
    holds ref_env map_of map_of (rs_tracker s') [sample_legacy] [first_batch]"
    by (rule blob_batch_ends_reader [OF ref_tracker, where tip = 100 and height = 100 and from_block = 10
          and to_block = 100 and good = "[chain_batch]" and b = blob_batch and rest = "[]" and seen = 2
          and ds = "[(chain_data, 6)]"])
       (use busy_holds busy_agrees gives in \<open>simp_all add: sat_add_def sat_sub_def blob_batch_def\<close>)
  then show ?thesis by (auto simp: numeral_eq_Suc)
qed

section \<open>The pieces\<close>

text \<open>Of the batches found, the reader hands over the run from the expected number on: consecutive
  numbers starting with it, all of them found, and the number after the run is not among those found.\<close>

theorem run_of_batches:
  assumes "unat e + length bs < 2 ^ 64" and "run = contiguous e (sort_key sequence_number bs)"
  shows "map (unat \<circ> sequence_number) run = [unat e ..< unat e + length run] \<and> set run \<subseteq> set bs \<and>
    (\<forall>b \<in> set bs. unat (sequence_number b) \<noteq> unat e + length run)"
  using contiguous_numbers [of e "sort_key sequence_number bs"] contiguous_subset [of e "sort_key sequence_number bs"]
    contiguous_maximal [of "sort_key sequence_number bs" e] assms
  by simp

theorem run_of_batches_witness:
  "map (unat \<circ> sequence_number) (contiguous 0 (sort_key sequence_number [blob_batch, chain_batch])) = [0, 1]"
proof -
  have "length (contiguous 0 (sort_key sequence_number [blob_batch, chain_batch])) = 2"
    by (simp add: blob_batch_def chain_batch_def sat_add_def)
  then show ?thesis
    using run_of_batches [of 0 "[blob_batch, chain_batch]", OF _ refl] by (simp add: upt_rec)
qed

text \<open>The pieces of a window: reading starts at the height found or below it, and, at the head of the chain, not
  beyond the block asked for, the height being the first message block or above; a step back for a reorg goes
  back no further than asked and not below the first message block; the size of the next window is within
  the configured bounds.  (\<open>Reader_Windows\<close> puts these together for whole runs.)\<close>

theorem windows_bounded:
  assumes "await_height rd wakes from_block s = (Ok (height, start), s')"
    and "get_prev_block_for_reorg rd from_block n = Ok prev"
    and "min_blocks_to_read (rd_config rd) \<le> max_blocks_to_read (rd_config rd)"
  shows "start \<le> height \<and>
    (if read_mode (rd_config rd) = ''latest'' then start \<le> from_block \<and> first_message_block rd \<le> height
     else start < height) \<and>
    first_message_block rd \<le> prev \<and> prev \<le> from_block \<and> unat from_block - unat prev \<le> unat n \<and>
    min_blocks_to_read (rd_config rd) \<le> next_blocks (rd_config rd) msgs blocks \<and>
    next_blocks (rd_config rd) msgs blocks \<le> max_blocks_to_read (rd_config rd)"
  using await_height_bounds [OF assms(1)] get_prev_block_back [OF assms(2)] next_blocks_between [OF assms(3)]
  by simp

theorem windows_bounded_witness:
  "next_blocks default_reader_config 0 4900 \<le> 5000 \<and> (5 :: u64) \<le> 7 \<and>
    fst (await_height (sample_reader 1 [] 1 5 [] []) 0 10 (reader_at fresh)) = Ok (100, 10)"
proof -
  let ?rd = "sample_reader 1 [] 1 5 [] []"
  obtain w where w: "await_height ?rd 0 10 (reader_at fresh) =
      (Ok (below_head ?rd 100, min 10 (below_head ?rd 100)), (reader_at fresh)\<lparr>rs_world := w\<rparr>)"
    by (rule await_height_ready [of ?rd 100 10 0 "reader_at fresh"]) (simp_all add: sat_add_def sat_sub_def)
  have "get_prev_block_for_reorg ?rd 10 3 = Ok 7"
    by (simp add: get_prev_block_for_reorg_def sat_sub_def)
  from windows_bounded [OF w this] show ?thesis using w by simp
qed

text \<open>The bytes of a batch in the call data of its transaction, the words of which are the sequence
  number, the offset 192 of the bytes, and four more before them: they are found when the sequence
  number cannot itself be an offset into the data; but for sequence number 0 the data are empty.\<close>

theorem call_data_bytes:
  assumes "length mid = 128" and "params = be256 (ucast seqno) @ be256 192 @ mid @
      be256 (of_nat (length payload)) @ payload @ padding"
    and "length params < 2 ^ 64"
  shows "(length params < unat (seqno :: u64) + 32 \<longrightarrow> unat seqno + 32 < 2 ^ 64 \<longrightarrow>
      find_dynamic (length params div 32) 0 params = Ok (Some payload)) \<and>
    (seqno = 0 \<longrightarrow> find_dynamic (length params div 32) 0 params = Ok (Some []))"
proof -
  have len: "length params = 224 + length payload + length padding" using assms(1,2) by simp
  then have words: "length params div 32 = Suc (Suc ((160 + length payload + length padding) div 32))" by simp
  have w0: "b256_at_word params (0 * 32) = Ok (ucast seqno)"
    using word_at [of "be256 (ucast seqno)" "[]"] assms(2) by simp
  have w1: "b256_at_word params (1 * 32) = Ok 192"
    using word_at [of "be256 192" "be256 (ucast seqno)"] assms(2) by simp
  have u: "unat (ucast seqno :: 256 word) = unat seqno" using unat_lt64 [of seqno] by (simp add: unsigned_ucast_eq take_bit_nat_eq_self del: unat_lt64)
  show ?thesis
  proof (intro conjI impI)
    assume "length params < unat seqno + 32" "unat seqno + 32 < 2 ^ 64"
    then have "find_dynamic (length params div 32) 0 params =
        find_dynamic (Suc ((160 + length payload + length padding) div 32)) 1 params"
      unfolding words using find_dynamic_skip [OF w0, of "Suc ((160 + length payload + length padding) div 32)"]
      by (simp add: u del: find_dynamic.simps)
    also have "\<dots> = Ok (Some payload)"
      by (rule find_dynamic_hit [OF w1]) (use assms len in simp_all)
    finally show "find_dynamic (length params div 32) 0 params = Ok (Some payload)" .
  next
    assume "seqno = 0"
    then show "find_dynamic (length params div 32) 0 params = Ok (Some [])"
      unfolding words using find_dynamic_hit [OF w0, of "[]" "Suc ((160 + length payload + length padding) div 32)"]
        assms(2,3) len by simp
  qed
qed

theorem call_data_bytes_witness:
  "find_dynamic 8 0 (be256 1000 @ be256 192 @ replicate 128 0 @ be256 2 @ [5, 6] @ replicate 30 0) = Ok (Some [5, 6]) \<and>
   find_dynamic 8 0 (be256 0 @ be256 192 @ replicate 128 0 @ be256 2 @ [5, 6] @ replicate 30 0) = Ok (Some [])"
  using call_data_bytes [of "replicate 128 0" _ 1000 "[5, 6]" "replicate 30 0", OF _ refl]
    call_data_bytes [of "replicate 128 0" _ 0 "[5, 6]" "replicate 30 0", OF _ refl]
  by simp

text \<open>The safe message count is the count of the last batch posted at or below the safe block, and zero
  when there is none.\<close>

theorem safe_messages:
  assumes "tracker_node ev view cached" and "rd_env rd = ev" and "holds ev view cached (rs_tracker s) dms ms"
    and "answers (latest_safe_block_nr (l1_reader rd)) b"
  shows "\<exists>s'. get_safe_msg_count rd s =
      (Ok (case filter (\<lambda>m. parent_chain_block m \<le> b) ms of [] \<Rightarrow> 0 | xs \<Rightarrow> bm_message_count (last xs)), s') \<and>
    tr_db (rs_tracker s') = tr_db (rs_tracker s)"
proof -
  obtain w where w: "on_chain (latest_safe_block_nr (l1_reader rd)) s = (Ok b, s\<lparr>rs_world := w\<rparr>)"
    by (rule answers_on_chain [OF assms(4)])
  have rep: "tracker_node.rep ev view cached (rs_tracker (s\<lparr>rs_world := w\<rparr>)) dms ms"
    unfolding tracker_node.rep_def [OF assms(1)] using assms(3) by simp
  from tracker_node.recent_parent_chain_block_to_msg_eq [OF assms(1,2) rep, of b] w show ?thesis
    by (auto simp: get_safe_msg_count_def bindM_ok quiet_def)
qed

theorem safe_messages_witness:
  "\<exists>s'. get_safe_msg_count ((sample_reader 1 [] 1 5 [] [])\<lparr>l1_reader :=
      \<lparr>last_header = still 100, latest_safe_block_nr = still 7, latest_finalized_block_nr = still 0\<rparr>\<rparr>) (reader_at busy) =
    (Ok 1, s')"
proof -
  have "holds ref_env map_of map_of (rs_tracker (reader_at busy)) [sample_legacy] [first_batch]"
    using busy_holds by simp
  from safe_messages [OF ref_tracker _ this, of "(sample_reader 1 [] 1 5 [] [])\<lparr>l1_reader :=
      \<lparr>last_header = still 100, latest_safe_block_nr = still 7, latest_finalized_block_nr = still 0\<rparr>\<rparr>" 7]
  show ?thesis by (auto simp: first_batch_def)
qed

end
