(* ===== verification/Chain_Props.thy ===== *)
theory Chain_Props
  imports Chain_Run Reader_Props
begin

text \<open>
  The properties of a node that follows its parent chain: whatever the calls and restarts that got it
  there, what it stores is determined by what the chain said; and the streamer's loop executes all of
  the log.
\<close>

section \<open>Following\<close>

text \<open>C1: a node that starts with an empty database and is handed the delayed messages and batches of a
  parent chain, in pieces of any size, with executions that succeed or fail and restarts in between,
  stores at every point exactly the log of the batches' messages, the delayed messages with their
  accumulators and the metadata of the batches, in step with each other, and results for a part of
  the log.\<close>

theorem node_follows_chain:
  assumes "tracker_node ev view cached" and "view s0 = Map.empty" and "cached c0 = Map.empty"
    and "initialize (ev_db ev) (ev_rlp ev) s0 = (Ok (), s)"
    and "head_message_index X = (\<lambda>s x. reth_head_message_index (ev_db ev) (ev_rlp ev) s)"
    and "node_run ev X c0 (\<lparr>tr_db = s, tr_cache = c0\<rparr>, x0) ds bs (t, x)" and "honest ev ds bs msgs"
  shows "follows ev view cached t ds bs msgs"
  using tracker_node.run_follows [OF assms(1,5,3) tracker_node.start_follows [OF assms(1-4)] assms(6,7)] by simp

text \<open>A chain with one delayed message and one batch of two segments.\<close>

abbreviation small_ds :: "delayed_msg list" where "small_ds \<equiv> [(0, 0, sample_legacy)]"

abbreviation small_bs :: "SequencerInboxBatch list" where "small_bs \<equiv> [sample_batch two_segments 1]"

abbreviation small_engine :: "(ref_tree, unit engine_state) exec_engine" where
  "small_engine \<equiv> reth_engine ref_db ref_rlp eager_engine"

lemma small_honest: "honest ref_env small_ds small_bs [l2_at_20, sample_delayed_message]"
proof -
  have parse: "parse_batches ref_rlp Ok (map batch_bytes small_bs) = Ok [(sample_seq two_segments 1, Some 6)]"
    using two_segments_known by (simp add: batch_bytes_def parse_sample)
  have cons: "consistent 0 small_bs [(sample_seq two_segments 1, Some 6)]"
    by (simp add: regular_def two_segments_known)
       (simp add: two_segments_def delayed_segment_def message_segment_def segment_kinds)
  have stream: "stream_messages ref_rlp Ok (delayed_at [sample_legacy]) [(sample_seq two_segments 1, Some 6)] 0 =
      Ok [l2_at_20, sample_delayed_message]"
    using sample_stream by (simp add: sample_delayed)
  show ?thesis
    using parse cons stream busy_acc by (simp add: honest_def sample_well_formed)
qed

lemma small_run:
  "\<exists>st. node_run ref_env small_engine [] st0 small_ds small_bs st"
proof -
  let ?X = small_engine
  obtain t0 x0 where st0: "st0 = (t0, x0)" by (cases st0)
  let ?t1 = "snd (add_delayed_messages ref_env small_ds None t0)"
  let ?t2 = "\<lparr>tr_db = snd (initialize ref_db ref_rlp (tr_db ?t1)), tr_cache = []\<rparr>"
  let ?t3 = "snd (add_sequencer_batches_and_stream ref_env small_bs ?t2)"
  obtain s x where exec: "snd (execute_next_msg ref_db ref_rlp ?X (tr_db ?t3, x0)) = (s, x)" by fastforce
  have "node_run ref_env ?X [] st0 small_ds [] (?t1, x0)"
    using node_run.delayed [OF node_run.start [of ref_env ?X "[]" st0, unfolded st0], of small_ds] st0 by simp
  from node_run.restart [OF this, of x0] have "node_run ref_env ?X [] st0 small_ds [] (?t2, x0)" by simp
  from node_run.batches [OF this, of small_bs] have "node_run ref_env ?X [] st0 small_ds small_bs (?t3, x0)"
    by (simp add: reads_within_def)
  from node_run.execute [OF this] exec show ?thesis by auto
qed

theorem node_follows_chain_witness:
  "\<exists>st. node_run ref_env small_engine [] (\<lparr>tr_db = snd (initialize ref_db ref_rlp []), tr_cache = []\<rparr>, sample_state)
      small_ds small_bs st \<and>
    follows ref_env map_of map_of (fst st) small_ds small_bs [l2_at_20, sample_delayed_message]"
proof -
  obtain s where init: "initialize ref_db ref_rlp [] = (Ok (), s)" by (rule ref_node.fresh_rep [of "[]" "[]"]) auto
  obtain t x where run: "node_run ref_env small_engine [] (\<lparr>tr_db = s, tr_cache = []\<rparr>, sample_state) small_ds small_bs (t, x)"
    using small_run by fastforce
  have init': "initialize (ev_db ref_env) (ev_rlp ref_env) [] = (Ok (), s)" using init by simp
  have "follows ref_env map_of map_of t small_ds small_bs [l2_at_20, sample_delayed_message]"
    by (rule node_follows_chain [OF ref_tracker _ _ init' _ run small_honest]) (simp_all add: reth_engine_def)
  with run show ?thesis by (auto simp: init)
qed

text \<open>\<open>grown ev view cached E ds bs t\<close>: some run with the engine \<open>E\<close> from an empty database that was handed
  \<open>ds\<close> and \<open>bs\<close> led to \<open>t\<close>.\<close>

definition grown ::
    "('db, 'c) env \<Rightarrow> ('db \<Rightarrow> bytes \<rightharpoonup> bytes) \<Rightarrow> ('c \<Rightarrow> u64 \<rightharpoonup> BatchMetadata) \<Rightarrow>
     'w RethExecEngine \<Rightarrow> delayed_msg list \<Rightarrow> SequencerInboxBatch list \<Rightarrow> ('db, 'c) tracker \<Rightarrow> bool" where
  "grown ev view cached E ds bs t \<longleftrightarrow> (\<exists>s0 s c0 x0 x.
     view s0 = Map.empty \<and> cached c0 = Map.empty \<and> initialize (ev_db ev) (ev_rlp ev) s0 = (Ok (), s) \<and>
     node_run ev (reth_engine (ev_db ev) (ev_rlp ev) E) c0 (\<lparr>tr_db = s, tr_cache = c0\<rparr>, x0) ds bs (t, x))"

lemma grown_follows:
  assumes "tracker_node ev view cached" and "grown ev view cached E ds bs t" and "honest ev ds bs msgs"
  shows "follows ev view cached t ds bs msgs"
proof -
  obtain s0 s c0 x0 x where run: "view s0 = Map.empty" "cached c0 = Map.empty"
      "initialize (ev_db ev) (ev_rlp ev) s0 = (Ok (), s)"
      "node_run ev (reth_engine (ev_db ev) (ev_rlp ev) E) c0 (\<lparr>tr_db = s, tr_cache = c0\<rparr>, x0) ds bs (t, x)"
    using assms(2) by (auto simp: grown_def)
  have "follows ev view cached (fst (t, x)) ds bs msgs"
    by (rule tracker_node.run_follows [OF assms(1) _ run(2) _ run(4) assms(3)])
       (simp_all only: reth_engine_def exec_engine.simps tracker_node.start_follows [OF assms(1) run(1-3)])
  then show ?thesis by simp
qed

text \<open>C2: two nodes that were handed the same delayed messages and batches answer alike, whatever the
  pieces, the order of their executions and restarts, their databases, caches and engines: the number of
  messages, each message, delayed message, delayed accumulator and batch metadata, errors included.\<close>

theorem nodes_agree:
  assumes "tracker_node ev view cached" and "tracker_node ev' view' cached'"
    and "ev_rlp ev' = ev_rlp ev" and "ev_keccak ev' = ev_keccak ev" and "ev_brotli ev' = ev_brotli ev"
    and "grown ev view cached E ds bs t" and "grown ev' view' cached' E' ds bs t'" and "honest ev ds bs msgs"
  shows "get_message_count (ev_db ev') (ev_rlp ev') (tr_db t') = get_message_count (ev_db ev) (ev_rlp ev) (tr_db t) \<and>
    get_message (ev_db ev') (ev_rlp ev') (tr_db t') i = get_message (ev_db ev) (ev_rlp ev) (tr_db t) i \<and>
    get_delayed_message (ev_db ev') (tr_db t') i = get_delayed_message (ev_db ev) (tr_db t) i \<and>
    get_delayed_acc (ev_db ev') (ev_keccak ev') (tr_db t') i = get_delayed_acc (ev_db ev) (ev_keccak ev) (tr_db t) i \<and>
    fst (get_batch_metadata ev' i t') = fst (get_batch_metadata ev i t)"
proof -
  have "honest ev' ds bs msgs" using assms(8) by (simp only: honest_def assms(3-5))
  then have f': "follows ev' view' cached' t' ds bs msgs" by (rule grown_follows [OF assms(2,7)])
  have f: "follows ev view cached t ds bs msgs" by (rule grown_follows [OF assms(1,6,8)])
  then obtain metas where m: "metadata_of (ev_rlp ev) (ev_brotli ev) no_metadata bs = Ok metas"
    by (auto simp: follows_def in_sync_def)
  then have m': "metadata_of (ev_rlp ev') (ev_brotli ev') no_metadata bs = Ok metas"
    using assms(3,5) by simp
  show ?thesis
    using tracker_node.follows_reads [OF assms(1) f m] tracker_node.follows_reads [OF assms(2) f' m'] assms(4)
    by simp
qed

theorem nodes_agree_witness:
  "\<exists>t x. node_run ref_env small_engine []
      (\<lparr>tr_db = snd (initialize ref_db ref_rlp []), tr_cache = []\<rparr>, sample_state) small_ds small_bs (t, x) \<and>
    get_message ref_db ref_rlp (tr_db (snd (add_sequencer_batches_and_stream ref_env small_bs
      (snd (add_delayed_messages ref_env small_ds None \<lparr>tr_db = snd (initialize ref_db ref_rlp []), tr_cache = []\<rparr>))))) 1 =
    get_message ref_db ref_rlp (tr_db t) 1"
proof -
  obtain s where init: "initialize ref_db ref_rlp [] = (Ok (), s)" by (rule ref_node.fresh_rep [of "[]" "[]"]) auto
  let ?st = "(\<lparr>tr_db = s, tr_cache = []\<rparr>, sample_state)"
  have grown: "grown ref_env map_of map_of eager_engine small_ds small_bs t"
    if "node_run ref_env small_engine [] ?st small_ds small_bs (t, x)" for t x
    unfolding grown_def using that init by (auto intro!: exI [of _ "[]"])
  obtain t x where run: "node_run ref_env small_engine [] ?st small_ds small_bs (t, x)"
    using small_run by fastforce
  have "node_run ref_env small_engine [] ?st ([] @ small_ds) [] (snd (add_delayed_messages ref_env small_ds None (fst ?st)), sample_state)"
    by (rule node_run.delayed) (simp_all add: node_run.start)
  then have "node_run ref_env small_engine [] ?st small_ds ([] @ small_bs)
      (snd (add_sequencer_batches_and_stream ref_env small_bs (snd (add_delayed_messages ref_env small_ds None (fst ?st)))), sample_state)"
    by (intro node_run.batches) (simp_all add: reads_within_def)
  then have "grown ref_env map_of map_of eager_engine small_ds small_bs
      (snd (add_sequencer_batches_and_stream ref_env small_bs (snd (add_delayed_messages ref_env small_ds None (fst ?st)))))"
    by (intro grown) simp
  from nodes_agree [OF ref_tracker ref_tracker refl refl refl grown [OF run] this small_honest, of 1]
  have "get_message ref_db ref_rlp (tr_db (snd (add_sequencer_batches_and_stream ref_env small_bs
      (snd (add_delayed_messages ref_env small_ds None (fst ?st)))))) 1 = get_message ref_db ref_rlp (tr_db t) 1"
    by (simp only: ref_env_simps simp_thms)
  with run have "node_run ref_env small_engine [] ?st small_ds small_bs (t, x) \<and>
      get_message ref_db ref_rlp (tr_db (snd (add_sequencer_batches_and_stream ref_env small_bs
        (snd (add_delayed_messages ref_env small_ds None (fst ?st)))))) 1 = get_message ref_db ref_rlp (tr_db t) 1"
    by (rule conjI)
  then show ?thesis unfolding init fst_conv snd_conv by blast
qed

section \<open>Executing the log\<close>

text \<open>C12: the streamer's loop outlasts errors: with an engine that fails at most \<open>f\<close> times and never panics,
  \<open>n\<close> rounds return, give results to all the messages waiting or at least to \<open>n - f\<close> of them, one after
  the other and never more than there are, and leave the log and the results there were as they are.\<close>

theorem streamer_catches_up:
  assumes "node_store R D view" and "log_rep R (view s) log" and "results_rep R (view s) rs"
    and "length rs \<le> length log" and "length log < 2 ^ 64 - 1"
    and "head_message_index X = (\<lambda>s x. reth_head_message_index D R s)" and "faulty X faults"
  shows "\<exists>s' x' rs'. start_streamer D R X n (s, x) = (Ok (), (s', x')) \<and> log_rep R (view s') log \<and>
      results_rep R (view s') (rs @ rs') \<and> length (rs @ rs') \<le> length log \<and>
      min (length log) (length rs + (n - faults x)) \<le> length (rs @ rs')"
  by (rule node_store.start_streamer_results [OF assms(1,6,7,5,2,3,4)])

text \<open>An engine that fails as often as its state says.\<close>

definition flaky_engine :: "(ref_tree, nat) exec_engine" where
  "flaky_engine =
     \<lparr>head_message_index = (\<lambda>s x. reth_head_message_index ref_db ref_rlp s),
      digest_message = (\<lambda>s i m p x. case x of
         0 \<Rightarrow> (Ok \<lparr>res_block_hash = 1, send_root = 2\<rparr>, 0) | Suc f \<Rightarrow> (Err (Ext ''busy''), f))\<rparr>"

theorem streamer_catches_up_witness:
  "\<exists>s' x' rs'. start_streamer ref_db ref_rlp flaky_engine 3 (two_messages, 1) = (Ok (), (s', x')) \<and>
    results_rep ref_rlp (map_of s') rs' \<and> length rs' = 2"
proof -
  have "faulty flaky_engine id" by (simp add: faulty_def flaky_engine_def split: nat.split)
  moreover have "head_message_index flaky_engine = (\<lambda>s x. reth_head_message_index ref_db ref_rlp s)"
    by (simp add: flaky_engine_def)
  ultimately obtain s' x' rs' where r: "start_streamer ref_db ref_rlp flaky_engine 3 (two_messages, 1) = (Ok (), (s', x'))"
      "results_rep ref_rlp (map_of s') ([] @ rs')" "length ([] @ rs') \<le> length (map entry sample_msgs)"
      "min (length (map entry sample_msgs)) (length ([] :: MessageResult list) + (3 - id 1)) \<le> length ([] @ rs')"
    using streamer_catches_up [OF Streamer_Props.ref_node two_messages_rep two_messages_no_results, of flaky_engine id 3 1]
    by (auto simp: sample_msgs_def)
  then show ?thesis by (intro exI [of _ s'] exI [of _ x'] exI [of _ rs']) (simp add: sample_msgs_def)
qed

end
