(* ===== verification/Reader_Run.thy ===== *)
theory Reader_Run
  imports Chain_Run Reader_Correct
begin

text \<open>
  The reader on a parent chain that stands still: window by window it reads all of it.  The chain has
  delayed messages and batches in blocks, and answers every question about them.
\<close>

section \<open>Messages and batches by blocks\<close>

abbreviation dblock :: "DelayedInboxMessage \<Rightarrow> u64" where "dblock \<equiv> dim_parent_chain_block_number"

type_synonym posted_batch = "SequencerInboxBatch \<times> bytes \<times> b256"

abbreviation bblock :: "posted_batch \<Rightarrow> u64" where "bblock p \<equiv> parent_chain_block_number (fst p)"

definition tuple_of :: "DelayedInboxMessage \<Rightarrow> delayed_msg" where
  "tuple_of d = (dim_seq_num d, dim_before_inbox_acc d,
     case serialize_incoming_l1_message_legacy (dim_message d) of Ok b \<Rightarrow> b | _ \<Rightarrow> [])"

definition serializable :: "DelayedInboxMessage \<Rightarrow> bool" where
  "serializable d \<longleftrightarrow> (\<exists>b. serialize_incoming_l1_message_legacy (dim_message d) = Ok b)"

abbreviation with_data :: "posted_batch \<Rightarrow> SequencerInboxBatch" where "with_data p \<equiv> filled (fst p) (snd p)"

lemma delayed_tuples_eq: "list_all serializable xs \<Longrightarrow> delayed_tuples xs = Ok (map tuple_of xs)"
  by (induction xs) (auto simp: serializable_def tuple_of_def)

lemma map2_filled: "map2 filled (map fst ps) (map snd ps) = map with_data ps"
  by (induction ps) (simp_all add: split_beta)

lemma filled_simps [simp]:
  "after_inbox_acc (filled b d) = after_inbox_acc b" "after_delayed_count (filled b d) = after_delayed_count b"
  by (simp_all add: filled_def)

abbreviation before :: "('a \<Rightarrow> u64) \<Rightarrow> u64 \<Rightarrow> 'a list \<Rightarrow> 'a list" where
  "before f c xs \<equiv> filter (\<lambda>x. f x < c) xs"

abbreviation within :: "('a \<Rightarrow> u64) \<Rightarrow> u64 \<Rightarrow> u64 \<Rightarrow> 'a list \<Rightarrow> 'a list" where
  "within f a b xs \<equiv> filter (\<lambda>x. a \<le> f x \<and> f x \<le> b) xs"

lemma unat_next: "b \<noteq> - 1 \<Longrightarrow> unat ((b :: u64) + 1) = Suc (unat b)"
proof -
  assume "b \<noteq> - 1"
  then have "unat b \<noteq> 18446744073709551615" by (simp add: word_unat_eq_iff)
  with unat_lt64 [of b] have "unat b < 18446744073709551615" by linarith
  then show "unat (b + 1) = Suc (unat b)" by (intro unat_Suc64) simp
qed

lemma less_Suc_word: "b \<noteq> - 1 \<Longrightarrow> (y :: u64) < b + 1 \<longleftrightarrow> y \<le> b"
  by (simp add: word_less_nat_alt word_le_nat_alt unat_next less_Suc_eq_le)

lemma below_top: "a \<le> b \<Longrightarrow> (b :: u64) \<noteq> - 1 \<Longrightarrow> a \<noteq> - 1"
  using unat_next [of b] unat_lt64 [of "b + 1"] by (auto simp: word_le_nat_alt simp del: unat_lt64)

lemma sat_add_1: "b \<noteq> - 1 \<Longrightarrow> sat_add b 1 = b + 1"
  using unat_next [of b] unat_lt64 [of "b + 1"] by (simp add: sat_add_def del: unat_lt64)

lemma before_append:
  assumes "sorted (map f xs)" and "a \<le> b" and "b \<noteq> - 1"
  shows "before f (b + 1) xs = before f a xs @ within f a b xs"
  using assms(1)
proof (induction xs)
  case (Cons x xs)
  note lt = less_Suc_word [OF assms(3)]
  show ?case
  proof (cases "f x < a")
    case True
    then show ?thesis using Cons assms(2) lt by auto
  next
    case False
    then have none: "before f a xs = []" using Cons.prems by (auto simp: filter_empty_conv)
    have "within f a b xs = before f (b + 1) xs"
      by (rule filter_cong) (use False Cons.prems lt in \<open>auto simp: not_less\<close>)
    with False none show ?thesis by (auto simp: lt not_less)
  qed
qed simp

lemma before_split: "sorted (map f xs) \<Longrightarrow> xs = before f c xs @ filter (\<lambda>x. c \<le> f x) xs"
proof (induction xs)
  case (Cons x xs)
  show ?case
  proof (cases "f x < c")
    case False
    then have "before f c (x # xs) = []" using Cons.prems by (auto simp: filter_empty_conv)
    moreover have "filter (\<lambda>x. c \<le> f x) xs = xs" using False Cons.prems by (auto simp: filter_id_conv)
    ultimately show ?thesis using False by (simp add: not_less)
  qed (use Cons in simp)
qed simp

section \<open>A chain that stands still\<close>

text \<open>
  \<open>still_chain rd tip ds bl\<close>: at the height the reader reads at, the chain has the delayed messages \<open>ds\<close>
  and the batches \<open>bl\<close>, each with its data; a batch reads delayed messages of blocks not after its own.
\<close>

definition still_chain ::
    "('db, 'c, 'w) InboxReader \<Rightarrow> u64 \<Rightarrow> DelayedInboxMessage list \<Rightarrow> posted_batch list \<Rightarrow> bool" where
  "still_chain rd tip ds bl \<longleftrightarrow>
     (let height = below_head rd tip; B = delayed_bridge rd; S = sequencer_inbox rd in
      answers (last_header (l1_reader rd)) tip \<and>
      answers (bridge_message_count B height) (of_nat (length ds)) \<and>
      (\<forall>n < length ds. answers (bridge_accumulator B (of_nat n) height 0)
         (acc_from (ev_keccak (rd_env rd)) 0 (take (Suc n) (bodies (map tuple_of ds))))) \<and>
      (\<forall>a b. answers (bridge_lookup B a b) (within dblock a b ds)) \<and>
      answers (inbox_batch_count S height) (of_nat (length bl)) \<and>
      (\<forall>n < length bl. answers (inbox_accumulator S (of_nat n) height) (after_inbox_acc (fst (bl ! n)))) \<and>
      (\<forall>a b. answers (inbox_lookup S a b) (map fst (within bblock a b bl))) \<and>
      (\<forall>p \<in> set bl. gives rd (fst p) (snd p)) \<and>
      list_all serializable ds \<and> sorted (map dblock ds) \<and> sorted (map bblock bl) \<and>
      (\<forall>e \<in> set (map dblock ds @ map bblock bl). first_message_block rd \<le> e \<and> e \<le> height) \<and>
      (\<forall>p \<in> set bl. unat (after_delayed_count (fst p)) \<le> length (filter (\<lambda>d. dblock d \<le> bblock p) ds)))"

lemma reads_before:
  assumes "still_chain rd tip ds bl"
  shows "reads_within (length (before dblock c ds)) (map with_data (before bblock c bl))"
proof -
  have "unat (after_delayed_count (fst p)) \<le> length (before dblock c ds)" if "p \<in> set bl" "bblock p < c" for p
  proof -
    have "unat (after_delayed_count (fst p)) \<le> length (filter (\<lambda>d. dblock d \<le> bblock p) ds)"
      using assms that(1) by (simp add: still_chain_def Let_def)
    also have "filter (\<lambda>d. dblock d \<le> bblock p) ds = filter (\<lambda>d. dblock d \<le> bblock p) (before dblock c ds)"
      using that(2) by (auto intro: filter_cong)
    finally show ?thesis using length_filter_le le_trans by blast
  qed
  then show ?thesis by (auto simp: reads_within_def list_all_iff)
qed

text \<open>What a chain says up to a point is what a chain can have said.\<close>

lemma honest_prefix:
  assumes "honest ev (ds @ ds') (bs @ bs') msgs" and "reads_within (length ds) bs"
  obtains ms where "honest ev ds bs ms"
proof -
  obtain ms where "honest ev (ds @ ds') bs ms" by (rule honest_batches [OF assms(1)])
  from honest_delayed(1) [OF this assms(2)] show thesis by (rule that)
qed

lemma honest_unique: "honest ev ds bs ms \<Longrightarrow> honest ev ds bs ms' \<Longrightarrow> ms = ms'"
  by (auto simp: honest_def split: result.splits)

lemma accepted_run:
  "accepted K dms a p bs \<Longrightarrow> unat p + length bs < 2 ^ 64 \<Longrightarrow>
   contiguous p bs = bs \<and> sorted (map sequence_number bs) \<and> (\<forall>b \<in> set bs. p \<le> sequence_number b)"
proof (induction bs arbitrary: a p)
  case (Cons b bs)
  have "unat (p + 1) = Suc (unat p)" "sat_add p 1 = p + 1"
    using Cons.prems(2) by (auto simp: unat_Suc64 unat_sat_add word_unat_eq_iff)
  moreover from this have "contiguous (p + 1) bs = bs \<and> sorted (map sequence_number bs) \<and> (\<forall>b \<in> set bs. p + 1 \<le> sequence_number b)"
    using Cons.IH [of "after_inbox_acc b" "p + 1"] Cons.prems by simp
  moreover have "p + 1 \<le> x \<Longrightarrow> p \<le> x" for x
    using calculation(1) by (simp add: word_le_nat_alt)
  ultimately show ?case using Cons.prems(1) by auto
qed simp

text \<open>The tracker has read the blocks below \<open>c\<close>.\<close>

definition read_upto ::
    "('db, 'c) env \<Rightarrow> ('db \<Rightarrow> bytes \<rightharpoonup> bytes) \<Rightarrow> ('c \<Rightarrow> u64 \<rightharpoonup> BatchMetadata) \<Rightarrow> DelayedInboxMessage list \<Rightarrow>
     posted_batch list \<Rightarrow> u64 \<Rightarrow> ('db, 'c) tracker \<Rightarrow> bool" where
  "read_upto ev view cached ds bl c t \<longleftrightarrow> (\<exists>ms.
     in_sync ev view cached t (map tuple_of (before dblock c ds)) (map with_data (before bblock c bl)) ms \<and>
     honest ev (map tuple_of (before dblock c ds)) (map with_data (before bblock c bl)) ms)"

lemma agrees_delayed_before:
  assumes chain: "still_chain rd tip ds bl" and len: "length ds < 2 ^ 64"
  shows "agrees_delayed rd (below_head rd tip) (of_nat (length ds)) (bodies (map tuple_of (before dblock c ds)))"
proof -
  let ?A = "before dblock c ds"
  obtain rest where split: "ds = ?A @ rest" using before_split [of dblock ds c] chain by (auto simp: still_chain_def Let_def)
  have le: "length ?A \<le> length ds" by simp
  have "answers (bridge_accumulator (delayed_bridge rd) (of_nat (length ?A) - 1) (below_head rd tip) 0)
      (acc_from (ev_keccak (rd_env rd)) 0 (bodies (map tuple_of ?A)))" if "?A \<noteq> []"
  proof -
    have "length ?A - 1 < length ds" using that le by (cases ?A) simp_all
    then have "answers (bridge_accumulator (delayed_bridge rd) (of_nat (length ?A - 1)) (below_head rd tip) 0)
        (acc_from (ev_keccak (rd_env rd)) 0 (take (Suc (length ?A - 1)) (bodies (map tuple_of ds))))"
      using chain by (simp add: still_chain_def Let_def)
    moreover have "Suc (length ?A - 1) = length ?A" using that by (cases ?A) simp_all
    moreover have "take (length ?A) (bodies (map tuple_of ds)) = bodies (map tuple_of ?A)"
      by (subst split) (simp add: take_map)
    moreover have "(of_nat (length ?A - 1) :: u64) = of_nat (length ?A) - 1" using that by (cases ?A) simp_all
    ultimately show ?thesis by simp
  qed
  then show ?thesis
    using chain len le by (auto simp: agrees_delayed_def still_chain_def Let_def unat_of_nat64)
qed

lemma agrees_batches_before:
  assumes chain: "still_chain rd tip ds bl" and len: "length bl < 2 ^ 64"
    and meta: "metadata_of R brotli no_metadata (map with_data (before bblock c bl)) = Ok metas"
  shows "agrees_batches rd (below_head rd tip) (of_nat (length bl)) metas"
proof -
  let ?A = "before bblock c bl"
  obtain rest where split: "bl = ?A @ rest" using before_split [of bblock bl c] chain by (auto simp: still_chain_def Let_def)
  have le: "length ?A \<le> length bl" by simp
  have metas: "length metas = length ?A" using length_metadata_of [OF meta] by simp
  have "answers (inbox_accumulator (sequencer_inbox rd) (of_nat (length metas) - 1) (below_head rd tip))
      (accumulator (last metas))" if "metas \<noteq> []"
  proof -
    have ne: "?A \<noteq> []" using that metas by auto
    then have "length ?A - 1 < length bl" using le by (cases ?A) simp_all
    then have "answers (inbox_accumulator (sequencer_inbox rd) (of_nat (length ?A - 1)) (below_head rd tip))
        (after_inbox_acc (fst (bl ! (length ?A - 1))))"
      using chain by (simp add: still_chain_def Let_def)
    moreover have "bl ! (length ?A - 1) = last ?A"
      using ne by (subst split) (simp add: nth_append last_conv_nth)
    moreover have "accumulator (last metas) = after_inbox_acc (fst (last ?A))"
      using metadata_accumulator [OF meta] that ne by (simp add: last_map)
    moreover have "(of_nat (length ?A - 1) :: u64) = of_nat (length metas) - 1"
      using ne metas by (cases ?A) simp_all
    ultimately show ?thesis by simp
  qed
  then show ?thesis
    using chain len le metas by (auto simp: agrees_batches_def still_chain_def Let_def unat_of_nat64)
qed

lemma honest_before:
  assumes chain: "still_chain rd tip ds bl" and honest: "honest ev (map tuple_of ds) (map with_data bl) msgs"
  obtains ms where "honest ev (map tuple_of (before dblock c ds)) (map with_data (before bblock c bl)) ms"
proof -
  have sorted: "sorted (map dblock ds)" "sorted (map bblock bl)" using chain by (simp_all add: still_chain_def Let_def)
  let ?dA = "before dblock c ds" and ?bA = "before bblock c bl"
  have reads: "reads_within (length (map tuple_of ?dA)) (map with_data ?bA)" using reads_before [OF chain] by simp
  have dsplit: "map tuple_of ds = map tuple_of ?dA @ map tuple_of (filter (\<lambda>d. c \<le> dblock d) ds)"
    by (subst before_split [OF sorted(1), of c]) (rule map_append)
  have bsplit: "map with_data bl = map with_data ?bA @ map with_data (filter (\<lambda>p. c \<le> bblock p) bl)"
    by (subst before_split [OF sorted(2), of c]) (rule map_append)
  obtain ms where "honest ev (map tuple_of ?dA) (map with_data ?bA) ms"
    by (rule honest_prefix [OF honest [unfolded dsplit bsplit] reads])
  then show thesis by (rule that)
qed

text \<open>A chain whose head is high enough for the reader.\<close>

definition in_reach :: "('db, 'c, 'w) InboxReader \<Rightarrow> u64 \<Rightarrow> bool" where
  "in_reach rd tip \<longleftrightarrow>
     read_mode (rd_config rd) = ''latest'' \<and> min_blocks_to_read (rd_config rd) = 1 \<and> tip \<noteq> - 1 \<and>
     sat_add (below_head rd tip) (delay_blocks (rd_config rd)) \<le> tip"

lemma in_reachD:
  assumes "in_reach rd tip" and "f \<le> below_head rd tip"
  shows "sat_add f (delay_blocks (rd_config rd) + sat_sub (min_blocks_to_read (rd_config rd)) 1) \<le> tip"
    and "below_head rd tip \<noteq> - 1"
proof -
  have "sat_add f d \<le> sat_add (below_head rd tip) d" for d
    using assms(2) by (simp add: word_le_nat_alt unat_sat_add)
  with assms(1) show "sat_add f (delay_blocks (rd_config rd) + sat_sub (min_blocks_to_read (rd_config rd)) 1) \<le> tip"
    by (auto simp: in_reach_def sat_sub_def intro: order_trans)
  have "below_head rd tip \<le> sat_add (below_head rd tip) (delay_blocks (rd_config rd))"
    using unat_lt64 [of "below_head rd tip"] by (simp add: word_le_nat_alt unat_sat_add del: unat_lt64)
  also have "\<dots> \<le> tip" using assms(1) by (simp add: in_reach_def)
  finally have "below_head rd tip \<le> tip" .
  moreover have "tip \<noteq> - 1" using assms(1) by (simp add: in_reach_def)
  ultimately show "below_head rd tip \<noteq> - 1" by (rule below_top)
qed

section \<open>From window to window\<close>

text \<open>The blocks in which the chain says something.\<close>

definition event_blocks :: "DelayedInboxMessage list \<Rightarrow> posted_batch list \<Rightarrow> u64 set" where
  "event_blocks ds bl = dblock ` set ds \<union> bblock ` set bl"

text \<open>Wherever reading stands, what comes next is within the largest window.\<close>

definition no_long_gap :: "('db, 'c, 'w) InboxReader \<Rightarrow> DelayedInboxMessage list \<Rightarrow> posted_batch list \<Rightarrow> bool" where
  "no_long_gap rd ds bl \<longleftrightarrow> unat (max_blocks_to_read (rd_config rd)) < 2 ^ 63 \<and> 1 \<le> max_blocks_to_read (rd_config rd) \<and>
     (\<forall>f \<ge> first_message_block rd. (\<exists>e \<in> event_blocks ds bl. f \<le> e) \<longrightarrow>
        (\<exists>e \<in> event_blocks ds bl. f \<le> e \<and> e \<le> sat_add f (max_blocks_to_read (rd_config rd))))"

lemma length_before: "length (before g f xs) < length xs \<longleftrightarrow> (\<exists>x \<in> set xs. f \<le> g x)"
  using length_filter_less [of _ xs "\<lambda>x. g x < f"] filter_True [of xs "\<lambda>x. g x < f"] by (fastforce simp: not_less)

lemma unread_iff:
  "length (before dblock f ds) < length ds \<or> length (before bblock f bl) < length bl \<longleftrightarrow>
     (\<exists>e \<in> event_blocks ds bl. f \<le> e)"
  unfolding event_blocks_def length_before bex_Un bex_simps(7) by (rule refl)

lemma all_read: "\<not> (\<exists>e \<in> event_blocks ds bl. f \<le> e) \<Longrightarrow> before dblock f ds = ds \<and> before bblock f bl = bl"
  by (force simp: event_blocks_def not_le filter_id_conv)

lemma window_empty_iff:
  "within dblock f c ds = [] \<and> within bblock f c bl = [] \<longleftrightarrow> \<not> (\<exists>e \<in> event_blocks ds bl. f \<le> e \<and> e \<le> c)"
  by (auto simp: event_blocks_def filter_empty_conv)

lemma event_blocks_bounds:
  assumes "still_chain rd tip ds bl" and "e \<in> event_blocks ds bl"
  shows "first_message_block rd \<le> e" "e \<le> below_head rd tip"
  using assms by (auto simp: still_chain_def Let_def event_blocks_def)

text \<open>A window without anything grows.\<close>

lemma next_blocks_grows:
  assumes "min_blocks_to_read cfg = 1" and "blocks < max_blocks_to_read cfg" and "unat (max_blocks_to_read cfg) < 2 ^ 63"
  shows "blocks < next_blocks cfg 0 blocks"
proof -
  have b: "unat blocks < unat (max_blocks_to_read cfg)" using assms(2) by (simp add: word_less_nat_alt)
  then have "unat (blocks + 4) = unat blocks + 4" using assms(3) by (simp add: unat_plus64)
  then have "unat (sat_add blocks ((blocks + 4) div 5)) = unat blocks + (unat blocks + 4) div 5"
    using b assms(3) by (simp add: unat_sat_add unat_div)
  then show ?thesis
    using assms b by (auto simp: next_blocks_def Let_def word_less_nat_alt)
qed

text \<open>The block the reader begins at: that of the last delayed message it has, not before the first one.\<close>

definition resume_block :: "u64 \<Rightarrow> delayed_msg list \<Rightarrow> u64" where
  "resume_block first ds =
     (if ds = [] then first
      else case parse_incoming_l1_message_legacy (last (bodies ds)) of
        Ok m \<Rightarrow> max (block_number (header m)) first | _ \<Rightarrow> first)"

context tracker_node begin

lemma read_window:
  assumes rd: "rd_env rd = ev" and chain: "still_chain rd tip ds bl"
    and honest: "honest ev (map tuple_of ds) (map with_data bl) msgs" and sum: "length ds + length bl < 2 ^ 64"
    and reach: "in_reach rd tip" and upto: "read_upto ev view cached ds bl f (rs_tracker s)"
    and f: "win_from win = f" "f \<le> height" and height: "height = below_head rd tip"
    and some: "length (before dblock f ds) < length ds \<or> length (before bblock f bl) < length bl"
    and to_block: "to_block = min (sat_add f (win_blocks win)) height"
  shows "\<exists>s' k c. reader_iteration rd wakes win s =
      (Ok \<lparr>win_from = c, win_blocks = next_blocks (rd_config rd) k (win_blocks win)\<rparr>, s') \<and>
    read_upto ev view cached ds bl c (rs_tracker s') \<and>
    results_upto (view (tr_db (rs_tracker s))) (view (tr_db (rs_tracker s'))) None \<and>
    (if within dblock f to_block ds = [] \<and> within bblock f to_block bl = [] then c = f \<and> k = 0 else c = to_block + 1)"
proof -
  let ?dA = "before dblock f ds" and ?dW = "within dblock f to_block ds"
  let ?bA = "before bblock f bl" and ?bW = "within bblock f to_block bl"
  let ?dT = "map tuple_of ?dA" and ?dN = "map tuple_of ?dW" and ?bT = "map with_data ?bA" and ?bN = "map with_data ?bW"
  have c: "sorted (map dblock ds)" "sorted (map bblock bl)" "list_all serializable ds"
    "answers (last_header (l1_reader rd)) tip"
    "answers (bridge_lookup (delayed_bridge rd) f to_block) ?dW"
    "answers (inbox_lookup (sequencer_inbox rd) f to_block) (map fst ?bW)"
    "\<forall>p \<in> set bl. gives rd (fst p) (snd p)"
    using chain by (simp_all add: still_chain_def Let_def)
  have lens: "length ds < 2 ^ 64 - 1" "length bl < 2 ^ 64 - 1" using honest by (simp_all add: honest_def)
  note high = in_reachD(1) [OF reach f(2) [unfolded height], folded f(1)]
  have mode: "read_mode (rd_config rd) = ''latest''" using reach by (simp add: in_reach_def)
  have top: "height \<noteq> - 1" using in_reachD(2) [OF reach f(2) [unfolded height]] height by simp
  have "f \<le> sat_add f (win_blocks win)" using unat_lt64 [of f] by (simp add: word_le_nat_alt unat_sat_add del: unat_lt64)
  with f(2) have ft: "f \<le> to_block" by (simp add: to_block)
  have "to_block \<le> height" by (simp add: to_block)
  then have tne: "to_block \<noteq> - 1" using top by (rule below_top)
  have snext: "sat_add to_block 1 = to_block + 1" using tne by (rule sat_add_1)
  have dnext: "before dblock (to_block + 1) ds = ?dA @ ?dW" by (rule before_append [OF c(1) ft tne])
  have bnext: "before bblock (to_block + 1) bl = ?bA @ ?bW" by (rule before_append [OF c(2) ft tne])
  have more: "length ?dA + length ?dW \<le> length ds" "length ?bA + length ?bW \<le> length bl"
    using length_filter_le [of "\<lambda>d. dblock d < to_block + 1" ds] length_filter_le [of "\<lambda>p. bblock p < to_block + 1" bl]
    unfolding dnext bnext by simp_all
  obtain ms where sync: "in_sync ev view cached (rs_tracker s) ?dT ?bT ms" and hA: "honest ev ?dT ?bT ms"
    using upto by (auto simp: read_upto_def)
  obtain metas where log: "log_rep R (view (tr_db (rs_tracker s))) (map entry ms)"
      and meta: "metadata_of R (ev_brotli ev) no_metadata ?bT = Ok metas" and rep: "rep (rs_tracker s) (bodies ?dT) metas"
      and step: "in_step (map entry ms) metas"
    using sync by (auto simp: in_sync_def rep_def)
  have metas: "length metas = length ?bA" using length_metadata_of [OF meta] by simp
  obtain mc where hc: "honest ev (?dT @ ?dN) (?bT @ ?bN) mc"
    using honest_before [OF chain honest, of "to_block + 1"] unfolding dnext bnext by auto
  have agd: "agrees_delayed rd height (of_nat (length ds)) (bodies ?dT)"
    unfolding height by (rule agrees_delayed_before [OF chain]) (use lens in simp)
  have agb: "agrees_batches rd height (of_nat (length bl)) metas"
    unfolding height by (rule agrees_batches_before [OF chain _ meta]) (use lens in simp)
  have count: "unat (of_nat (length ds) :: u64) = length ds" "unat (of_nat (length bl) :: u64) = length bl"
    using lens by (simp_all add: unat_of_nat64)
  have window: "f = min (win_from win) height" "to_block = min (sat_add f (win_blocks win)) height"
    using f to_block by (simp_all add: min_def)
  have tuples: "delayed_tuples ?dW = Ok ?dN" by (rule delayed_tuples_eq) (use c(3) in \<open>auto simp: list_all_iff\<close>)
  have dlen: "length (bodies ?dT) + length ?dN < 2 ^ 64 - 1" "length ?dW < 2 ^ 64" using more lens by simp_all
  obtain mAB where hB: "honest ev (?dT @ ?dN) ?bT mAB" by (rule honest_batches [OF hc])
  have within_A: "reads_within (length ?dT) ?bT" using reads_before [OF chain] by simp
  have msA: "mAB = ms" by (rule honest_unique [OF honest_delayed(1) [OF hB within_A] hA])
  have dchain: "chained K (acc_from K 0 (bodies ?dT)) (of_nat (length (bodies ?dT))) ?dN"
    using honest_delayed(2) [OF hB within_A] by simp
  have dlook: "length (bodies ?dT) < unat (of_nat (length ds) :: u64) \<Longrightarrow> answers (bridge_lookup (delayed_bridge rd) f to_block) ?dW"
    by (rule c(5))
  have dnone: "unat (of_nat (length ds) :: u64) = length (bodies ?dT) \<Longrightarrow> ?dW = []"
    using more(1) unfolding count by simp
  show ?thesis
  proof (cases "?bW = []")
    case True
    obtain s' where run: "reader_iteration rd wakes win s =
        (Ok \<lparr>win_from = (if ?dW = [] then f else sat_add to_block 1),
             win_blocks = next_blocks (rd_config rd) (of_nat (length ?dW)) (win_blocks win)\<rparr>, s')"
      and s': "log_rep R (view (tr_db (rs_tracker s'))) (map entry ms)" "rep (rs_tracker s') (bodies ?dT @ bodies ?dN) metas"
        "results_upto (view (tr_db (rs_tracker s))) (view (tr_db (rs_tracker s'))) None"
      by (rule iteration_no_batches [OF rd log rep mode c(4) high height window agd dlook dnone tuples dlen dchain agb])
         (use some c(6) True metas count in auto)
    have "in_sync ev view cached (rs_tracker s') (?dT @ ?dN) ?bT ms"
      using s' meta step by (auto simp: in_sync_def rep_def)
    then have "read_upto ev view cached ds bl (if ?dW = [] then f else to_block + 1) (rs_tracker s')"
      using hB msA True by (auto simp: read_upto_def dnext bnext)
    then show ?thesis
      using run snext s'(3) True by (intro exI [of _ s'] exI [of _ "of_nat (length ?dW)"] exI [of _ "if ?dW = [] then f else to_block + 1"]) auto
  next
    case False
    then have ne: "?bN \<noteq> []" by simp
    obtain ps qs ms' ns where hB': "honest ev (?dT @ ?dN) ?bT ms'" and mc: "mc = ms' @ ns"
      and parse: "parse_batches R (ev_brotli ev) (map batch_bytes ?bN) = Ok qs"
      and ps: "consistent 0 ?bT ps" "stream_messages R (ev_brotli ev) (delayed_at (bodies (?dT @ ?dN))) ps 0 = Ok ms'"
      and acc: "accepted K (bodies (?dT @ ?dN)) (last (0 # map after_inbox_acc ?bT)) (of_nat (length ?bT)) ?bN"
      and qs: "consistent (after_all 0 ps) ?bN qs"
        "stream_messages R (ev_brotli ev) (delayed_at (bodies (?dT @ ?dN))) qs (after_all 0 ps) = Ok ns"
      by (rule honest_batches [OF hc])
    have ms': "ms' = ms" using honest_unique [OF hB' hB] msA by simp
    note ready = batches_ready [OF hc [unfolded mc ms'] ne ps [unfolded ms'] acc qs meta]
    have dms': "bodies (?dT @ ?dN) = bodies ?dT @ bodies ?dN" by simp
    have missing: "length metas < unat (of_nat (length bl) :: u64)"
      using more(2) False unfolding count metas by (cases ?bW) simp_all
    have data: "list_all2 (gives rd) (map fst ?bW) (map snd ?bW)"
      using c(7) by (simp add: list_all2_map1 list_all2_map2 list_all2_same list_all_iff)
    have bound: "unat (after_delayed_count b) \<le> length (bodies (?dT @ ?dN))" if "b \<in> set (map fst ?bW)" for b
    proof -
      have "b \<in> fst ` set ?bW" using that by (simp only: set_map)
      then obtain p where p: "b = fst p" "p \<in> set ?bW" by (rule imageE)
      have "with_data p \<in> set (map with_data (?bA @ ?bW))" using p(2) by auto
      then have "unat (after_delayed_count (with_data p)) \<le> length (?dA @ ?dW)"
        using reads_before [OF chain, of "to_block + 1"] unfolding dnext bnext reads_within_def list_all_iff by blast
      then show ?thesis by (simp add: p(1))
    qed
    have run: "contiguous (of_nat (length metas)) (sort_key sequence_number (map2 filled (map fst ?bW) (map snd ?bW))) = ?bN"
    proof -
      have "unat (of_nat (length ?bT) :: u64) + length ?bN < 2 ^ 64" using more lens by (simp add: unat_of_nat64)
      from accepted_run [OF acc this]
      have "contiguous (of_nat (length ?bT)) ?bN = ?bN" "sorted (map sequence_number ?bN)" by simp_all
      then show ?thesis unfolding map2_filled using metas by (simp add: sort_key_id_if_sorted)
    qed
    have total: "length ?dW + length ?bN < 2 ^ 64" using more sum by simp
    obtain s' metas' where step': "reader_iteration rd wakes win s =
        (Ok \<lparr>win_from = sat_add to_block 1,
             win_blocks = next_blocks (rd_config rd) (of_nat (length ?dW) + of_nat (length ?bN)) (win_blocks win)\<rparr>, s')"
      and s': "log_rep R (view (tr_db (rs_tracker s'))) (map entry ms @ map entry ns)"
        "rep (rs_tracker s') (bodies (?dT @ ?dN)) (metas @ metas')" "in_step (map entry ms @ map entry ns) (metas @ metas')"
        "metadata_of R (ev_brotli ev) (last_metadata metas) ?bN = Ok metas'"
        "results_upto (view (tr_db (rs_tracker s))) (view (tr_db (rs_tracker s'))) None"
      by (rule iteration_reads [OF rd log rep step mode c(4) high height window agd dlook dnone tuples dlen(1) dchain
            dms' agb missing c(6) data bound run ne ready(1-3) total ready(4) parse ready(5,6)])
    have "in_sync ev view cached (rs_tracker s') (?dT @ ?dN) (?bT @ ?bN) (ms @ ns)"
      using s'(1-3) ready(7) [OF s'(4)] by (auto simp: in_sync_def rep_def)
    then have "read_upto ev view cached ds bl (to_block + 1) (rs_tracker s')"
      using hc mc ms' by (auto simp: read_upto_def dnext bnext)
    then show ?thesis
      using step' snext s'(5) False
      by (intro exI [of _ s'] exI [of _ "of_nat (length ?dW) + of_nat (length ?bN)"] exI [of _ "to_block + 1"]) auto
  qed
qed

text \<open>
  One window after the other: either a window has something, and reading goes on above it, or it has
  nothing, and the next one is larger.
\<close>

lemma reader_reads_on:
  assumes rd: "rd_env rd = ev" and chain: "still_chain rd tip ds bl"
    and honest: "honest ev (map tuple_of ds) (map with_data bl) msgs" and sum: "length ds + length bl < 2 ^ 64"
    and reach: "in_reach rd tip" and gaps: "no_long_gap rd ds bl"
  shows "read_upto ev view cached ds bl (win_from win) (rs_tracker s) \<Longrightarrow> first_message_block rd \<le> win_from win \<Longrightarrow>
    \<exists>n win' s' c. reader_iterations rd wakes n win s = (Ok win', s') \<and> read_upto ev view cached ds bl c (rs_tracker s') \<and>
      results_upto (view (tr_db (rs_tracker s))) (view (tr_db (rs_tracker s'))) None \<and>
      before dblock c ds = ds \<and> before bblock c bl = bl"
proof (induction "(unat (below_head rd tip) + 1 - unat (win_from win), unat (max_blocks_to_read (rd_config rd)) - unat (win_blocks win))"
    arbitrary: win s rule: wf_induct_rule [OF wf_lex_prod [OF wf_less_than wf_less_than]])
  case 1
  let ?cfg = "rd_config rd" and ?f = "win_from win" and ?h = "below_head rd tip"
  show ?case
  proof (cases "\<exists>e \<in> event_blocks ds bl. ?f \<le> e")
    case False
    with all_read [OF this] "1.prems"(1) show ?thesis
      by (intro exI [of _ 0]) (auto simp: okM_def)
  next
    case True
    then obtain e where e: "e \<in> event_blocks ds bl" "?f \<le> e" by blast
    have fh: "?f \<le> ?h" using event_blocks_bounds(2) [OF chain e(1)] e(2) by simp
    let ?to = "min (sat_add ?f (win_blocks win)) ?h"
    obtain s' k c where step: "reader_iteration rd wakes win s =
        (Ok \<lparr>win_from = c, win_blocks = next_blocks ?cfg k (win_blocks win)\<rparr>, s')"
      and upto: "read_upto ev view cached ds bl c (rs_tracker s')"
      and same: "results_upto (view (tr_db (rs_tracker s))) (view (tr_db (rs_tracker s'))) None"
      and moved: "if within dblock ?f ?to ds = [] \<and> within bblock ?f ?to bl = [] then c = ?f \<and> k = 0 else c = ?to + 1"
      using read_window [OF rd chain honest sum reach "1.prems"(1) refl fh refl True [folded unread_iff] refl] by blast
    let ?win = "\<lparr>win_from = c, win_blocks = next_blocks ?cfg k (win_blocks win)\<rparr>"
    have less: "((unat ?h + 1 - unat (win_from ?win), unat (max_blocks_to_read ?cfg) - unat (win_blocks ?win)),
        unat ?h + 1 - unat ?f, unat (max_blocks_to_read ?cfg) - unat (win_blocks win)) \<in> less_than <*lex*> less_than \<and>
        ?f \<le> c"
    proof (cases "\<exists>e \<in> event_blocks ds bl. ?f \<le> e \<and> e \<le> ?to")
      case True
      then have c: "c = ?to + 1" using moved unfolding window_empty_iff by simp
      have "?to \<noteq> - 1" using in_reachD(2) [OF reach fh] by (intro below_top [of ?to ?h]) simp_all
      then have "unat c = Suc (unat ?to)" unfolding c by (rule unat_next)
      moreover have "?f \<le> ?to" using True by fastforce
      ultimately have "unat ?f < unat c" by (simp only: word_le_nat_alt)
      moreover from this have "unat ?h + 1 - unat c < unat ?h + 1 - unat ?f"
        using fh unfolding word_le_nat_alt by linarith
      ultimately show ?thesis by (simp add: word_le_nat_alt)
    next
      case False
      then have c: "c = ?f" "k = 0" using moved unfolding window_empty_iff by simp_all
      obtain e where e: "e \<in> event_blocks ds bl" "?f \<le> e" "e \<le> sat_add ?f (max_blocks_to_read ?cfg)"
        using gaps \<open>\<exists>e \<in> event_blocks ds bl. ?f \<le> e\<close> "1.prems"(2) unfolding no_long_gap_def by blast
      have "e \<le> ?h" by (rule event_blocks_bounds(2) [OF chain e(1)])
      with False e(1,2) have "\<not> e \<le> sat_add ?f (win_blocks win)" by auto
      with e(3) have "win_blocks win < max_blocks_to_read ?cfg"
        by (auto simp: word_less_nat_alt word_le_nat_alt unat_sat_add)
      with gaps reach have "win_blocks win < next_blocks ?cfg 0 (win_blocks win)" "win_blocks win < max_blocks_to_read ?cfg"
        by (auto simp: no_long_gap_def in_reach_def intro!: next_blocks_grows)
      then show ?thesis by (simp add: c word_less_nat_alt diff_less_mono2)
    qed
    have first: "first_message_block rd \<le> c" using less "1.prems"(2) by (blast intro: order_trans)
    with less obtain n win' s'' d where "reader_iterations rd wakes n ?win s' = (Ok win', s'')"
      and "read_upto ev view cached ds bl d (rs_tracker s'')"
      and "results_upto (view (tr_db (rs_tracker s'))) (view (tr_db (rs_tracker s''))) None" and "before dblock d ds = ds" "before bblock d bl = bl"
      using "1.hyps" [of ?win s'] upto by auto
    with step results_upto_trans [OF same] show ?thesis
      by (intro exI [of _ "Suc n"] exI [of _ win'] exI [of _ s''] exI [of _ d]) (simp add: bindM_ok)
  qed
qed

text \<open>From an empty tracker, reading begins at the first message block and ends with all there is.\<close>

lemma start_reader_reads:
  assumes rd: "rd_env rd = ev" and chain: "still_chain rd tip ds bl"
    and honest: "honest ev (map tuple_of ds) (map with_data bl) msgs" and sum: "length ds + length bl < 2 ^ 64"
    and reach: "in_reach rd tip" and gaps: "no_long_gap rd ds bl"
    and fresh: "in_sync ev view cached (rs_tracker s) [] [] []"
  shows "\<exists>n win' s'. start_reader rd wakes n s = (Ok win', s') \<and>
    in_sync ev view cached (rs_tracker s') (map tuple_of ds) (map with_data bl) msgs \<and>
    results_upto (view (tr_db (rs_tracker s))) (view (tr_db (rs_tracker s'))) None"
proof -
  let ?f = "first_message_block rd"
  have none: "before dblock ?f ds = []" "before bblock ?f bl = []"
    using event_blocks_bounds(1) [OF chain] by (force simp: event_blocks_def filter_empty_conv not_less)+
  have "honest ev [] [] []" by (simp add: honest_def)
  with fresh none have upto: "read_upto ev view cached ds bl ?f (rs_tracker s)" by (auto simp: read_upto_def)
  let ?win = "\<lparr>win_from = ?f, win_blocks = default_blocks_to_read (rd_config rd)\<rparr>"
  obtain n win' s' c where run: "reader_iterations rd wakes n ?win s = (Ok win', s')"
    and c: "read_upto ev view cached ds bl c (rs_tracker s')" "before dblock c ds = ds" "before bblock c bl = bl"
    and same: "results_upto (view (tr_db (rs_tracker s))) (view (tr_db (rs_tracker s'))) None"
    using reader_reads_on [OF rd chain honest sum reach gaps, of ?win s wakes] upto by auto
  have drep: "delayed_rep R K (view (tr_db (rs_tracker s))) []"
    using fresh by (auto simp: in_sync_def inbox_rep_def)
  have "get_next_block_to_read rd s = (Ok ?f, s)"
    by (simp add: get_next_block_to_read_def rd Let_def run_simps on_tracker_read get_delayed_count_eq [OF drep])
  with run have "start_reader rd wakes n s = (Ok win', s')" by (simp add: start_reader_def bindM_ok)
  moreover have "in_sync ev view cached (rs_tracker s') (map tuple_of ds) (map with_data bl) msgs"
    using c honest_unique [OF _ honest] by (auto simp: read_upto_def)
  ultimately show ?thesis using same by blast
qed

text \<open>Where the next block with anything is further off than the largest window, nothing is read any more.\<close>

lemma reader_stalls:
  assumes rd: "rd_env rd = ev" and chain: "still_chain rd tip ds bl"
    and honest: "honest ev (map tuple_of ds) (map with_data bl) msgs" and sum: "length ds + length bl < 2 ^ 64"
    and reach: "in_reach rd tip" and sizes: "min_blocks_to_read (rd_config rd) \<le> max_blocks_to_read (rd_config rd)"
    and e: "e \<in> event_blocks ds bl" "f \<le> e"
    and gap: "\<And>e. e \<in> event_blocks ds bl \<Longrightarrow> f \<le> e \<Longrightarrow> sat_add f (max_blocks_to_read (rd_config rd)) < e"
  shows "read_upto ev view cached ds bl f (rs_tracker s) \<Longrightarrow> win_from win = f \<Longrightarrow>
    win_blocks win \<le> max_blocks_to_read (rd_config rd) \<Longrightarrow>
    \<exists>win' s'. reader_iterations rd wakes n win s = (Ok win', s') \<and> win_from win' = f \<and>
      read_upto ev view cached ds bl f (rs_tracker s')"
proof (induction n arbitrary: win s)
  case 0
  then show ?case by (auto simp: okM_def)
next
  case (Suc n)
  have some: "\<exists>e \<in> event_blocks ds bl. f \<le> e" using e by blast
  have fh: "f \<le> below_head rd tip" using event_blocks_bounds(2) [OF chain e(1)] e(2) by simp
  let ?to = "min (sat_add f (win_blocks win)) (below_head rd tip)"
  have "sat_add f (win_blocks win) \<le> sat_add f (max_blocks_to_read (rd_config rd))"
    using Suc.prems(3) by (simp add: word_le_nat_alt unat_sat_add)
  then have "\<not> (\<exists>e \<in> event_blocks ds bl. f \<le> e \<and> e \<le> ?to)"
    using gap by (auto simp: min_le_iff_disj not_le intro: order_le_less_trans)
  then obtain s' where step: "reader_iteration rd wakes win s =
      (Ok \<lparr>win_from = f, win_blocks = next_blocks (rd_config rd) 0 (win_blocks win)\<rparr>, s')"
    and upto: "read_upto ev view cached ds bl f (rs_tracker s')"
    using read_window [OF rd chain honest sum reach Suc.prems(1,2) fh refl some [folded unread_iff] refl, of wakes]
    unfolding window_empty_iff by auto
  from Suc.IH [OF upto, of "\<lparr>win_from = f, win_blocks = next_blocks (rd_config rd) 0 (win_blocks win)\<rparr>"]
  show ?case using step next_blocks_between(2) [OF sizes] by (simp add: bindM_ok)
qed

section \<open>Reading again\<close>

lemma resume_reading:
  assumes "rep t (bodies ds) metas" and "rd_env rd = ev" and "rs_tracker s = t"
  shows "get_next_block_to_read rd s = (Ok (resume_block (first_message_block rd) ds), s)"
proof -
  have d: "delayed_rep R K (view (tr_db t)) (bodies ds)" using assms(1) by (simp add: rep_def inbox_rep_def)
  have len: "length (bodies ds) < 2 ^ 64" using d by (simp add: delayed_rep_def)
  have count: "get_delayed_count D R (tr_db t) = Ok (of_nat (length (bodies ds)))"
    using d by (simp add: get_delayed_count_def read_u64_def delayed_rep_def decode_all_def)
  show ?thesis
  proof (cases "ds = []")
    case True
    with count assms(2,3) show ?thesis
      by (simp add: get_next_block_to_read_def on_tracker_def db_read_def readM_def db_op_def bindM_def okM_def
          resume_block_def Let_def)
  next
    case False
    let ?n = "of_nat (length (bodies ds)) :: u64"
    have u: "unat ?n = length (bodies ds)" using len by (rule unat_of_nat64)
    with False have nz: "?n \<noteq> 0" by auto
    then have i: "unat (?n - 1) = length (bodies ds) - 1" using u by (simp add: unat_minus_one)
    have last: "bodies ds ! (length (bodies ds) - 1) = last (bodies ds)"
      using False by (intro last_conv_nth [symmetric]) simp
    have "last (bodies ds) \<in> set (bodies ds)" using False by (intro last_in_set) simp
    with d have "well_formed (last (bodies ds))" unfolding delayed_rep_def list_all_iff by blast
    then obtain m where m: "parse_incoming_l1_message_legacy (last (bodies ds)) = Ok m"
      unfolding well_formed_def by blast
    have at: "bodies ds ! unat (?n - 1) = last (bodies ds)" by (simp only: i last)
    have "unat (?n - 1) < length (bodies ds)" using False i by simp
    from get_delayed_message_eq [OF d this]
    have "get_delayed_message_accumulator_and_parent_chain_block_number D (tr_db t) (?n - 1) =
        Ok (m, acc_from K 0 (take (unat (?n - 1)) (bodies ds)), block_number (header m))"
      by (simp only: at m bindR_simps)
    with count nz assms(2,3) m False show ?thesis
      by (simp add: get_next_block_to_read_def on_tracker_def db_read_def readM_def db_op_def bindM_def okM_def
          resume_block_def Let_def)
  qed
qed

text \<open>
  The chain has more delayed messages, and the window begins at the block of one that is recorded: from the first
  message of that block on they are recorded again, and the batches that read any of these are dropped.
\<close>

lemma delayed_tuples_length: "delayed_tuples dl = Ok dmsgs \<Longrightarrow> length dl = length dmsgs"
  by (induction dl arbitrary: dmsgs) (auto simp: bindR_Ok_iff)

lemma iteration_refetches:
  assumes rd: "rd_env rd = ev" and log: "log_rep R (view (tr_db (rs_tracker s))) log"
    and rep: "rep (rs_tracker s) dms ms"
    and mode: "read_mode (rd_config rd) = ''latest''" and tip: "answers (last_header (l1_reader rd)) tip"
    and high: "sat_add (win_from win) (delay_blocks (rd_config rd) + sat_sub (min_blocks_to_read (rd_config rd)) 1) \<le> tip"
    and height: "height = below_head rd tip"
    and window: "from_block = min (win_from win) height" "to_block = min (sat_add from_block (win_blocks win)) height"
    and delayed: "agrees_delayed rd height count dms" and more: "length dms < unat count"
    and look: "answers (bridge_lookup (delayed_bridge rd) from_block to_block) dl"
    and tuples: "delayed_tuples dl = Ok dmsgs" and ne: "dl \<noteq> []"
    and p: "unat p \<le> length dms" "unat p + length dmsgs < 2 ^ 64 - 1"
    and chain: "chained K (acc_from K 0 (take (unat p) dms)) p dmsgs"
    and batches: "agrees_batches rd height (of_nat (length ms)) ms"
  obtains s' where "reader_iteration rd wakes win s =
      (Ok \<lparr>win_from = sat_add to_block 1, win_blocks = next_blocks (rd_config rd) (of_nat (length dl)) (win_blocks win)\<rparr>, s')"
    and "log_rep R (view (tr_db (rs_tracker s'))) log"
    and "rep (rs_tracker s') (take (unat p) dms @ bodies dmsgs) (kept p ms)"
proof -
  let ?n = "of_nat (length ms) :: u64" let ?d = "of_nat (length dms) :: u64"
  have lens: "length dms < 2 ^ 64" using rep by (simp add: rep_def inbox_rep_def delayed_rep_def)
  obtain w s2 s3 where runs: "await_height rd wakes (win_from win) s = (Ok (height, from_block), s\<lparr>rs_world := w\<rparr>)"
    "check_delayed rd height (s\<lparr>rs_world := w\<rparr>) = (Ok (?d < count, False), s2)"
    "check_sequencer rd height s2 = (Ok (?n, ?n, ?n < ?n, False), s3)"
    and q: "quiet s s3" and rep3: "rep (rs_tracker s3) dms ms"
    using iteration_checks [OF rd rep mode tip high delayed [unfolded height] batches [unfolded height]]
    unfolding height window by metis
  have missing: "?d < count" using more lens by (simp add: word_less_nat_alt unat_of_nat64)
  obtain w4 t' where fetch: "fetch_delayed rd from_block to_block s3 =
      (Ok (of_nat (length dl)), s3\<lparr>rs_world := w4, rs_tracker := t'\<rparr>)"
    and rep': "rep t' (take (unat p) dms @ bodies dmsgs) (kept p ms)"
    and frame: "\<And>k. stream_key k \<Longrightarrow> view (tr_db t') k = view (tr_db (rs_tracker s3)) k"
    by (rule fetch_delayed_refines [OF rd rep3 look tuples ne p chain]) (rule that)
  have log': "log_rep R (view (tr_db t')) log"
    by (rule log_rep_frame [OF log]) (use frame q in \<open>simp add: quiet_def\<close>)
  have "length dl < 2 ^ 64" using delayed_tuples_length [OF tuples] p(2) by simp
  then have have_msgs: "(of_nat (length dl) :: u64) > 0" using ne by (simp add: word_less_nat_alt unat_of_nat64)
  let ?s' = "s3\<lparr>rs_world := w4, rs_tracker := t', last_read_batch_count := ?n, last_seen_batch_count := ?n\<rparr>"
  have "reader_iteration rd wakes win s =
      (Ok \<lparr>win_from = sat_add to_block 1, win_blocks = next_blocks (rd_config rd) (of_nat (length dl)) (win_blocks win)\<rparr>, ?s')"
    using runs missing fetch have_msgs
    by (simp add: reader_iteration_def Let_def bindM_def store_counts_def okM_def window(2) [symmetric])
  with log' rep' that [of ?s'] show thesis by simp
qed

end

end
