(* ===== verification/Bridge_Props.thy ===== *)
theory Bridge_Props
  imports EthSequencer EthDelayed Reader_Props
begin

text \<open>
  The properties of the parent-chain bridges: what the decoders make of the events of the two
  contracts, where they panic, and what the messages a lookup returns have been checked for.
\<close>

section \<open>Words\<close>

lemma unat_ucast_up: "unat (ucast (x :: u64) :: 256 word) = unat x"
  using unat_lt64 [of x] by (simp add: unsigned_ucast_eq take_bit_nat_eq_self del: unat_lt64)

lemma to_u64_ucast [simp]: "to_u64 (ucast x) = Ok x"
  using unat_ucast_up [of x] by (simp add: to_u64_def)

lemma slice_word: "length xs = n \<Longrightarrow> m = n + 32 \<Longrightarrow> slice n m (xs @ be256 w @ ys) = Ok (be256 w)"
  by (simp add: slice_def)

lemma u64_at [simp]: "length xs = n \<Longrightarrow> u64_at_word (xs @ be256 (ucast x) @ ys) n = Ok x"
  by (simp add: u64_at_word_def slice_word)

lemma b256_at [simp]: "length xs = n \<Longrightarrow> b256_at_word (xs @ be256 w @ ys) n = Ok w"
  by (simp add: b256_at_word_def slice_word)

lemma b256_at_short: "length data < n + 32 \<Longrightarrow> b256_at_word data n = Panic"
  by (simp add: b256_at_word_def slice_def)

text \<open>Reading a word of data never fails in any other way than a panic.\<close>

definition ok_or_panic :: "'a result \<Rightarrow> bool" where
  "ok_or_panic r \<longleftrightarrow> r = Panic \<or> (\<exists>x. r = Ok x)"

lemma ok_or_panic_simps [simp]:
  "ok_or_panic (slice a b xs)" "ok_or_panic (to_u64 w)" "ok_or_panic (b256_at_word xs a)"
  "ok_or_panic (u64_at_word xs a)" "ok_or_panic (address_at_word xs a)" "ok_or_panic (Ok x)" "ok_or_panic Panic"
  by (auto simp: ok_or_panic_def slice_def to_u64_def b256_at_word_def u64_at_word_def address_at_word_def)

lemma bind_panic: "ok_or_panic r \<Longrightarrow> (\<And>x. r = Ok x \<Longrightarrow> f x = Panic) \<Longrightarrow> bindR r f = Panic"
  by (auto simp: ok_or_panic_def)

lemma answers_run:
  assumes "answers m v"
  obtains s' where "m s = (Ok v, s')"
proof (cases "m s")
  case (Pair r s')
  with assms have "r = Ok v" by (metis answers_def fst_conv)
  with Pair that show thesis by simp
qed

section \<open>Batch events\<close>

text \<open>The words of an event, and what they say.\<close>

definition event_words :: "b256 \<Rightarrow> u64 \<Rightarrow> TimeBounds \<Rightarrow> u256 \<Rightarrow> bytes" where
  "event_words dacc cnt tb loc =
     be256 dacc @ be256 (ucast cnt) @ be256 (ucast (tb_min_timestamp tb)) @ be256 (ucast (tb_max_timestamp tb))
     @ be256 (ucast (tb_min_block_number tb)) @ be256 (ucast (tb_max_block_number tb)) @ be256 loc"

lemma length_event_words [simp]: "length (event_words dacc cnt tb loc) = 224"
  by (simp add: event_words_def)

lemma delivered_words_event:
  assumes "length xs = n"
  shows "delivered_words (xs @ event_words dacc cnt tb loc @ rest) n = Ok (dacc, cnt, tb, loc)"
proof -
  let ?c = "\<lambda>f. be256 (ucast (f tb :: u64))"
  note r = assms
  have 1: "b256_at_word (xs @ event_words dacc cnt tb loc @ rest) n = Ok dacc"
    using r by (simp add: event_words_def)
  have 2: "u64_at_word (xs @ event_words dacc cnt tb loc @ rest) (n + 32) = Ok cnt"
    using u64_at [of "xs @ be256 dacc" "n + 32" cnt] r by (simp add: event_words_def)
  have 3: "u64_at_word (xs @ event_words dacc cnt tb loc @ rest) (n + 64) = Ok (tb_min_timestamp tb)"
    using u64_at [of "xs @ be256 dacc @ be256 (ucast cnt)" "n + 64" "tb_min_timestamp tb"] r
    by (simp add: event_words_def)
  have 4: "u64_at_word (xs @ event_words dacc cnt tb loc @ rest) (n + 96) = Ok (tb_max_timestamp tb)"
    using u64_at [of "xs @ be256 dacc @ be256 (ucast cnt) @ ?c tb_min_timestamp" "n + 96" "tb_max_timestamp tb"] r
    by (simp add: event_words_def)
  have 5: "u64_at_word (xs @ event_words dacc cnt tb loc @ rest) (n + 128) = Ok (tb_min_block_number tb)"
    using u64_at [of "xs @ be256 dacc @ be256 (ucast cnt) @ ?c tb_min_timestamp @ ?c tb_max_timestamp"
        "n + 128" "tb_min_block_number tb"] r
    by (simp add: event_words_def)
  have 6: "u64_at_word (xs @ event_words dacc cnt tb loc @ rest) (n + 160) = Ok (tb_max_block_number tb)"
    using u64_at [of "xs @ be256 dacc @ be256 (ucast cnt) @ ?c tb_min_timestamp @ ?c tb_max_timestamp
        @ ?c tb_min_block_number" "n + 160" "tb_max_block_number tb"] r
    by (simp add: event_words_def)
  have 7: "b256_at_word (xs @ event_words dacc cnt tb loc @ rest) (n + 192) = Ok loc"
    using b256_at [of "xs @ be256 dacc @ be256 (ucast cnt) @ ?c tb_min_timestamp @ ?c tb_max_timestamp
        @ ?c tb_min_block_number @ ?c tb_max_block_number" "n + 192" loc] r
    by (simp add: event_words_def)
  show ?thesis by (simp add: delivered_words_def 1 2 3 4 5 6 7)
qed

text \<open>The batch an event of the contract tells of.\<close>

definition told_batch ::
    "hexlib \<Rightarrow> RpcLog \<Rightarrow> u64 \<Rightarrow> b256 \<Rightarrow> b256 \<Rightarrow> b256 \<Rightarrow> u64 \<Rightarrow> TimeBounds \<Rightarrow> u256 \<Rightarrow> SequencerInboxBatch" where
  "told_batch H lg seqno before after dacc cnt tb loc =
     \<lparr>sequence_number = seqno, before_inbox_acc = before, after_inbox_acc = after, after_message_count = 0,
      after_delayed_count = cnt, after_delayed_acc = dacc, time_bounds = tb, data_location = ucast loc,
      bridge_address = or_zero (address_from_str H (log_address lg)),
      parent_chain_block_number = opt_u64 (log_blockNumber lg), batch_block_hash = opt_b256 H (log_blockHash lg),
      tx_hash = opt_b256 H (log_transactionHash lg), serialized = []\<rparr>"

lemma location_byte: "(of_nat (unat (loc :: u256) mod 256) :: u8) = ucast loc"
  by (rule word_unat_eq_iff [THEN iffD2]) (simp add: unat_of_nat_byte unsigned_ucast_eq take_bit_eq_mod)

text \<open>C27: an event of a delivered batch is read back: with four topics the accumulator after the batch is
  the last topic, with three it is the first word of the data and the other words follow it; either way
  the batch has the numbers, accumulators and bounds the contract put there.\<close>

theorem delivered_event_read:
  assumes "hex_decode H (trim_0x (log_data lg)) = Ok data"
    and "b256_from_str H (log_topics lg ! 1) = Ok (ucast seqno)" and "b256_from_str H (log_topics lg ! 2) = Ok before"
    and "length (log_topics lg) = 4 \<and> b256_from_str H (log_topics lg ! 3) = Ok after \<and>
        data = event_words dacc cnt tb loc \<or>
      length (log_topics lg) = 3 \<and> data = be256 after @ event_words dacc cnt tb loc"
  shows "decode_delivered H lg = Ok (Some (told_batch H lg seqno before after dacc cnt tb loc))"
  using assms(4)
proof
  assume "length (log_topics lg) = 4 \<and> b256_from_str H (log_topics lg ! 3) = Ok after \<and>
    data = event_words dacc cnt tb loc"
  with assms(1-3) show ?thesis
    using delivered_words_event [of "[]" 0 dacc cnt tb loc "[]"]
    by (simp add: decode_delivered_def or_zero_def told_batch_def location_byte)
next
  assume three: "length (log_topics lg) = 3 \<and> data = be256 after @ event_words dacc cnt tb loc"
  have "b256_at_word (be256 after @ event_words dacc cnt tb loc) 0 = Ok after"
    using b256_at [of "[]" 0 after] by simp
  with three assms(1-3) show ?thesis
    using delivered_words_event [of "be256 after" 32 dacc cnt tb loc "[]"]
    by (simp add: decode_delivered_def or_zero_def told_batch_def location_byte)
qed

text \<open>Logs in a text form that is read back as it is, for the witnesses.\<close>

definition raw_text :: "bytes \<Rightarrow> string" where
  "raw_text bs = map (\<lambda>b. char_of (unat b)) bs"

definition raw_hex :: hexlib where
  "raw_hex = \<lparr>hex_decode = (\<lambda>s. Ok (key_bytes (tl s))), b256_from_str = (\<lambda>s. Ok (un_be256 (key_bytes s))),
     address_from_str = (\<lambda>s. Ok (un_be160 (key_bytes s))), fmt_b256 = (\<lambda>w. raw_text (be256 w)),
     fmt_address = (\<lambda>a. raw_text (be160 a))\<rparr>"

lemma key_bytes_raw [simp]: "key_bytes (raw_text bs) = bs"
proof -
  have "of_char (char_of (unat b) :: char) = b" for b :: u8
  proof -
    have "(of_char (char_of (unat b) :: char) :: u8) = of_nat (of_char (char_of (unat b) :: char))"
      by (rule of_nat_of_char [symmetric])
    also have "\<dots> = b" using unat_lt2p [of b] by (simp add: of_char_of)
    finally show ?thesis .
  qed
  then show ?thesis by (simp add: raw_text_def key_bytes_def o_def)
qed

definition raw_log :: "b256 list \<Rightarrow> bytes \<Rightarrow> RpcLog" where
  "raw_log topics data =
     \<lparr>log_address = [], log_data = CHR ''r'' # raw_text data, log_topics = map (\<lambda>t. raw_text (be256 t)) topics,
      log_blockNumber = Some ''0x2a'', log_blockHash = None, log_transactionHash = None\<rparr>"

lemma trim_0x_raw: "trim_0x (CHR ''r'' # s) = CHR ''r'' # s"
  by (cases s) simp_all

lemma raw_simps [simp]:
  "b256_from_str raw_hex (raw_text (be256 w)) = Ok w"
  "hex_decode raw_hex (trim_0x (log_data (raw_log ts d))) = Ok d"
  "log_topics (raw_log ts d) = map (\<lambda>t. raw_text (be256 t)) ts"
  "log_blockHash (raw_log ts d) = None" "log_transactionHash (raw_log ts d) = None"
  by (simp_all add: raw_hex_def raw_log_def trim_0x_raw)

definition sample_bounds :: TimeBounds where
  "sample_bounds = \<lparr>tb_min_timestamp = 10, tb_max_timestamp = 99, tb_min_block_number = 5, tb_max_block_number = 50\<rparr>"

theorem delivered_event_read_witness:
  "decode_delivered raw_hex (raw_log [1, 2, 3] (be256 8 @ event_words 4 1 sample_bounds 3)) =
     Ok (Some (told_batch raw_hex (raw_log [1, 2, 3] (be256 8 @ event_words 4 1 sample_bounds 3))
       2 3 8 4 1 sample_bounds 3))"
  by (rule delivered_event_read) simp_all

text \<open>C29: two checks of lengths are too short for what is read after them: an event of a delivered batch with
  three topics and 224 to 255 bytes of data, and an event of a delayed message with two topics, make the
  lookup panic.\<close>

theorem short_events_panic:
  assumes "hex_decode H (trim_0x (log_data lg)) = Ok data"
  shows "(length (log_topics lg) = 3 \<and> 224 \<le> length data \<and> length data < 256 \<longrightarrow> decode_delivered H lg = Panic) \<and>
    (length (log_topics lg) = 2 \<and> 160 \<le> length data \<longrightarrow> fst (parse_delivered_log H rpc lg w) = Panic)"
proof (intro conjI impI)
  assume short: "length (log_topics lg) = 3 \<and> 224 \<le> length data \<and> length data < 256"
  have "delivered_words data 32 = Panic"
    unfolding delivered_words_def using b256_at_short [of data 224] short
    by (intro bind_panic) simp_all
  then have "bindR (b256_at_word data 0) (\<lambda>after_acc. bindR (delivered_words data 32) (\<lambda>ws. Ok (after_acc, ws))) = Panic"
    by (intro bind_panic) simp_all
  with assms short show "decode_delivered H lg = Panic"
    by (auto simp: decode_delivered_def Let_def intro!: bind_panic)
next
  assume short: "length (log_topics lg) = 2 \<and> 160 \<le> length data"
  then have "message_delivered H lg data = Panic"
    by (auto simp: message_delivered_def Let_def intro!: bind_panic)
  with assms short show "fst (parse_delivered_log H rpc lg w) = Panic"
    by (simp add: parse_delivered_log_def monad_simps)
qed

theorem short_events_panic_witness:
  "decode_delivered raw_hex (raw_log [1, 2, 3] (replicate 224 0)) = Panic"
  using short_events_panic [of raw_hex "raw_log [1, 2, 3] (replicate 224 0)"] by simp

section \<open>The data of a batch\<close>

text \<open>The data of a batch posted in an event are the bytes the event carries, taken from the only such
  event of the block; an event that is shorter than the length it states is an error.\<close>

theorem event_data_read:
  assumes "answers (eth_getLogs rpc \<lparr>lf_blocks = (if bh \<noteq> 0 then BlockHash bh else Blocks height height),
        lf_address = [inbox_addr I], lf_topics = [[event_topic K EVT_SEQUENCER_BATCH_DATA], [ucast seqno]]\<rparr>) [lg]"
    and "hex_decode H (trim_0x (log_data lg)) = Ok (be256 w @ be256 (ucast (len :: u64)) @ rest)"
    and "unat len + 64 < 2 ^ 64"
  shows "fst (eth_get_sequencer_message_bytes_in_block K H rpc I height seqno tx bh s) =
    (if unat len \<le> length rest then Ok (take (unat len) rest, opt_b256 H (log_blockHash lg), [])
     else Err (Bail ''short SequencerBatchData payload'' []))"
proof -
  let ?data = "be256 w @ be256 (ucast len) @ rest"
  obtain s' where logs: "eth_getLogs rpc \<lparr>lf_blocks = (if bh \<noteq> 0 then BlockHash bh else Blocks height height),
        lf_address = [inbox_addr I], lf_topics = [[event_topic K EVT_SEQUENCER_BATCH_DATA], [ucast seqno]]\<rparr> s =
      (Ok [lg], s')"
    by (rule answers_run [OF assms(1)])
  have len: "u64_at_word ?data 32 = Ok len" by (rule u64_at) simp
  have stop: "unat (64 + len) = 64 + unat len" using assms(3) by (simp add: unat_plus64)
  have bytes: "batch_data_bytes ?data = (if unat len \<le> length rest then Ok (take (unat len) rest)
      else Err (Bail ''short SequencerBatchData payload'' []))"
  proof -
    have "length ?data = 64 + length rest" "take (unat len) (drop 64 ?data) = take (unat len) rest" by simp_all
    then show ?thesis
      unfolding batch_data_bytes_def len bindR_simps stop by (auto simp: slice_ok)
  qed
  show ?thesis
    using logs assms(2)
    by (simp add: eth_get_sequencer_message_bytes_in_block_def Let_def monad_simps choose_log_def bytes)
qed

definition still_rpc :: "RpcLog list \<Rightarrow> RpcLog list \<Rightarrow> unit rpc" where
  "still_rpc logs inbox_logs =
     \<lparr>eth_call = (\<lambda>_ _ _. still ''0x''),
      eth_getLogs = (\<lambda>f. still (if length (lf_topics f) = 1 then logs else inbox_logs)),
      eth_getTransactionReceipt = (\<lambda>_. still \<lparr>rc_blockNumber = None, rc_blockHash = None, rc_logs = []\<rparr>),
      eth_getTransactionByHash = (\<lambda>_. still \<lparr>tx_input = '''', tx_blobs = None\<rparr>),
      eth_getBlockByHash = (\<lambda>_. still ''0x7''), eth_getBlockByNumber = (\<lambda>_. still None), eth_blockNumber = still ''0x7''\<rparr>"

theorem event_data_read_witness:
  "fst (eth_get_sequencer_message_bytes_in_block (\<lambda>_. 0) raw_hex
      (still_rpc [] [raw_log [0, 2] (be256 64 @ be256 (ucast (2 :: u64)) @ [5, 6, 0])]) \<lparr>inbox_addr = 0\<rparr> 7 2 0 0 ()) =
    Ok ([5, 6], 0, [])"
proof -
  let ?lg = "raw_log [0, 2] (be256 64 @ be256 (ucast (2 :: u64)) @ [5, 6, 0])"
  have "fst (eth_get_sequencer_message_bytes_in_block (\<lambda>_. 0) raw_hex (still_rpc [] [?lg]) \<lparr>inbox_addr = 0\<rparr> 7 2 0 0 ()) =
    (if unat (2 :: u64) \<le> length [5, 6, 0 :: u8]
     then Ok (take (unat (2 :: u64)) [5, 6, 0], opt_b256 raw_hex (log_blockHash ?lg), [])
     else Err (Bail ''short SequencerBatchData payload'' []))"
    by (rule event_data_read [of _ _ _ _ _ _ ?lg _ 64]) (simp_all add: still_rpc_def)
  then show ?thesis by (simp add: opt_b256_def)
qed

section \<open>Delayed messages\<close>

text \<open>The event of a delayed message, word by word, and the message it tells of.\<close>

lemma be_nat_add: "be_nat (m + n) x = be_nat m (x div 256 ^ n) @ be_nat n x"
  by (induction n arbitrary: x) (simp_all add: div_mult2_eq mult.commute)

lemma unat_ucast_address: "unat (ucast (a :: address) :: 256 word) = unat a"
  using unat_lt2p [of a] by (simp add: unsigned_ucast_eq take_bit_nat_eq_self)

lemma be256_address: "be256 (ucast (a :: address)) = replicate 12 0 @ be160 a"
proof -
  have zeros: "be_nat n 0 = replicate n 0" for n by (induction n) (simp_all add: replicate_append_same)
  have "be_nat (12 + 20) (unat a) = be_nat 12 (unat a div 256 ^ 20) @ be_nat 20 (unat a)" by (rule be_nat_add)
  moreover have "unat a div 256 ^ 20 = 0" using unat_lt2p [of a] by simp
  ultimately show ?thesis by (simp add: be256_def be160_def unat_ucast_address zeros)
qed

lemma address_at [simp]: "length xs = n \<Longrightarrow> address_at_word (xs @ be256 (ucast a) @ ys) n = Ok a"
  by (simp add: address_at_word_def slice_def be256_address)

definition delayed_words :: "address \<Rightarrow> u64 \<Rightarrow> address \<Rightarrow> b256 \<Rightarrow> u256 \<Rightarrow> u64 \<Rightarrow> bytes" where
  "delayed_words inbox k sender hash fee ts =
     be256 (ucast inbox) @ be256 (ucast k) @ be256 (ucast sender) @ be256 hash @ be256 fee @ be256 (ucast ts)"

definition told_delayed ::
    "hexlib \<Rightarrow> RpcLog \<Rightarrow> u64 \<Rightarrow> b256 \<Rightarrow> u64 \<Rightarrow> address \<Rightarrow> u256 \<Rightarrow> u64 \<Rightarrow> u64 \<Rightarrow> DelayedInboxMessage" where
  "told_delayed H lg idx before k sender fee ts l1_block =
     \<lparr>dim_seq_num = idx, dim_block_hash = opt_b256 H (log_blockHash lg), dim_before_inbox_acc = before,
      dim_message =
        \<lparr>header = \<lparr>kind = (if unat k < 256 then of_nat (unat k) else 0), poster = sender, block_number = l1_block,
                   timestamp = ts, request_id = Some (ucast idx), l1_base_fee = fee\<rparr>,
         l2msg = [], batch_gas_cost = None\<rparr>,
      dim_parent_chain_block_number = opt_u64 (log_blockNumber lg)\<rparr>"

lemma message_delivered_event:
  assumes "b256_from_str H (log_topics lg ! 1) = Ok (ucast idx)" and "2 < length (log_topics lg)"
    and "b256_from_str H (log_topics lg ! 2) = Ok before"
  shows "message_delivered H lg (delayed_words inbox k sender hash fee ts) =
    Ok (\<lambda>l1_block. (told_delayed H lg idx before k sender fee ts l1_block, inbox, ucast idx, hash))"
proof -
  let ?d = "delayed_words inbox k sender hash fee ts"
  have 1: "address_at_word ?d 0 = Ok inbox"
    using address_at [of "[]" 0] by (simp add: delayed_words_def)
  have 2: "u64_at_word ?d 32 = Ok k"
    using u64_at [of "be256 (ucast inbox)" 32 k] by (simp add: delayed_words_def)
  have 3: "address_at_word ?d 64 = Ok sender"
    using address_at [of "be256 (ucast inbox) @ be256 (ucast k)" 64 sender] by (simp add: delayed_words_def)
  have 4: "b256_at_word ?d 96 = Ok hash"
    using b256_at [of "be256 (ucast inbox) @ be256 (ucast k) @ be256 (ucast sender)" 96 hash]
    by (simp add: delayed_words_def)
  have 5: "b256_at_word ?d 128 = Ok fee"
    using b256_at [of "be256 (ucast inbox) @ be256 (ucast k) @ be256 (ucast sender) @ be256 hash" 128 fee]
    by (simp add: delayed_words_def)
  have 6: "u64_at_word ?d 160 = Ok ts"
    using u64_at [of "be256 (ucast inbox) @ be256 (ucast k) @ be256 (ucast sender) @ be256 hash @ be256 fee" 160 ts "[]"]
    by (simp add: delayed_words_def)
  show ?thesis
    using assms by (simp add: message_delivered_def or_zero_def told_delayed_def Let_def 1 2 3 4 5 6)
qed

end
