(* ===== verification/Genesis_Props.thy ===== *)
theory Genesis_Props
  imports Genesis Bridge_Props
begin

text \<open>
  Properties of the genesis: what the initial storage of a chain holds, read back slot by slot the way
  ArbOS addresses it, and which init message the scan of the parent chain finds.
\<close>

section \<open>Slots\<close>

text \<open>A slot is a page, the hash of the space and the high bytes of the offset, and a place in it.\<close>

definition page :: "keccak \<Rightarrow> bytes \<Rightarrow> nat \<Rightarrow> bytes" where
  "page K key p = take 31 (be256 (K (key @ be_nat 31 p)))"

lemma length_page [simp]: "length (page K key p) = 31"
  by (simp add: page_def)

lemma be256_last: "be256 w = be_nat 31 (unat w div 256) @ [of_nat (unat w)]"
proof -
  have "be256 w = be_nat (Suc 31) (unat w)" by (simp add: be256_def)
  then show ?thesis by (simp only: be_nat.simps)
qed

lemma unat_be_u64 [simp]: "unat (be_u64 n) = unat n"
  by (simp add: be_u64_def be_u256_def unat_ucast_up)

lemma map_slot_page: "map_slot K key (be_u64 n) = un_be256 (page K key (unat n div 256) @ [of_nat (unat n)])"
  by (simp add: map_slot_def page_def Let_def be256_last [of "be_u64 n"] nth_append)

lemma un_be256_inj: "length xs = 32 \<Longrightarrow> length ys = 32 \<Longrightarrow> un_be256 xs = un_be256 ys \<longleftrightarrow> xs = ys"
  by (metis be256_un_be256)

text \<open>
  The spaces \<open>keys\<close> do not share a page among their first \<open>n\<close>: keccak has no collision there.
\<close>

definition pages_apart :: "keccak \<Rightarrow> bytes list \<Rightarrow> nat \<Rightarrow> bool" where
  "pages_apart K keys n \<longleftrightarrow>
     distinct (concat (map (\<lambda>k. map (page K k) [0..<n]) keys))"

lemma distinct_concatD:
  "distinct (concat (map f xs)) \<Longrightarrow> x \<in> set xs \<Longrightarrow> y \<in> set xs \<Longrightarrow> v \<in> set (f x) \<Longrightarrow> v \<in> set (f y) \<Longrightarrow> x = y"
  by (induction xs) auto

lemma distinct_concat_part: "distinct (concat (map f xs)) \<Longrightarrow> x \<in> set xs \<Longrightarrow> distinct (f x)"
  by (induction xs) auto

lemma pages_apartD:
  assumes "pages_apart K keys n" and "k \<in> set keys" "k' \<in> set keys" and "p < n" "p' < n"
    and "page K k p = page K k' p'"
  shows "k = k'" and "p = p'"
proof -
  have d: "distinct (concat (map (\<lambda>k. map (page K k) [0..<n]) keys))" using assms(1) by (simp add: pages_apart_def)
  have "page K k p \<in> set (map (page K k) [0..<n])" using assms(4) by simp
  moreover have "page K k p \<in> set (map (page K k') [0..<n])" unfolding assms(6) using assms(5) by simp
  ultimately show k: "k = k'" by (rule distinct_concatD [OF d assms(2,3)])
  from distinct_concat_part [OF d assms(2)] have "inj_on (page K k) {0..<n}" by (simp add: distinct_map)
  then show "p = p'" using assms(4-6) k by (auto dest: inj_onD)
qed

definition slot_of :: "keccak \<Rightarrow> storage \<Rightarrow> bytes \<Rightarrow> u64 \<Rightarrow> b256 option" where
  "slot_of K st key n = map_of st (map_slot K key (be_u64 n))"

lemma slot_put:
  assumes "pages_apart K keys n" and "k \<in> set keys" "k' \<in> set keys" and "unat a < 256 * n" "unat b < 256 * n"
  shows "slot_of K (put_slot K k' b v st) k a = (if k = k' \<and> a = b then Some v else slot_of K st k a)"
proof -
  have "map_slot K k (be_u64 a) = map_slot K k' (be_u64 b) \<longleftrightarrow> k = k' \<and> a = b"
  proof
    assume "map_slot K k (be_u64 a) = map_slot K k' (be_u64 b)"
    then have eq: "page K k (unat a div 256) = page K k' (unat b div 256)" "(of_nat (unat a) :: u8) = of_nat (unat b)"
      by (simp_all add: map_slot_page un_be256_inj)
    have "unat a div 256 < n" "unat b div 256 < n" using assms(4,5) by (simp_all add: less_mult_imp_div_less mult.commute)
    from pages_apartD [OF assms(1-3) this eq(1)] have "k = k'" "unat a div 256 = unat b div 256" by auto
    moreover have "unat a mod 256 = unat b mod 256" using eq(2) by (metis unat_of_nat_byte)
    ultimately show "k = k' \<and> a = b" by (metis div_mult_mod_eq word_unat_eq_iff)
  qed simp
  then show ?thesis by (auto simp: slot_of_def put_slot_def update_conv')
qed

section \<open>Byte strings in storage\<close>

text \<open>Reading a byte string: its length, the full words, and the rest at the end of the last word.\<close>

fun read_words :: "keccak \<Rightarrow> storage \<Rightarrow> bytes \<Rightarrow> nat \<Rightarrow> nat \<Rightarrow> u64 \<Rightarrow> bytes option" where
  "read_words K st key 0 rest n =
     (if rest = 0 then Some [] else map_option (\<lambda>w. drop (32 - rest) (be256 w)) (slot_of K st key n))"
| "read_words K st key (Suc m) rest n =
     (case slot_of K st key n of
        None \<Rightarrow> None
      | Some w \<Rightarrow> map_option (append (be256 w)) (read_words K st key m rest (n + 1)))"

definition read_bytes :: "keccak \<Rightarrow> storage \<Rightarrow> bytes \<Rightarrow> bytes option" where
  "read_bytes K st key =
     (case slot_of K st key 0 of
        None \<Rightarrow> None
      | Some len \<Rightarrow> read_words K st key (unat len div 32) (unat len mod 32) 1)"

text \<open>The words of a byte string lie in its own space, from the offset on.\<close>

lemma write_words_other:
  assumes apart: "pages_apart K keys n" "key \<in> set keys" "k \<in> set keys" and n: "256 * n < 2 ^ 64"
  shows "unat off + length data div 32 + 1 < 256 * n \<Longrightarrow> unat a < 256 * n \<Longrightarrow> k \<noteq> key \<or> a < off \<Longrightarrow>
    slot_of K (write_words K key data off st) k a = slot_of K st k a"
proof (induction data arbitrary: off st rule: length_induct)
  case (1 data)
  have put: "slot_of K (put_slot K key off v st) k a = slot_of K st k a" for v
    using slot_put [OF apart(1,3,2), of a off v st] "1.prems" by auto
  show ?case
  proof (cases "32 \<le> length data")
    case True
    then have len: "length data div 32 = Suc (length (drop 32 data) div 32)" by (simp add: div_if)
    have next_off: "unat (off + 1) = Suc (unat off)"
      by (rule unat_Suc64) (use "1.prems" n in linarith)
    have "slot_of K (write_words K key (drop 32 data) (off + 1) st') k a = slot_of K st' k a" for st'
      using "1.IH" [rule_format, of "drop 32 data" "off + 1"] True "1.prems" len next_off
      by (auto simp: word_less_nat_alt)
    with True put show ?thesis by (subst write_words.simps) simp
  next
    case False
    with put show ?thesis by (subst write_words.simps) simp
  qed
qed

text \<open>What is written is read back.\<close>

lemma read_words_written:
  assumes apart: "pages_apart K keys n" "key \<in> set keys" and n: "256 * n < 2 ^ 64"
  shows "unat off + length data div 32 + 1 < 256 * n \<Longrightarrow>
    read_words K (write_words K key data off st) key (length data div 32) (length data mod 32) off = Some data"
proof (induction data arbitrary: off st rule: length_induct)
  case (1 data)
  have off: "unat off < 256 * n" using "1.prems" by simp
  have put: "slot_of K (put_slot K key off v st') key off = Some v" for v st'
    using slot_put [OF apart(1,2,2) off off] by simp
  show ?case
  proof (cases "32 \<le> length data")
    case True
    let ?st = "put_slot K key off (un_be256 (take 32 data)) st"
    have len: "length data div 32 = Suc (length (drop 32 data) div 32)" "length data mod 32 = length (drop 32 data) mod 32"
      using True by (simp_all add: div_if mod_if)
    have next_off: "unat (off + 1) = Suc (unat off)"
      by (rule unat_Suc64) (use "1.prems" n in linarith)
    have "off < off + 1" using next_off by (simp add: word_less_nat_alt)
    then have here: "slot_of K (write_words K key (drop 32 data) (off + 1) ?st) key off = Some (un_be256 (take 32 data))"
      using write_words_other [OF apart(1,2,2) n, of "off + 1" "drop 32 data" off ?st] "1.prems" len next_off off put
      by simp
    have "read_words K (write_words K key (drop 32 data) (off + 1) ?st) key
        (length (drop 32 data) div 32) (length (drop 32 data) mod 32) (off + 1) = Some (drop 32 data)"
      using "1.IH" [rule_format, of "drop 32 data" "off + 1" ?st] True "1.prems" len next_off by simp
    with here True show ?thesis
      by (subst write_words.simps) (simp add: len be256_un_be256)
  next
    case False
    let ?w = "replicate (32 - length data) 0 @ data"
    have "drop (32 - length data) (be256 (un_be256 ?w)) = data"
      using False by (subst be256_un_be256) simp_all
    with False put show ?thesis by (subst write_words.simps) simp
  qed
qed

lemma read_words_cong:
  assumes same: "\<And>a. unat a < 256 * n \<Longrightarrow> slot_of K st key a = slot_of K st' key a" and n: "256 * n < 2 ^ 64"
  shows "unat off + m < 256 * n \<Longrightarrow> read_words K st key m rest off = read_words K st' key m rest off"
proof (induction m arbitrary: off)
  case (Suc m)
  have "unat (off + 1) = Suc (unat off)" by (rule unat_Suc64) (use Suc.prems n in linarith)
  with Suc.IH [of "off + 1"] Suc.prems same [of off] show ?case by (simp split: option.split)
qed (simp add: same)

lemma read_bytes_cong:
  assumes "\<And>a. unat a < 256 * n \<Longrightarrow> slot_of K st key a = slot_of K st' key a" and "256 * n < 2 ^ 64"
    and "slot_of K st' key 0 = Some len" and "unat len div 32 + 1 < 256 * n"
  shows "read_bytes K st key = read_bytes K st' key"
  using assms(3,4) assms(1) [of 0] read_words_cong [where off = 1, OF assms(1,2)]
  by (simp add: read_bytes_def)

lemma write_bytes_other:
  assumes "pages_apart K keys n" "key \<in> set keys" "k \<in> set keys" and "256 * n < 2 ^ 64"
    and "length data div 32 + 2 < 256 * n" and "unat a < 256 * n" and "k \<noteq> key"
  shows "slot_of K (write_bytes K key data st) k a = slot_of K st k a"
  using assms by (simp add: write_bytes_def write_words_other [OF assms(1-4)] slot_put [OF assms(1,3,2)])

lemma read_bytes_written:
  assumes "pages_apart K keys n" "key \<in> set keys" and "256 * n < 2 ^ 64" and "length data div 32 + 2 < 256 * n"
    and "length data < 2 ^ 64"
    and same: "\<And>a. unat a < 256 * n \<Longrightarrow> slot_of K st' key a = slot_of K (write_bytes K key data st) key a"
  shows "read_bytes K st' key = Some data"
proof -
  let ?st = "write_bytes K key data st"
  have len: "slot_of K ?st key 0 = Some (be_u64 (of_nat (length data)))"
    using assms(4) by (simp add: write_bytes_def write_words_other [OF assms(1,2,2,3)] slot_put [OF assms(1,2,2)])
  then have "read_bytes K ?st key = Some data"
    using read_words_written [OF assms(1-3), of 1 data] assms(4,5)
    by (simp add: read_bytes_def unat_of_nat64 write_bytes_def)
  then show ?thesis
    using read_bytes_cong [OF same assms(3) len] assms(4,5) by (simp add: unat_of_nat64)
qed

section \<open>The initial storage\<close>

abbreviation spaces :: "keccak \<Rightarrow> bytes list" where
  "spaces K \<equiv> [[], subspace K [] CHAIN_CONFIG_SUBSPACE, subspace K [] L2_PRICING_SUBSPACE,
     subspace K [] L1_PRICING_SUBSPACE]"

lemma distinct_of_concat:
  "distinct (concat (map f xs)) \<Longrightarrow> (\<And>x. x \<in> set xs \<Longrightarrow> f x \<noteq> []) \<Longrightarrow> distinct xs"
proof -
  assume d: "distinct (concat (map f xs))" and ne: "\<And>x. x \<in> set xs \<Longrightarrow> f x \<noteq> []"
  have "[] \<notin> set (map f xs)" using ne by (metis imageE set_map)
  then have "removeAll [] (map f xs) = map f xs" by (rule removeAll_id)
  with d have "distinct (map f xs)" by (simp only: distinct_concat_iff)
  then show ?thesis by (simp only: distinct_map)
qed

lemma spaces_distinct:
  assumes "pages_apart K keys n" and "0 < n"
  shows "distinct keys"
  by (rule distinct_of_concat [of "\<lambda>k. map (page K k) [0..<n]"])
     (use assms in \<open>auto simp: pages_apart_def upt_conv_Cons\<close>)

text \<open>C33: the initial storage of a chain, read the way ArbOS addresses it, holds the chain id, the ArbOS
  version, the base fees of both layers and, byte for byte, the chain configuration, when keccak has
  no collision on the pages in use.\<close>

theorem genesis_storage_reads:
  assumes "pages_apart K (spaces K) n" and "n < 2 ^ 48" and "length conf div 32 + 2 < 256 * n"
    and "st = build_minimal_arbos_storage K cid (Some conf) fee"
  shows "slot_of K st [] VERSION_OFFSET = Some 1 \<and> slot_of K st [] CHAIN_ID_OFFSET = Some (ucast cid) \<and>
    read_bytes K st (subspace K [] CHAIN_CONFIG_SUBSPACE) = Some conf \<and>
    slot_of K st (subspace K [] L2_PRICING_SUBSPACE) L2_BASE_FEE_WEI_OFFSET = Some 100000000 \<and>
    slot_of K st (subspace K [] L1_PRICING_SUBSPACE) PRICE_PER_UNIT_OFFSET = Some fee"
proof -
  have n: "0 < n" using assms(3) by (cases n) auto
  have small: "m < 256 \<Longrightarrow> m < 256 * n" for m using n by (cases n) auto
  have d: "distinct (spaces K)" by (rule spaces_distinct [OF assms(1) n])
  have len: "length conf < 2 ^ 64" "256 * n < 2 ^ 64" using assms(2,3) by simp_all
  note put = slot_put [OF assms(1)] write_bytes_other [OF assms(1) _ _ len(2) assms(3)]
  let ?cc = "subspace K [] CHAIN_CONFIG_SUBSPACE" let ?l2 = "subspace K [] L2_PRICING_SUBSPACE"
  let ?l1 = "subspace K [] L1_PRICING_SUBSPACE"
  have apart: "?cc \<noteq> []" "?l2 \<noteq> []" "?l1 \<noteq> []" "?cc \<noteq> ?l2" "?cc \<noteq> ?l1" "?l2 \<noteq> ?l1" using d by auto
  note storage = assms(4) build_minimal_arbos_storage_def Let_def put small genesis_offsets n apart apart [symmetric]
    be_u64_def be_u256_def INITIAL_BASE_FEE_WEI_def INITIAL_MIN_BASE_FEE_WEI_def
  have "slot_of K st [] VERSION_OFFSET = Some 1" "slot_of K st [] CHAIN_ID_OFFSET = Some (ucast cid)"
    by (simp_all add: storage)
  moreover have "slot_of K st ?l2 L2_BASE_FEE_WEI_OFFSET = Some 100000000"
    by (simp add: storage)
  moreover have "slot_of K st ?l1 PRICE_PER_UNIT_OFFSET = Some fee"
    by (simp add: storage)
  moreover have "read_bytes K st ?cc = Some conf"
  proof -
    obtain base u1 u2 u3 u4 u5 u6 u7 u8 where st: "st = put_slot K ?l1 PRICE_PER_UNIT_OFFSET u1
        (put_slot K ?l2 L2_BACKLOG_TOLERANCE_OFFSET u2 (put_slot K ?l2 L2_PRICING_INERTIA_OFFSET u3
        (put_slot K ?l2 L2_GAS_BACKLOG_OFFSET u4 (put_slot K ?l2 L2_MIN_BASE_FEE_WEI_OFFSET u5
        (put_slot K ?l2 L2_BASE_FEE_WEI_OFFSET u6 (put_slot K ?l2 L2_PER_BLOCK_GAS_LIMIT_OFFSET u7
        (put_slot K ?l2 L2_SPEED_LIMIT_PER_SECOND_OFFSET u8 (write_bytes K ?cc conf base))))))))"
      using that assms(4) unfolding build_minimal_arbos_storage_def Let_def option.case by blast
    have "slot_of K st ?cc a = slot_of K (write_bytes K ?cc conf base) ?cc a" if "unat a < 256 * n" for a
      by (simp add: st put small genesis_offsets n apart that)
    then show ?thesis by (intro read_bytes_written [OF assms(1) _ len(2) assms(3) len(1)]) simp_all
  qed
  ultimately show ?thesis by blast
qed

text \<open>A hash that is enough for four spaces of one page.\<close>

definition four_spaces :: keccak where
  "four_spaces x =
     (if length x = 1 then ucast (hd x) else if length x = 63 then 256 * (1 + ucast (x ! 31)) else 0)"

lemma page_number: "page K key p = be_nat 31 (unat (K (key @ be_nat 31 p)) div 256)"
  by (simp add: page_def be256_last)

lemma be_nat_small_inj: "a < 256 ^ m \<Longrightarrow> b < 256 ^ m \<Longrightarrow> be_nat m a = be_nat m b \<longleftrightarrow> a = b"
  by (metis mod_less nat_be_be_nat)

lemma four_spaces_simps:
  "four_spaces (be_nat 31 p) = 0" "subspace four_spaces [] i = be256 (ucast i)"
  "four_spaces (be256 w @ be_nat 31 p) = 256 * (1 + ucast (of_nat (unat w) :: u8))"
  by (simp_all add: four_spaces_def subspace_def nth_append be256_last)

lemma four_spaces_apart: "pages_apart four_spaces (spaces four_spaces) 1"
proof -
  have "page four_spaces [] 0 = be_nat 31 0" "page four_spaces (be256 7) 0 = be_nat 31 8"
    "page four_spaces (be256 1) 0 = be_nat 31 2" "page four_spaces (be256 0) 0 = be_nat 31 1"
    by (simp_all add: page_number four_spaces_simps)
  then show ?thesis
    by (simp add: pages_apart_def four_spaces_simps CHAIN_CONFIG_SUBSPACE_def L2_PRICING_SUBSPACE_def
        L1_PRICING_SUBSPACE_def be_nat_small_inj)
qed

theorem genesis_storage_reads_witness:
  "read_bytes four_spaces (build_minimal_arbos_storage four_spaces 421614 (Some [1, 2, 3]) 5) (be256 7) = Some [1, 2, 3] \<and>
   slot_of four_spaces (build_minimal_arbos_storage four_spaces 421614 (Some [1, 2, 3]) 5) [] CHAIN_ID_OFFSET = Some 421614"
  using genesis_storage_reads [OF four_spaces_apart _ _ refl, of "[1, 2, 3]" 421614 5]
  by (simp add: four_spaces_simps CHAIN_CONFIG_SUBSPACE_def)

section \<open>The scan for the init message\<close>

lemma answers_ok [simp]: "answers (okM v) v"
  by (simp add: answers_def okM_def)

lemma answers_bind: "answers m v \<Longrightarrow> answers (f v) u \<Longrightarrow> answers (bindM m f) u"
  by (simp add: answers_def bindM_def split_beta)

text \<open>
  \<open>delayed_log B dms\<close>: the bridge answers a lookup with those of the messages \<open>dms\<close> that lie in
  the range, which are in the order of their blocks.
\<close>

abbreviation at_block :: "DelayedInboxMessage \<Rightarrow> u64" where
  "at_block \<equiv> dim_parent_chain_block_number"

definition between :: "u64 \<Rightarrow> u64 \<Rightarrow> DelayedInboxMessage list \<Rightarrow> DelayedInboxMessage list" where
  "between a b dms = filter (\<lambda>m. a \<le> at_block m \<and> at_block m \<le> b) dms"

definition delayed_log :: "'w DelayedBridge \<Rightarrow> DelayedInboxMessage list \<Rightarrow> bool" where
  "delayed_log B dms \<longleftrightarrow> sorted (map at_block dms) \<and> (\<forall>a b. answers (bridge_lookup B a b) (between a b dms))"

lemma between_split:
  assumes "sorted (map at_block dms)" and "a \<le> c" "c < b" "unat d = unat c + 1"
  shows "between a b dms = between a c dms @ between d b dms"
  using assms(1)
proof (induction dms)
  case (Cons m dms)
  show ?case
  proof (cases "at_block m \<le> c")
    case True
    then have "\<not> d \<le> at_block m" using assms(4) by (simp add: word_le_nat_alt)
    with True Cons assms(3) show ?thesis by (auto simp: between_def)
  next
    case False
    with Cons.prems have "between a c (m # dms) = []" by (auto simp: between_def filter_empty_conv)
    moreover have "between a b (m # dms) = between d b (m # dms)"
      using False Cons.prems assms(2,4) by (auto simp: between_def word_le_nat_alt intro!: filter_cong)
    ultimately show ?thesis by simp
  qed
qed (simp add: between_def)

lemma between_window:
  assumes "sorted (map at_block dms)" and le: "start \<le> latest" and stop: "stop = min (sat_add start 9999) latest"
  shows "between start latest dms =
    between start stop dms @ (if stop = latest then [] else between (sat_add stop 1) latest dms)"
proof (cases "stop = latest")
  case False
  then have lt: "unat stop < unat latest" using window_advances [OF le] stop by simp
  have "start \<le> stop" using le stop unat_lt64 [of start]
    by (auto simp: min_def word_le_nat_alt unat_sat_add simp del: unat_lt64)
  moreover have "unat (sat_add stop 1) = unat stop + 1"
    using lt unat_lt64 [of latest] by (simp add: unat_sat_add del: unat_lt64)
  ultimately show ?thesis using between_split [OF assms(1)] lt False by (simp add: word_less_nat_alt)
qed simp

lemma find_append: "find P (xs @ ys) = (case find P xs of None \<Rightarrow> find P ys | Some x \<Rightarrow> Some x)"
  by (induction xs) auto

abbreviation init_kind :: "DelayedInboxMessage \<Rightarrow> bool" where
  "init_kind m \<equiv> kind (header (dim_message m)) = 11"

lemma scan_init_eq:
  assumes "delayed_log B dms"
  shows "answers (scan_init B start latest) (map_option dim_message (find init_kind (between start latest dms)))"
  using assms
proof (induction B start latest rule: scan_init.induct)
  case (1 B start latest)
  let ?stop = "min (sat_add start 9999) latest"
  have look: "answers (bridge_lookup B start ?stop) (between start ?stop dms)" and sorted: "sorted (map at_block dms)"
    using "1.prems" by (simp_all add: delayed_log_def)
  show ?case
  proof (cases "start \<le> latest")
    case False
    then have "between start latest dms = []" by (auto simp: between_def filter_empty_conv)
    with False show ?thesis by (subst scan_init.simps) simp
  next
    case True
    note window = between_window [OF sorted True refl]
    consider (found) m where "find init_kind (between start ?stop dms) = Some m"
      | (last_window) "find init_kind (between start ?stop dms) = None" "?stop = latest"
      | (more) "find init_kind (between start ?stop dms) = None" "?stop \<noteq> latest" by fastforce
    then show ?thesis
    proof cases
      case found
      with True show ?thesis
        by (subst scan_init.simps) (simp add: Let_def answers_bind [OF look] window find_append)
    next
      case last_window
      with True show ?thesis
        by (subst scan_init.simps) (simp add: Let_def answers_bind [OF look [unfolded last_window(2)]])
    next
      case more
      have "answers (scan_init B (sat_add ?stop 1) latest)
          (map_option dim_message (find init_kind (between (sat_add ?stop 1) latest dms)))"
        by (rule "1.IH" [OF True refl more(1,2) "1.prems"])
      with True more show ?thesis
        by (subst scan_init.simps) (simp add: Let_def answers_bind [OF look] window find_append)
    qed
  qed
qed

text \<open>C34: the genesis of a chain is that of its init message: the scan, window by window, finds the first
  delayed message of kind 11 between the block of the deployment and the safe block, and the
  specification is made from what it says; when there is none, none is made.\<close>

theorem genesis_from_init_message:
  assumes "delayed_log B dms" and "answers (latest_safe_block_nr HR) latest"
    and "\<And>m. find init_kind (between deployed latest dms) = Some m \<Longrightarrow>
      parse_init_message (dim_message m) = Ok (parsed m)"
  shows "answers (build_spec_from_init_message K from_genesis B HR deployed)
    (case find init_kind (between deployed latest dms) of
       None \<Rightarrow> None
     | Some m \<Rightarrow> Some (from_genesis (genesis_of K (parsed m))
         (case chain_id_u64 (parsed m) of Some n \<Rightarrow> n | None \<Rightarrow> 421614)))"
proof -
  have limit: "answers (scan_limit HR deployed) latest"
    using assms(2) by (simp add: scan_limit_def matchM_def answers_def okM_def split_beta)
  show ?thesis
    unfolding build_spec_from_init_message_def
  proof (rule answers_bind [OF limit], rule answers_bind [OF scan_init_eq [OF assms(1)]])
    show "answers
      (case map_option dim_message (find init_kind (between deployed latest dms)) of
         None \<Rightarrow> okM None
       | Some init_msg \<Rightarrow>
           bindM (liftR (parse_init_message init_msg)) (\<lambda>parsed.
           okM (Some (from_genesis (genesis_of K parsed) (gen_chain_id (genesis_of K parsed))))))
      (case find init_kind (between deployed latest dms) of
         None \<Rightarrow> None
       | Some m \<Rightarrow> Some (from_genesis (genesis_of K (parsed m))
           (case chain_id_u64 (parsed m) of Some n \<Rightarrow> n | None \<Rightarrow> 421614)))"
      using assms(3)
      by (simp add: answers_def okM_def liftR_def bindM_def genesis_of_def Let_def split: option.split)
  qed
qed

text \<open>A chain whose second delayed message, far from the deployment, is the init message.\<close>

definition init_body :: L1IncomingMessage where
  "init_body = sample_message\<lparr>header := sample_header\<lparr>kind := 11\<rparr>, l2msg := be256 412346 @ [1] @ be256 9 @ [7]\<rparr>"

definition sample_dim :: "u64 \<Rightarrow> u64 \<Rightarrow> L1IncomingMessage \<Rightarrow> DelayedInboxMessage" where
  "sample_dim i b m =
     \<lparr>dim_seq_num = i, dim_block_hash = 0, dim_before_inbox_acc = 0, dim_message = m,
      dim_parent_chain_block_number = b\<rparr>"

definition init_chain :: "DelayedInboxMessage list" where
  "init_chain = [sample_dim 0 5 (sample_message\<lparr>header := sample_header\<lparr>kind := 3\<rparr>\<rparr>), sample_dim 1 25000 init_body]"

definition logged_bridge :: "DelayedInboxMessage list \<Rightarrow> unit DelayedBridge" where
  "logged_bridge dms =
     \<lparr>bridge_message_count = (\<lambda>_. still 0), bridge_accumulator = (\<lambda>_ _ _. still 0),
      bridge_lookup = (\<lambda>a b. still (between a b dms))\<rparr>"

theorem genesis_from_init_message_witness:
  "fst (build_spec_from_init_message four_spaces (\<lambda>g n. (gen_chain_id g, n)) (logged_bridge init_chain)
      \<lparr>last_header = still 0, latest_safe_block_nr = still 30000, latest_finalized_block_nr = still 0\<rparr> 5 ()) =
   Ok (Some (412346, 412346))"
proof -
  let ?p = "\<lparr>chain_id = 412346, initial_l1_base_fee = 9, chain_config_json = Some [7]\<rparr>"
  have log: "delayed_log (logged_bridge init_chain) init_chain"
    by (simp add: delayed_log_def logged_bridge_def init_chain_def sample_dim_def)
  have f: "find init_kind (between 5 30000 init_chain) = Some (sample_dim 1 25000 init_body)"
    by (simp add: init_chain_def between_def sample_dim_def init_body_def sample_message_def sample_header_def)
  have p: "parse_init_message init_body = Ok ?p"
    using parse_init_versioned [of init_body 412346 1 "be256 9 @ [7]"] by (simp add: init_body_def Let_def)
  let ?HR = "\<lparr>last_header = still 0, latest_safe_block_nr = still 30000, latest_finalized_block_nr = still 0\<rparr>"
  have "answers (build_spec_from_init_message four_spaces (\<lambda>g n. (gen_chain_id g, n)) (logged_bridge init_chain) ?HR 5)
    (case find init_kind (between 5 30000 init_chain) of
       None \<Rightarrow> None
     | Some m \<Rightarrow> Some (gen_chain_id (genesis_of four_spaces ?p),
         (case chain_id_u64 ?p of Some n \<Rightarrow> n | None \<Rightarrow> 421614)))"
    by (rule genesis_from_init_message [OF log]) (use f p in \<open>auto simp: sample_dim_def\<close>)
  then show ?thesis using f by (simp add: answers_def genesis_of_def Let_def chain_id_u64_def)
qed

end
