(* ===== verification/Config_Props.thy ===== *)
theory Config_Props
  imports NodeConfig Genesis_Props
begin

text \<open>
  Properties of the configuration: what of the command line reaches the parser, where the addresses of
  the contracts come from, and which chain a node runs.
\<close>

section \<open>The command line\<close>

text \<open>The options of an argument list: the arguments that are not the value of the one before.\<close>

fun options_of :: "string list \<Rightarrow> string list" where
  "options_of [] = []"
| "options_of [arg] = [arg]"
| "options_of (arg # val # args) =
     (if takes_value arg \<and> CHR ''='' \<notin> set arg then arg # options_of args else arg # options_of (val # args))"

lemma takes_value_supported: "takes_value arg \<Longrightarrow> is_supported arg"
  by (auto simp: takes_value_def is_supported_def value_options_def supported_options_def)

lemma length_filter_rest: "length (filter_rest args) \<le> length args"
  by (induction args rule: filter_rest.induct) (auto intro: le_SucI)

text \<open>What is handed to the parser is a part of the command line in which every option is a supported
  one, a command line of supported options is handed over as it is, and \<open>--l2-rpc-url\<close>, an option
  of the parser, is not among the supported ones.\<close>

theorem arguments_filtered:
  "subseq (filter_rest args) args \<and> list_all is_supported (options_of (filter_rest args)) \<and>
   (filter_rest args = args \<longleftrightarrow> list_all is_supported (options_of args)) \<and> \<not> is_supported ''--l2-rpc-url''"
proof -
  have "subseq (filter_rest args) args"
    by (induction args rule: filter_rest.induct) auto
  moreover have "list_all is_supported (options_of (filter_rest args))"
  proof (induction args rule: filter_rest.induct)
    case (3 arg val args)
    then show ?case by (cases "filter_rest (val # args)") auto
  qed auto
  moreover have "filter_rest args = args \<longleftrightarrow> list_all is_supported (options_of args)"
  proof (induction args rule: filter_rest.induct)
    case (3 arg val args)
    have "filter_rest (val # args) \<noteq> arg # val # args"
      using length_filter_rest [of "val # args"] by (metis impossible_Cons list.size(4) add.commute)
    with 3 show ?case using takes_value_supported by auto
  qed auto
  moreover have "\<not> is_supported ''--l2-rpc-url''"
    by (simp add: is_supported_def supported_options_def starts_with_def)
  ultimately show ?thesis by blast
qed

section \<open>Where the addresses come from\<close>

fun first_of :: "'a option list \<Rightarrow> 'a option" where
  "first_of [] = None"
| "first_of (x # xs) = (case x of Some v \<Rightarrow> Some v | None \<Rightarrow> first_of xs)"

text \<open>The value of the configuration file, and of the chain's own file it names.\<close>

definition conf_value :: "'v host \<Rightarrow> NodeArgs \<Rightarrow> 'v option" where
  "conf_value F a =
     Option.bind (Option.bind (arg_conf_file a) (\<lambda>p. ok_of (read_file F p))) (\<lambda>t. ok_of (parse_json F t))"

definition info_value :: "'v host \<Rightarrow> NodeArgs \<Rightarrow> 'v option" where
  "info_value F a =
     Option.bind (conf_value F a) (\<lambda>v.
     Option.bind (Option.bind (pointer F v ''/chain/info-files'') (value_array F)) (\<lambda>files. case files of
       [] \<Rightarrow> None
     | x # _ \<Rightarrow> Option.bind (Option.bind (value_str F x) (\<lambda>p. ok_of (read_file F p))) (\<lambda>t. ok_of (parse_json F t))))"

definition info_at :: "'v host \<Rightarrow> NodeArgs \<Rightarrow> ('v \<Rightarrow> 'v option) \<Rightarrow> address option" where
  "info_at F a get = info_address F (Option.bind (info_value F a) get)"

definition argument_address :: "'v host \<Rightarrow> string option \<Rightarrow> address option" where
  "argument_address F s = Option.bind s (\<lambda>s. ok_of (parse_address F s))"

lemma when_some_simps [simp]: "when_some (Some v) f st = f v st" "when_some None f st = st"
  by (simp_all add: when_some_def)

lemma or_default_simps [simp]: "or_default (Some v) d = v" "or_default None d = d"
  by (simp_all add: or_default_def)

lemma apply_info_addresses:
  "set_delayed_bridge (apply_info F v st) =
     first_of [info_address F (get_field F v ''bridge''), set_delayed_bridge st,
       info_address F (pointer F v ''/contracts/Bridge/address'')]"
  "set_sequencer_inbox (apply_info F v st) =
     first_of [info_address F (get_field F v ''sequencerInbox''), set_sequencer_inbox st,
       info_address F (pointer F v ''/contracts/SequencerInbox/address'')]"
  by (simp_all add: apply_info_def Let_def when_some_def split: option.split)

lemma info_address_None [simp]: "info_address F None = None"
  by (simp add: info_address_def)

text \<open>The settings of the file leave the addresses alone; only the chain's own file may set them.\<close>

lemma when_some_keeps:
  "(\<And>v st. set_delayed_bridge (f v st) = set_delayed_bridge st) \<Longrightarrow>
   set_delayed_bridge (when_some x f st) = set_delayed_bridge st"
  "(\<And>v st. set_sequencer_inbox (f v st) = set_sequencer_inbox st) \<Longrightarrow>
   set_sequencer_inbox (when_some x f st) = set_sequencer_inbox st"
  by (cases x; simp)+

lemma info_value_files:
  assumes "conf_value F a = Some v"
  shows "info_value F a = Option.bind (Option.bind (Option.bind
      (case or_default (Option.bind (pointer F v ''/chain/info-files'') (value_array F)) [] of x # _ \<Rightarrow> Some x | [] \<Rightarrow> None)
      (value_str F)) (\<lambda>p. ok_of (read_file F p))) (\<lambda>t. ok_of (parse_json F t))"
proof -
  define files where "files = Option.bind (pointer F v ''/chain/info-files'') (value_array F)"
  have "info_value F a = Option.bind files (\<lambda>files. case files of [] \<Rightarrow> None
      | x # _ \<Rightarrow> Option.bind (Option.bind (value_str F x) (\<lambda>p. ok_of (read_file F p))) (\<lambda>t. ok_of (parse_json F t)))"
    unfolding info_value_def assms files_def by (simp only: Option.bind.bind_lunit)
  then show ?thesis unfolding files_def [symmetric]
    by (cases files) (auto split: list.split)
qed

lemma apply_conf_addresses:
  "\<exists>st'. apply_conf F v st = when_some
      (Option.bind (Option.bind (Option.bind
          (case or_default (Option.bind (pointer F v ''/chain/info-files'') (value_array F)) [] of x # _ \<Rightarrow> Some x | [] \<Rightarrow> None)
          (value_str F)) (\<lambda>p. ok_of (read_file F p))) (\<lambda>t. ok_of (parse_json F t))) (apply_info F) st' \<and>
    set_delayed_bridge st' = set_delayed_bridge st \<and> set_sequencer_inbox st' = set_sequencer_inbox st"
  unfolding apply_conf_def Let_def
  by (rule exI, rule conjI, rule refl) (simp add: when_some_keeps)

lemma resolve_addresses:
  obtains st where "resolve_settings F a = when_some (info_value F a) (apply_info F) st"
    and "set_delayed_bridge st = argument_address F (arg_delayed_bridge a)"
    and "set_sequencer_inbox st = argument_address F (arg_sequencer_inbox a)"
proof (cases "conf_value F a")
  case None
  then show ?thesis
    by (intro that [of "initial_settings F a"])
       (simp_all add: resolve_settings_def conf_value_def info_value_def initial_settings_def argument_address_def)
next
  case (Some v)
  obtain st where "apply_conf F v (initial_settings F a) = when_some (info_value F a) (apply_info F) st"
    and "set_delayed_bridge st = set_delayed_bridge (initial_settings F a)"
    and "set_sequencer_inbox st = set_sequencer_inbox (initial_settings F a)"
    using apply_conf_addresses [of F v "initial_settings F a"] unfolding info_value_files [OF Some] by blast
  with Some show ?thesis
    by (intro that [of st]) (simp_all add: resolve_settings_def conf_value_def initial_settings_def argument_address_def)
qed

lemma of_sum_Ok_iff: "of_sum r = Ok x \<longleftrightarrow> r = Inr x"
  by (simp add: of_sum_def split: sum.split)

text \<open>The addresses of the two contracts: the chain's own file comes first, the command line second, the
  second spelling of the chain's own file third, and the chain table last.\<close>

theorem contract_addresses:
  assumes "choose_chain F a (resolve_settings F a) = Ok ch"
  shows "\<exists>ra json_bridge json_inbox. ci_rollup (ch_entry ch) = Some ra \<and>
    parse_address F (ra_bridge ra) = Inr json_bridge \<and> parse_address F (ra_sequencer_inbox ra) = Inr json_inbox \<and>
    first_of [info_at F a (\<lambda>i. get_field F i ''bridge''), argument_address F (arg_delayed_bridge a),
      info_at F a (\<lambda>i. pointer F i ''/contracts/Bridge/address''), Some json_bridge] = Some (ch_delayed_bridge ch) \<and>
    first_of [info_at F a (\<lambda>i. get_field F i ''sequencerInbox''), argument_address F (arg_sequencer_inbox a),
      info_at F a (\<lambda>i. pointer F i ''/contracts/SequencerInbox/address''), Some json_inbox] = Some (ch_sequencer_inbox ch)"
proof -
  obtain st where st: "resolve_settings F a = when_some (info_value F a) (apply_info F) st"
      "set_delayed_bridge st = argument_address F (arg_delayed_bridge a)"
      "set_sequencer_inbox st = argument_address F (arg_sequencer_inbox a)"
    by (rule resolve_addresses)
  have bridge: "or_default (set_delayed_bridge (resolve_settings F a)) d = x \<Longrightarrow>
      first_of [info_at F a (\<lambda>i. get_field F i ''bridge''), argument_address F (arg_delayed_bridge a),
        info_at F a (\<lambda>i. pointer F i ''/contracts/Bridge/address''), Some d] = Some x" for d x
    using st by (cases "info_value F a") (auto simp: info_at_def apply_info_addresses split: option.split)
  have inbox: "or_default (set_sequencer_inbox (resolve_settings F a)) d = x \<Longrightarrow>
      first_of [info_at F a (\<lambda>i. get_field F i ''sequencerInbox''), argument_address F (arg_sequencer_inbox a),
        info_at F a (\<lambda>i. pointer F i ''/contracts/SequencerInbox/address''), Some d] = Some x" for d x
    using st by (cases "info_value F a") (auto simp: info_at_def apply_info_addresses split: option.split)
  obtain ra jb js where "ci_rollup (ch_entry ch) = Some ra" "parse_address F (ra_bridge ra) = Inr jb"
      "parse_address F (ra_sequencer_inbox ra) = Inr js"
      "or_default (set_delayed_bridge (resolve_settings F a)) jb = ch_delayed_bridge ch"
      "or_default (set_sequencer_inbox (resolve_settings F a)) js = ch_sequencer_inbox ch"
    using assms by (auto simp: choose_chain_def bindR_Ok_iff of_sum_Ok_iff split: option.splits)
  with bridge inbox show ?thesis by blast
qed

text \<open>A host whose configuration file names a chain file with one address, under its second spelling.\<close>

datatype toy = Conf | Info | Text string

definition toy_host :: "toy host" where
  "toy_host =
     \<lparr>read_file = (\<lambda>p. if p = ''conf'' \<or> p = ''info'' then Inr p else Inl (Ext ''no such file'')),
      parse_json = (\<lambda>t. Inr (if t = ''conf'' then Conf else Info)), parse_chains = (\<lambda>_. Inr []),
      env_var = (\<lambda>_. None),
      pointer = (\<lambda>v p. if v = Conf \<and> p = ''/chain/info-files'' then Some Conf
        else if v = Info \<and> p = ''/contracts/Bridge/address'' then Some (Text ''7'') else None),
      get_field = (\<lambda>_ _. None), value_str = (\<lambda>v. case v of Text s \<Rightarrow> Some s | _ \<Rightarrow> None),
      value_bool = (\<lambda>_. None), value_u64 = (\<lambda>_. None), value_array = (\<lambda>_. Some [Text ''info'']),
      parse_address = (\<lambda>s. Inr (of_nat (length s)))\<rparr>"

definition toy_args :: NodeArgs where
  "toy_args =
     \<lparr>arg_l1_rpc_url = None, arg_l2_rpc_url = None, arg_sequencer_inbox = None, arg_delayed_bridge = None,
      arg_first_message_block = None, arg_chaininfo_file = None, arg_network = Some ''local'',
      arg_sync_till_block = 0, arg_sequencer = False, arg_conf_file = Some ''conf'', arg_rpc_host = [],
      arg_rpc_port = 8547, arg_ws_port = 8548, arg_feed_enable = True, arg_feed_port = 9642,
      arg_poster_enable = False, arg_poster_4844_enable = False, arg_validator_enable = False,
      arg_db_path = [], arg_beacon_url = None, arg_secondary_beacon_url = None,
      arg_beacon_authorization = None, arg_beacon_blob_directory = None\<rparr>"

lemma toy_chosen: "choose_chain toy_host toy_args (resolve_settings toy_host toy_args) =
    Ok \<lparr>ch_entry = embedded_chains ! 5, ch_delayed_bridge = 1, ch_sequencer_inbox = 42, ch_deployed_at = 4139226\<rparr>"
  by (simp add: choose_chain_def resolve_settings_def initial_settings_def apply_conf_def apply_info_def Let_def
      toy_host_def toy_args_def load_chains_def select_chain_def select_by_chain_id_def select_by_name_def
      network_chain_id_def embedded_chains_def info_address_def ok_of_def of_sum_def or_default_def)

theorem contract_addresses_witness:
  "first_of [info_at toy_host toy_args (\<lambda>i. get_field toy_host i ''bridge''),
     argument_address toy_host (arg_delayed_bridge toy_args),
     info_at toy_host toy_args (\<lambda>i. pointer toy_host i ''/contracts/Bridge/address''), Some 42] = Some 1"
proof -
  have "parse_address toy_host s = Inr (of_nat (length s))" for s by (simp add: toy_host_def)
  with contract_addresses [OF toy_chosen] show ?thesis
    by (auto simp: embedded_chains_def simp del: first_of.simps)
qed

section \<open>The chain\<close>

text \<open>Without a chain table of its own a node runs the chain \<open>sepolia-rollup\<close> whatever network it is
  given, \<open>local\<close> included, and always starts from the fetched genesis, never from an init
  message.\<close>

theorem embedded_chain_only:
  assumes "arg_chaininfo_file a = None" and "choose_chain F a st = Ok ch"
  shows "ci_chain_name (ch_entry ch) = Some ''sepolia-rollup'' \<and> ch_deployed_at ch = 4139226 \<and>
    build_spec F a ch baked from_init = baked (ch_entry ch) (or_default
      (first_of [arg_l2_rpc_url a, env_var F ''NITRO_L2_RPC'']) default_l2_rpc)"
proof -
  have "select_chain embedded_chains (network_chain_id n) = Ok (embedded_chains ! 5)" for n
    by (auto simp: select_chain_def select_by_chain_id_def select_by_name_def network_chain_id_def embedded_chains_def
        split: option.split)
  then have "ch_entry ch = embedded_chains ! 5" "ch_deployed_at ch = 4139226"
    using assms by (auto simp: choose_chain_def load_chains_def bindR_Ok_iff embedded_chains_def split: option.splits)
  then show ?thesis
    by (auto simp: build_spec_def is_sepolia_def embedded_chains_def split: option.split)
qed

theorem embedded_chain_only_witness:
  "build_spec toy_host toy_args
     \<lparr>ch_entry = embedded_chains ! 5, ch_delayed_bridge = 1, ch_sequencer_inbox = 42, ch_deployed_at = 4139226\<rparr>
     (\<lambda>c url. okM url) (\<lambda>_. okM None) () = (Ok default_l2_rpc, ())"
proof -
  have "arg_chaininfo_file toy_args = None" "arg_l2_rpc_url toy_args = None" "env_var toy_host x = None" for x
    by (simp_all add: toy_args_def toy_host_def)
  with embedded_chain_only [OF _ toy_chosen, where baked = "\<lambda>c url. okM url" and from_init = "\<lambda>_. okM None :: (unit, string option) M"]
  have "build_spec toy_host toy_args
      \<lparr>ch_entry = embedded_chains ! 5, ch_delayed_bridge = 1, ch_sequencer_inbox = 42, ch_deployed_at = 4139226\<rparr>
      (\<lambda>c url. okM url) (\<lambda>_. okM None :: (unit, string option) M) = okM default_l2_rpc" by simp
  then show ?thesis by (simp only: okM_def)
qed

end
