(* ===== verification/Service_Props.thy ===== *)
theory Service_Props
  imports Service Client Chain_Props Reader_Run Config_Props
begin

text \<open>
  Starting a node: what a start makes of the database it finds and where its reader begins; and the
  sender a proxy is called from.
\<close>

section \<open>Starting\<close>

context tracker_node begin

lemma start_node_cases:
  assumes "start_node pf ev e a (s, w) = (r, (s', w'))"
  shows "(\<forall>nd. r \<noteq> Ok nd) \<and> s' = s \<or>
    (\<exists>nd. r = Ok nd \<and> s' = snd (initialize D R s) \<and> rd_env (nd_reader nd) = ev)"
proof -
  obtain i where init: "initialize D R s = (Ok (), i)" by (rule initialize_eq)
  have outside: "\<exists>r w'. on_outside m (s, w) = (r, (s, w'))" for m :: "('b, 'x) M" and w
    by (simp add: on_outside_def split: prod.split)
  show ?thesis
    using assms
    by (auto simp: start_node_def Let_def bindM_def liftR_def on_outside_def on_database_def okM_def init new_inbox_reader_def
        split: prod.splits result.splits)
qed

end

text \<open>C23: starting a node on the database of a node that follows the chain, or on an empty one, either fails
  and leaves the database as it is, or gives a node that still follows the chain, with an empty cache,
  and whose reader begins at the block of the last delayed message recorded, but not before the first
  block it is told.\<close>

theorem node_resumes:
  assumes "tracker_node ev view cached" and "cached c0 = Map.empty"
    and "start_node pf ev e a (s, w) = (r, (s', w'))"
    and "view s = Map.empty \<and> ds = [] \<and> bs = [] \<and> msgs = [] \<or>
      follows ev view cached \<lparr>tr_db = s, tr_cache = c\<rparr> ds bs msgs"
  shows "(\<forall>nd. r \<noteq> Ok nd) \<and> s' = s \<or>
    (\<exists>nd. r = Ok nd \<and> follows ev view cached \<lparr>tr_db = s', tr_cache = c0\<rparr> ds bs msgs \<and>
      get_next_block_to_read (nd_reader nd) (new_reader_state \<lparr>tr_db = s', tr_cache = c0\<rparr> w') =
        (Ok (resume_block (first_message_block (nd_reader nd)) ds), new_reader_state \<lparr>tr_db = s', tr_cache = c0\<rparr> w'))"
proof (rule disjE [OF tracker_node.start_node_cases [OF assms(1,3)]])
  assume "\<exists>nd. r = Ok nd \<and> s' = snd (initialize (ev_db ev) (ev_rlp ev) s) \<and> rd_env (nd_reader nd) = ev"
  then obtain nd where nd: "r = Ok nd" "s' = snd (initialize (ev_db ev) (ev_rlp ev) s)" "rd_env (nd_reader nd) = ev"
    by blast
  let ?t = "\<lparr>tr_db = s', tr_cache = c0\<rparr>"
  have fol: "follows ev view cached ?t ds bs msgs"
    using assms(4)
  proof
    assume "view s = Map.empty \<and> ds = [] \<and> bs = [] \<and> msgs = []"
    moreover obtain i where "initialize (ev_db ev) (ev_rlp ev) s = (Ok (), i)"
      by (rule tracker_node.initialize_eq [OF assms(1)])
    ultimately show ?thesis
      using tracker_node.start_follows [OF assms(1) _ assms(2), of s i] nd(2) by simp
  next
    assume "follows ev view cached \<lparr>tr_db = s, tr_cache = c\<rparr> ds bs msgs"
    from tracker_node.restart_follows [OF assms(1) this assms(2)] nd(2) show ?thesis by simp
  qed
  then obtain metas where "tracker_node.rep ev view cached ?t (bodies ds) metas"
    by (rule tracker_node.followsE [OF assms(1)])
  from tracker_node.resume_reading [OF assms(1) this nd(3), of "new_reader_state ?t w'"] fol nd(1)
  show ?thesis by (simp add: new_reader_state_def)
qed simp

text \<open>A platform that launches.\<close>

definition toy_platform :: "(toy, unit, unit, nat, unit) platform" where
  "toy_platform =
     \<lparr>pf_host = toy_host, pf_hex = raw_hex, pf_rpc = (\<lambda>_. still_rpc [] []),
      pf_wakes = (\<lambda>_. still Tick),
      pf_block_0 = (\<lambda>_. still (Some [''parentHash'' \<mapsto> ''0x'' @ replicate 64 (CHR ''0'')])),
      pf_from_header = (\<lambda>_ _ _ _ _ _. Ok 0), pf_from_genesis = (\<lambda>_ _. 1), pf_genesis_hash = (\<lambda>_. 9),
      pf_genesis_timestamp = (\<lambda>_. 0), pf_parse_ip = (\<lambda>_. None), pf_unspecified = (),
      pf_launch = (\<lambda>_ _. still (eager_beacon, eager_builder))\<rparr>"

lemma toy_starts:
  "\<exists>nd. start_node toy_platform ref_env () toy_args (s, ()) = (Ok nd, (snd (initialize ref_db ref_rlp s), ()))"
proof -
  obtain i where init: "initialize ref_db ref_rlp s = (Ok (), i)" by (rule ref_node.initialize_eq [of s]) simp
  have entry: "is_sepolia (embedded_chains ! 5)" by (simp add: is_sepolia_def embedded_chains_def)
  have host: "arg_l2_rpc_url toy_args = None" "env_var toy_host x = None" "pf_host toy_platform = toy_host" for x
    by (simp_all add: toy_args_def toy_host_def toy_platform_def)
  have plat: "pf_block_0 toy_platform u () = (Ok (Some [''parentHash'' \<mapsto> ''0x'' @ replicate 64 (CHR ''0'')]), ())"
    "pf_from_header toy_platform a b c d e f = Ok 0" "pf_launch toy_platform sp rs () = (Ok (eager_beacon, eager_builder), ())"
    for u a b c d e f sp rs
    by (simp_all add: toy_platform_def still_def)
  show ?thesis
    by (simp add: start_node_def Let_def host toy_chosen monad_simps on_outside_def on_database_def build_spec_def entry
        build_spec_from_baked_genesis_def plat or_default_def init)
qed

theorem node_resumes_witness:
  "\<exists>nd s'. start_node toy_platform ref_env () toy_args ([], ()) = (Ok nd, (s', ())) \<and>
    get_next_block_to_read (nd_reader nd) (new_reader_state \<lparr>tr_db = s', tr_cache = []\<rparr> ()) =
      (Ok (first_message_block (nd_reader nd)), new_reader_state \<lparr>tr_db = s', tr_cache = []\<rparr> ())"
proof -
  obtain nd s' where run: "start_node toy_platform ref_env () toy_args ([], ()) = (Ok nd, (s', ()))"
    using toy_starts [of "[]"] by blast
  have "\<exists>nd'. Ok nd = Ok nd' \<and> follows ref_env map_of map_of \<lparr>tr_db = s', tr_cache = []\<rparr> [] [] [] \<and>
      get_next_block_to_read (nd_reader nd') (new_reader_state \<lparr>tr_db = s', tr_cache = []\<rparr> ()) =
        (Ok (resume_block (first_message_block (nd_reader nd')) []), new_reader_state \<lparr>tr_db = s', tr_cache = []\<rparr> ())"
    using node_resumes [OF ref_tracker _ run, of "[]" "[]" "[]" "[]" "[]"] by simp
  with run show ?thesis by (auto simp: resume_block_def)
qed

section \<open>Calling a proxy\<close>

text \<open>The sender chosen to call a proxy is never the proxy's admin, which it would not answer: when the
  admin's slot cannot be read or is not there, the sender is the address 1, and nothing is an error.\<close>

theorem proxy_sender:
  assumes "proxy_admin_address H g proxy w = (r, w')" and "r = Ok admin \<or> r = Err e"
  shows "\<exists>sender. safe_from_for_proxy H g proxy w = (Ok (fmt_address H sender), w') \<and>
    (r = Ok admin \<longrightarrow> sender \<noteq> admin) \<and> (sender = 1 \<or> r = Ok 1 \<and> sender = 2)"
proof -
  have two: "2 \<noteq> (1 :: address)" by simp
  show ?thesis
    using assms two
    by (cases "r = Ok 1"; intro exI [of _ "if r = Ok 1 then 2 else 1"])
       (auto simp: safe_from_for_proxy_def matchM_def okM_def split: if_splits)
qed

theorem proxy_sender_witness:
  "safe_from_for_proxy raw_hex (get_storage (\<lambda>url req. still (200, ''1'')) (\<lambda>_. Ok \<lparr>resp_jsonrpc = ''2.0'', resp_id = 1,
     resp_result = Some (CHR ''r'' # raw_text (be256 (ucast (1 :: address)))), resp_error = None\<rparr>) ''l1'') 5 () = (Ok (fmt_address raw_hex 2), ())"
proof -
  let ?g = "get_storage (\<lambda>url req. still (200, ''1'')) (\<lambda>_. Ok \<lparr>resp_jsonrpc = ''2.0'', resp_id = 1,
     resp_result = Some (CHR ''r'' # raw_text (be256 (ucast (1 :: address)))), resp_error = None\<rparr>) ''l1''"
  have "proxy_admin_address raw_hex ?g 5 () = (Ok 1, ())"
    using address_at [of "[]" 0 1 "[]"]
    by (simp add: proxy_admin_address_def get_storage_def call_def is_success_def monad_simps still_def raw_hex_def
        trim_0x_raw del: address_at)
  from proxy_sender [OF this] show ?thesis by auto
qed

section \<open>The feed server\<close>

text \<open>
  A client that stays connected, sending nothing or anything, keeps the clients after it from being accepted;
  the connections that end are served one after the other.
\<close>

lemma feed_connection_open: "feed_connection es = FeedOpen \<longleftrightarrow> list_all ((=) ReadSome) es"
  by (induction es rule: feed_connection.induct) auto

lemma feed_serves_in_turn:
  "feed_loop (earlier @ Some es # later) =
     (if FeedOpen \<in> set (feed_loop earlier) then feed_loop earlier
      else if list_all ((=) ReadSome) es then feed_loop earlier @ [FeedOpen]
      else feed_loop earlier @ feed_connection es # feed_loop later)"
proof (induction earlier rule: feed_loop.induct)
  case 1
  show ?case
    by (cases "feed_connection es") (use feed_connection_open [of es] in auto)
next
  case (3 fs cs)
  then show ?case by (cases "feed_connection fs") auto
qed simp

end
