(* ===== verification/RpcBackend.thy ===== *)
theory RpcBackend
  imports Streamer Bridge
begin

text \<open>
  \<open>crates/rpc/src/lib.rs\<close>: the backend of the node's RPC server, which parses messages handed in
  as JSON and passes them to the streamer.  The accessors of \<open>serde_json::Value\<close> and the text codecs
  of numbers are parameters.  An error text is the error it is the text of.
\<close>

section \<open>Parsing\<close>

record 'v json =
  is_null :: "'v \<Rightarrow> bool"
  as_str :: "'v \<Rightarrow> string option"
  as_u64 :: "'v \<Rightarrow> u64 option"
  as_object :: "'v \<Rightarrow> (string \<Rightarrow> 'v option) option"

definition ok_or :: "'a option \<Rightarrow> string \<Rightarrow> 'a result" where
  "ok_or x msg = (case x of Some v \<Rightarrow> Ok v | None \<Rightarrow> Err (Bail msg []))"

lemma ok_or_simps [simp]: "ok_or (Some v) msg = Ok v" "ok_or None msg = Err (Bail msg [])"
  by (simp_all add: ok_or_def)

definition parse_hex_bytes :: "hexlib \<Rightarrow> string \<Rightarrow> bytes result" where
  "parse_hex_bytes H s = hex_decode H (trim_0x s)"

definition parse_opt_b256 :: "'v json \<Rightarrow> hexlib \<Rightarrow> 'v \<Rightarrow> b256 option result" where
  "parse_opt_b256 J H v =
     (if is_null J v then Ok None
      else bindR (ok_or (as_str J v) ''expected hex string'') (\<lambda>s.
           bindR (b256_from_str H s) (\<lambda>b. Ok (Some b))))"

definition field_u64 :: "'v json \<Rightarrow> (string \<Rightarrow> 'v option) \<Rightarrow> string \<Rightarrow> u64 option" where
  "field_u64 J obj name = Option.bind (obj name) (as_u64 J)"

definition field_str :: "'v json \<Rightarrow> (string \<Rightarrow> 'v option) \<Rightarrow> string \<Rightarrow> string option" where
  "field_str J obj name = Option.bind (obj name) (as_str J)"

definition parse_request_id :: "'v json \<Rightarrow> hexlib \<Rightarrow> 'v option \<Rightarrow> b256 option result" where
  "parse_request_id J H x =
     (case x of
        None \<Rightarrow> Ok None
      | Some v \<Rightarrow>
          if is_null J v then Ok None
          else bindR (ok_or (as_str J v) ''requestId not string'') (\<lambda>s.
               bindR (b256_from_str H s) (\<lambda>b. Ok (Some b))))"

definition parse_base_fee :: "'v json \<Rightarrow> (string \<Rightarrow> u256 result) \<Rightarrow> 'v option \<Rightarrow> u256 result" where
  "parse_base_fee J u256_from_str x =
     (case x of
        None \<Rightarrow> Ok 0
      | Some v \<Rightarrow>
          (case as_str J v of
             Some s \<Rightarrow> u256_from_str s
           | None \<Rightarrow> (case as_u64 J v of Some n \<Rightarrow> Ok (ucast n) | None \<Rightarrow> Err (Bail ''l1BaseFee invalid'' []))))"

definition parse_header ::
    "'v json \<Rightarrow> hexlib \<Rightarrow> (string \<Rightarrow> u256 result) \<Rightarrow> (string \<Rightarrow> 'v option) \<Rightarrow> L1IncomingMessageHeader result" where
  "parse_header J H u256_from_str hdr =
     bindR (ok_or (field_u64 J hdr ''kind'') ''missing kind'') (\<lambda>knd.
     bindR (ok_or (field_str J hdr ''poster'') ''missing poster'') (\<lambda>poster_s.
     bindR (address_from_str H poster_s) (\<lambda>addr.
     bindR (ok_or (field_u64 J hdr ''blockNumber'') ''missing blockNumber'') (\<lambda>bn.
     bindR (ok_or (field_u64 J hdr ''timestamp'') ''missing timestamp'') (\<lambda>ts.
     bindR (parse_request_id J H (hdr ''requestId'')) (\<lambda>req.
     bindR (parse_base_fee J u256_from_str (hdr ''l1BaseFee'')) (\<lambda>fee.
     Ok \<lparr>kind = ucast knd, poster = addr, block_number = bn, timestamp = ts, request_id = req,
         l1_base_fee = fee\<rparr>)))))))"

definition parse_msg_with_meta_and_block ::
    "'v json \<Rightarrow> hexlib \<Rightarrow> (string \<Rightarrow> u256 result) \<Rightarrow> 'v \<Rightarrow> MessageWithMetadataAndBlockInfo result" where
  "parse_msg_with_meta_and_block J H u256_from_str val =
     bindR (ok_or (as_object J val) ''expected object'') (\<lambda>obj.
     bindR (ok_or (field_u64 J obj ''delayedMessagesRead'') ''missing delayedMessagesRead'') (\<lambda>delayed.
     bindR (ok_or (obj ''message'') ''missing message'') (\<lambda>msg_v.
     bindR (ok_or (as_object J msg_v) ''message not object'') (\<lambda>msg_obj.
     bindR (ok_or (msg_obj ''header'') ''missing header'') (\<lambda>header_v.
     bindR (ok_or (as_object J header_v) ''header not object'') (\<lambda>header_obj.
     bindR (parse_header J H u256_from_str header_obj) (\<lambda>hd.
     bindR (ok_or (field_str J msg_obj ''l2msg'') ''missing l2msg'') (\<lambda>l2_s.
     bindR (parse_hex_bytes H l2_s) (\<lambda>l2.
     bindR (case obj ''blockHash'' of Some v \<Rightarrow> parse_opt_b256 J H v | None \<Rightarrow> Ok None) (\<lambda>bh.
     bindR (case obj ''blockMetadata'' of
              Some v \<Rightarrow>
                (if is_null J v then Ok None
                 else bindR (ok_or (as_str J v) ''blockMetadata not string'') (\<lambda>s.
                      bindR (parse_hex_bytes H s) (\<lambda>b. Ok (Some b))))
            | None \<Rightarrow> Ok None) (\<lambda>meta.
     Ok \<lparr>message_with_meta =
           \<lparr>message = \<lparr>header = hd, l2msg = l2, batch_gas_cost = field_u64 J msg_obj ''batchGasCost''\<rparr>,
            delayed_messages_read = delayed\<rparr>,
         block_hash = bh, block_metadata = meta\<rparr>)))))))))))"

section \<open>The calls that reach the node\<close>

record ArbMessageResult =
  amr_block_hash :: b256
  amr_send_root :: b256

definition message_result :: "MessageResult option \<Rightarrow> ArbMessageResult" where
  "message_result r =
     (case r of
        Some res \<Rightarrow> \<lparr>amr_block_hash = res_block_hash res, amr_send_root = send_root res\<rparr>
      | None \<Rightarrow> \<lparr>amr_block_hash = 0, amr_send_root = 0\<rparr>)"

definition rpc_new_message ::
    "'db database \<Rightarrow> rlp \<Rightarrow> 'v json \<Rightarrow> hexlib \<Rightarrow> (string \<Rightarrow> u256 result) \<Rightarrow> u64 \<Rightarrow> 'v \<Rightarrow>
     ('db, ArbMessageResult) M" where
  "rpc_new_message D R J H u256_from_str msg_idx msg =
     bindM (liftR (parse_msg_with_meta_and_block J H u256_from_str msg)) (\<lambda>parsed.
     bindM (add_messages_and_end_batch D R msg_idx [parsed] None) (\<lambda>_.
     bindM (readM (\<lambda>s. result_at_message_index D R s msg_idx)) (\<lambda>res.
     okM (message_result res))))"

fun parse_messages ::
    "'v json \<Rightarrow> hexlib \<Rightarrow> (string \<Rightarrow> u256 result) \<Rightarrow> 'v list \<Rightarrow> MessageWithMetadataAndBlockInfo list result" where
  "parse_messages J H u256_from_str [] = Ok []"
| "parse_messages J H u256_from_str (v # vs) =
     bindR (parse_msg_with_meta_and_block J H u256_from_str v) (\<lambda>m.
     bindR (parse_messages J H u256_from_str vs) (\<lambda>ms. Ok (m # ms)))"

fun results_from :: "'db database \<Rightarrow> rlp \<Rightarrow> 'db \<Rightarrow> u64 \<Rightarrow> nat \<Rightarrow> ArbMessageResult list result" where
  "results_from D R s idx 0 = Ok []"
| "results_from D R s idx (Suc n) =
     bindR (result_at_message_index D R s idx) (\<lambda>res.
     bindR (results_from D R s (idx + 1) n) (\<lambda>out. Ok (message_result res # out)))"

definition rpc_reorg ::
    "'db database \<Rightarrow> rlp \<Rightarrow> 'v json \<Rightarrow> hexlib \<Rightarrow> (string \<Rightarrow> u256 result) \<Rightarrow> u64 \<Rightarrow> 'v list \<Rightarrow>
     ('db, ArbMessageResult list) M" where
  "rpc_reorg D R J H u256_from_str first_msg_to_add new_messages =
     bindM (liftR (parse_messages J H u256_from_str new_messages)) (\<lambda>parsed.
     bindM (add_messages_and_reorg D R first_msg_to_add parsed None) (\<lambda>_.
     readM (\<lambda>s. results_from D R s first_msg_to_add (length parsed))))"

definition rpc_head_message_index :: "'db database \<Rightarrow> rlp \<Rightarrow> ('db, u64) M" where
  "rpc_head_message_index D R = readM (get_head_message_index D R)"

definition rpc_result_at_message_index :: "'db database \<Rightarrow> rlp \<Rightarrow> u64 \<Rightarrow> ('db, ArbMessageResult) M" where
  "rpc_result_at_message_index D R msg_idx =
     readM (\<lambda>s. bindR (result_at_message_index D R s msg_idx) (\<lambda>res.
       bindR (ok_or res ''result not found'') (\<lambda>r. Ok (message_result (Some r)))))"

definition rpc_next_delayed_message_number :: "'db database \<Rightarrow> rlp \<Rightarrow> ('db, u64) M" where
  "rpc_next_delayed_message_number D R = readM (get_delayed_count D R)"

text \<open>Block numbers are message indices.\<close>

definition message_index_to_block_number :: "u64 \<Rightarrow> u64 result" where
  "message_index_to_block_number msg_idx = Ok msg_idx"

definition block_number_to_message_index :: "u64 \<Rightarrow> u64 result" where
  "block_number_to_message_index n = Ok n"

section \<open>The calls that are answered on the spot\<close>

text \<open>The other calls of the trait, whose arguments the backend ignores.\<close>

datatype rpc_call =
  SetFinalityData | MarkFeedStart u64 | TriggerMaintenance | ShouldTriggerMaintenance | MaintenanceStatus
| RecordBlockCreation u64 | MarkValid u64 b256 | PrepareForRecord u64 u64 | PauseSequencer | ActivateSequencer
| ForwardTo string | SequenceDelayedMessage u64 | Synced | FullSyncProgress | ArbosVersionForMessageIndex u64

datatype rpc_answer = Done | Flag bool | Status string | ResultHash b256 | Progress string | Version u64

definition rpc_fixed :: "rpc_call \<Rightarrow> rpc_answer result" where
  "rpc_fixed call =
     (case call of
        ShouldTriggerMaintenance \<Rightarrow> Ok (Flag False)
      | MaintenanceStatus \<Rightarrow> Ok (Status ''ok'')
      | RecordBlockCreation _ \<Rightarrow> Ok (ResultHash 0)
      | Synced \<Rightarrow> Ok (Flag True)
      | FullSyncProgress \<Rightarrow> Ok (Progress ''idle'')
      | ArbosVersionForMessageIndex _ \<Rightarrow> Ok (Version 1)
      | _ \<Rightarrow> Ok Done)"

end
