(* ===== verification/Rpc_Props.thy ===== *)
theory Rpc_Props
  imports RpcBackend Log_Results Streamer_Props
begin

text \<open>
  Properties of the RPC backend: what the two calls that write do to the log, and what they answer.
\<close>

section \<open>A message as JSON\<close>

datatype jvalue = JNull | JNum u64 | JStr string | JObj "(string \<times> jvalue) list"

definition toy_json :: "jvalue json" where
  "toy_json =
     \<lparr>is_null = (\<lambda>v. v = JNull), as_str = (\<lambda>v. case v of JStr s \<Rightarrow> Some s | _ \<Rightarrow> None),
      as_u64 = (\<lambda>v. case v of JNum n \<Rightarrow> Some n | _ \<Rightarrow> None),
      as_object = (\<lambda>v. case v of JObj m \<Rightarrow> Some (map_of m) | _ \<Rightarrow> None)\<rparr>"

definition toy_hex :: hexlib where
  "toy_hex = \<lparr>hex_decode = (\<lambda>s. Ok (key_bytes s)), b256_from_str = (\<lambda>s. Ok 1), address_from_str = (\<lambda>s. Ok 2),
     fmt_b256 = (\<lambda>_. []), fmt_address = (\<lambda>_. [])\<rparr>"

definition toy_message :: jvalue where
  "toy_message = JObj
     [(''delayedMessagesRead'', JNum 1),
      (''message'', JObj
        [(''header'', JObj
           [(''kind'', JNum 259), (''poster'', JStr ''0x2''), (''blockNumber'', JNum 7), (''timestamp'', JNum 9),
            (''requestId'', JNull), (''l1BaseFee'', JNum 5)]),
         (''l2msg'', JStr ''0xa''), (''batchGasCost'', JNull)]),
      (''blockHash'', JStr ''0x1'')]"

definition toy_parsed :: MessageWithMetadataAndBlockInfo where
  "toy_parsed =
     \<lparr>message_with_meta =
        \<lparr>message = \<lparr>header = \<lparr>kind = 3, poster = 2, block_number = 7, timestamp = 9, request_id = None, l1_base_fee = 5\<rparr>,
           l2msg = [97], batch_gas_cost = None\<rparr>, delayed_messages_read = 1\<rparr>,
      block_hash = Some 1, block_metadata = None\<rparr>"

text \<open>The kind 259 becomes the kind 3: only its low byte is kept.\<close>

lemma toy_parse: "parse_msg_with_meta_and_block toy_json toy_hex (\<lambda>_. Ok 0) toy_message = Ok toy_parsed"
  by (simp add: parse_msg_with_meta_and_block_def parse_header_def field_u64_def field_str_def parse_request_id_def
      parse_base_fee_def parse_hex_bytes_def parse_opt_b256_def toy_json_def toy_hex_def toy_message_def toy_parsed_def
      key_bytes_def)

section \<open>The calls that write\<close>

text \<open>A message handed in by \<open>new_message\<close> at the end of the log is appended to it, and the answer is
  always the zero hashes: the execution, which has not seen the message yet, cannot have a result.\<close>

theorem new_message_appends:
  assumes "node_store R D view" and "log_rep R (view s) log" and "results_rep R (view s) rs"
    and "length rs \<le> length log" and "unat idx = length log" and "length log + 1 < 2 ^ 64"
    and "parse_msg_with_meta_and_block J H u256_from_str msg = Ok m" and "reads_ok (last_read log) (reads_of [m])"
  shows "\<exists>s'. rpc_new_message D R J H u256_from_str idx msg s = (Ok \<lparr>amr_block_hash = 0, amr_send_root = 0\<rparr>, s') \<and>
    log_rep R (view s') (log @ [entry m]) \<and> results_rep R (view s') rs"
proof -
  obtain s' where add: "add_messages_and_end_batch_impl D R idx False [m] None s = (Ok (), s')"
    and log: "log_rep R (view s') (log @ [entry m])"
    using node_store.append_refines [OF assms(1,2,5), of "[m]" False None] assms(6,8) by auto
  have "results_upto (view s) (view s') None"
    using node_store.append_results [OF assms(1,2), of idx False "[m]" None] add by simp
  with assms(3) have res: "results_rep R (view s') rs" by (rule results_rep_upto)
  with assms(4,5) have "result_at_message_index D R s' idx = Ok None"
    by (simp add: node_store.result_at_eq [OF assms(1)])
  with add assms(7) have "rpc_new_message D R J H u256_from_str idx msg s = (Ok \<lparr>amr_block_hash = 0, amr_send_root = 0\<rparr>, s')"
    by (simp add: rpc_new_message_def add_messages_and_end_batch_def monad_simps message_result_def)
  with log res show ?thesis by blast
qed

theorem new_message_appends_witness:
  "\<exists>s'. rpc_new_message ref_db ref_rlp toy_json toy_hex (\<lambda>_. Ok 0) 0 toy_message empty_log =
      (Ok \<lparr>amr_block_hash = 0, amr_send_root = 0\<rparr>, s') \<and>
    log_rep ref_rlp (map_of s') ([] @ [entry toy_parsed]) \<and> results_rep ref_rlp (map_of s') []"
  by (rule new_message_appends [OF Streamer_Props.ref_node empty_log_rep no_results_empty _ _ _ toy_parse])
     (simp_all add: toy_parsed_def last_read_def)

text \<open>C38: \<open>reorg\<close> to a stored message keeps the log and the results before it, appends the new messages, and
  answers the zero hashes once for each of them.\<close>

theorem rpc_reorg_truncates:
  assumes "node_store R D view" and "log_rep R (view s) log" and "results_rep R (view s) rs"
    and "n \<noteq> 0" and "unat n \<le> length log" and "unat n + length ms < 2 ^ 64"
    and "parse_messages J H u256_from_str msgs = Ok ms"
  shows "\<exists>s'. rpc_reorg D R J H u256_from_str n msgs s =
      (Ok (replicate (length msgs) \<lparr>amr_block_hash = 0, amr_send_root = 0\<rparr>), s') \<and>
    log_rep R (view s') (take (unat n) log @ map entry ms) \<and> results_rep R (view s') (take (unat n) rs)"
proof -
  obtain s' where reorg: "add_messages_and_reorg D R n ms None s = (Ok (), s')"
    and log: "log_rep R (view s') (take (unat n) log @ map entry ms)"
    using node_store.reorg_refines [OF assms(1,2,4,5,6), of None] by auto
  have "results_upto (view s) (view s') (Some n)"
    using node_store.reorg_results [OF assms(1,4), of s ms None] reorg by simp
  with assms(3) have res: "results_rep R (view s') (take (unat n) rs)" by (rule results_rep_upto)
  have none: "unat i + k < 2 ^ 64 \<Longrightarrow> n \<le> i \<Longrightarrow>
      results_from D R s' i k = Ok (replicate k \<lparr>amr_block_hash = 0, amr_send_root = 0\<rparr>)" for i k
  proof (induction k arbitrary: i)
    case (Suc k)
    then have "unat (i + 1) = Suc (unat i)" by (intro unat_Suc64) simp
    then have "n \<le> i + 1" "unat (i + 1) + k < 2 ^ 64" using Suc.prems by (simp_all add: word_le_nat_alt)
    with Suc show ?case
      by (simp add: node_store.result_at_eq [OF assms(1) res] word_le_nat_alt message_result_def)
  qed simp
  have "length ms = length msgs" using assms(7)
    by (induction msgs arbitrary: ms) (auto simp: bindR_Ok_iff)
  with none [of n "length ms"] reorg assms(6,7)
  have "rpc_reorg D R J H u256_from_str n msgs s =
      (Ok (replicate (length msgs) \<lparr>amr_block_hash = 0, amr_send_root = 0\<rparr>), s')"
    by (simp add: rpc_reorg_def monad_simps)
  with log res show ?thesis by blast
qed

theorem rpc_reorg_truncates_witness:
  "\<exists>s'. rpc_reorg ref_db ref_rlp toy_json toy_hex (\<lambda>_. Ok 0) 1 [toy_message] two_messages =
      (Ok (replicate (length [toy_message]) \<lparr>amr_block_hash = 0, amr_send_root = 0\<rparr>), s') \<and>
    log_rep ref_rlp (map_of s') (take (unat (1 :: u64)) (map entry sample_msgs) @ map entry [toy_parsed]) \<and>
    results_rep ref_rlp (map_of s') (take (unat (1 :: u64)) [])"
  by (rule rpc_reorg_truncates [OF Streamer_Props.ref_node two_messages_rep two_messages_no_results])
     (simp_all add: toy_parse sample_msgs_def)

end
