(* ===== verification/Poster_Props.thy ===== *)
theory Poster_Props
  imports Poster Tracker_Props
begin

text \<open>
  The properties of the batch poster: which messages of the log it takes, what it posts, when it
  posts at all, and what the multiplexer of another node makes of it.
\<close>

section \<open>Which messages are taken\<close>

text \<open>The longest run of byte strings from the first on that together stay within a budget.\<close>

fun fitting :: "nat \<Rightarrow> bytes list \<Rightarrow> bytes list" where
  "fitting budget [] = []"
| "fitting budget (x # xs) = (if length x \<le> budget then x # fitting (budget - length x) xs else [])"

abbreviation l2_messages :: "log_entry list \<Rightarrow> bytes list" where
  "l2_messages log \<equiv> map (\<lambda>e. l2msg (message (fst e))) log"

lemma length_fitting: "length (fitting budget xs) \<le> length xs"
  by (induction budget xs rule: fitting.induct) auto

context node_store begin

lemma take_segments_eq:
  assumes rep: "log_rep R (view s) log" and ok: "unat idx + left = length log" and used: "used \<le> budget"
  shows "take_segments D R s budget left idx used segs last_taken =
    (let taken = fitting (budget - used) (l2_messages (drop (unat idx) log)) in
     Ok (segs @ taken, if taken = [] then last_taken else idx + of_nat (length taken) - 1))"
  using ok used
proof (induction left arbitrary: idx used segs last_taken)
  case 0
  then show ?case by simp
next
  case (Suc left)
  let ?e = "log ! unat idx" let ?x = "l2msg (message (fst ?e))"
  have i: "unat idx < length log" and len: "length log < 2 ^ 64"
    using Suc.prems(1) rep by (simp_all add: log_rep_def log_body_def)
  have get: "ok_or_none (get_message_with_metadata_and_block_info D R s idx) =
      Ok (Some \<lparr>message_with_meta = fst ?e, block_hash = snd ?e,
        block_metadata = view s (db_key BLOCK_METADATA_INPUT_FEED_PREFIX idx)\<rparr>)"
    using read_back [OF rep i] by (simp add: ok_or_none_def)
  have split: "drop (unat idx) log = ?e # drop (Suc (unat idx)) log" using i by (simp add: Cons_nth_drop_Suc)
  show ?case
  proof (cases "used + length ?x > budget")
    case True
    then have "\<not> length ?x \<le> budget - used" using Suc.prems(2) by arith
    with True get split show ?thesis by (simp add: Let_def)
  next
    case False
    then have fits: "length ?x \<le> budget - used" "budget - (used + length ?x) = budget - used - length ?x"
      by arith+
    have next_i: "unat (idx + 1) = Suc (unat idx)" using i len by (simp add: unat_Suc64)
    have step: "take_segments D R s budget (Suc left) idx used segs last_taken =
        take_segments D R s budget left (idx + 1) (used + length ?x) (segs @ [?x]) idx"
      using get False by (simp add: Let_def)
    let ?rest = "fitting (budget - (used + length ?x)) (l2_messages (drop (Suc (unat idx)) log))"
    have all: "fitting (budget - used) (l2_messages (drop (unat idx) log)) = ?x # ?rest"
      unfolding split using fits by simp
    have "take_segments D R s budget left (idx + 1) (used + length ?x) (segs @ [?x]) idx =
        Ok ((segs @ [?x]) @ ?rest, if ?rest = [] then idx else idx + 1 + of_nat (length ?rest) - 1)"
      using Suc.IH [of "idx + 1" "used + length ?x" "segs @ [?x]" idx] Suc.prems(1) next_i False
      unfolding Let_def by simp
    moreover have "idx + of_nat (length (?x # ?rest)) - 1 = (if ?rest = [] then idx else idx + 1 + of_nat (length ?rest) - 1)"
      by simp
    ultimately show ?thesis unfolding step Let_def all by simp
  qed
qed

lemma next_segments_eq:
  assumes rep: "log_rep R (view s) log" and idx: "unat (last_posted_msg_idx src) + 1 < 2 ^ 64" and ne: "log \<noteq> []"
  shows "next_segments D R s max_bytes src =
    (let taken = fitting (if max_bytes = 0 then src_max_bytes src else max_bytes)
                   (l2_messages (drop (unat (last_posted_msg_idx src) + 1) log))
     in (Ok taken, src\<lparr>last_posted_msg_idx := last_posted_msg_idx src + of_nat (length taken)\<rparr>))"
proof -
  let ?i = "last_posted_msg_idx src" let ?n = "of_nat (length log) :: u64"
  let ?budget = "if max_bytes = 0 then src_max_bytes src else max_bytes"
  have len: "length log < 2 ^ 64" using rep by (simp add: log_rep_def log_body_def)
  then have n: "unat ?n = length log" by (rule unat_of_nat64)
  with ne have "?n \<noteq> 0" by auto
  then have head: "ok_or_none (get_head_message_index D R s) = Ok (Some (?n - 1))"
    using message_count_eq [OF rep] by (simp add: get_head_message_index_def ok_or_none_def)
  have u: "unat (?n - 1) = length log - 1" using n \<open>?n \<noteq> 0\<close> by (simp add: unat_minus_one)
  have start: "unat (?i + 1) = Suc (unat ?i)" using idx by (simp add: unat_Suc64)
  have last: "sat_sub (?i + 1) 1 = ?i" using start by (simp add: sat_sub_def word_le_nat_alt)
  show ?thesis
  proof (cases "?n - 1 < ?i + 1")
    case True
    then have "length log \<le> unat ?i + 1" using u start ne by (simp add: word_less_nat_alt)
    with True head show ?thesis by (simp add: next_segments_def Let_def)
  next
    case False
    then have le: "Suc (unat ?i) < length log" using u start ne by (cases log) (auto simp: word_less_nat_alt)
    let ?left = "unat (?n - 1) + 1 - unat (?i + 1)"
    let ?taken = "fitting ?budget (l2_messages (drop (unat ?i + 1) log))"
    have "unat (?i + 1) + ?left = length log" using u start le by simp
    then have take: "take_segments D R s ?budget ?left (?i + 1) 0 [] ?i =
        Ok (?taken, if ?taken = [] then ?i else ?i + 1 + of_nat (length ?taken) - 1)"
      using take_segments_eq [OF rep, of "?i + 1" ?left 0 ?budget "[]" ?i] start by (simp add: Let_def)
    have small: "unat ?i + length ?taken < 2 ^ 64"
      using length_fitting [of ?budget "l2_messages (drop (unat ?i + 1) log)"] le len by simp
    then have moved: "unat (?i + of_nat (length ?taken)) = unat ?i + length ?taken"
      by (simp add: unat_plus64 unat_of_nat64)
    have past: "?i + 1 \<le> ?i + of_nat (length ?taken) \<longleftrightarrow> ?taken \<noteq> []"
      unfolding word_le_nat_alt start moved by (cases ?taken) simp_all
    have "\<not> ?i + 1 \<le> ?i" by (simp add: word_le_nat_alt start)
    with False head take past show ?thesis
      by (cases "?taken = []") (simp_all add: next_segments_def Let_def last)
  qed
qed

end

text \<open>C24: of the messages of the log not yet posted the segment source takes the longest run from the first
  on that fits the budget, and moves its index past them; a first message larger than the budget is
  never taken, and nothing after it.\<close>

theorem poster_takes_fitting:
  assumes "node_store R D view" and "log_rep R (view (pn_db n)) log" and "log \<noteq> []"
    and "unat (last_posted_msg_idx (pn_source n)) + 1 < 2 ^ 64"
    and "taken = fitting (if max_bytes = 0 then src_max_bytes (pn_source n) else max_bytes)
      (l2_messages (drop (unat (last_posted_msg_idx (pn_source n)) + 1) log))"
  shows "ss_next_segments (node_segment_source D R) max_bytes n = (Ok taken,
    n\<lparr>pn_source := (pn_source n)\<lparr>last_posted_msg_idx := last_posted_msg_idx (pn_source n) + of_nat (length taken)\<rparr>\<rparr>)"
  using node_store.next_segments_eq [OF assms(1,2,4,3), of max_bytes] assms(5)
  by (simp add: node_segment_source_def Let_def)

definition sample_node :: "ref_tree poster_node" where
  "sample_node = \<lparr>pn_db = two_messages, pn_source = new_segment_source 1000\<rparr>"

lemma sample_node_simps [simp]:
  "pn_db sample_node = two_messages" "last_posted_msg_idx (pn_source sample_node) = 0"
  "src_max_bytes (pn_source sample_node) = 1000"
  by (simp_all add: sample_node_def new_segment_source_def)

lemma sample_fitting: "fitting 1000 (l2_messages (drop 1 (map entry sample_msgs))) = [[1, 2, 3]]"
  by (simp add: sample_msgs_def entry_def info_def sample_mwm_def sample_message_def)

theorem poster_takes_fitting_witness:
  "fst (ss_next_segments (node_segment_source ref_db ref_rlp) 0 sample_node) = Ok [[1, 2, 3]]"
  using poster_takes_fitting [OF Streamer_Props.ref_node, of sample_node "map entry sample_msgs" "[[1, 2, 3]]" 0]
    two_messages_rep sample_fitting
  by (simp add: sample_msgs_def)

section \<open>What is posted\<close>

lemma build_batch_eq:
  assumes "delayed_count_fn bp = Some f" and "last_after_delayed st \<noteq> Some (f (node_state st))"
    and "resolve_l1_bounds P (bp_cfg bp) (node_state st) = (Ok bounds, n1)"
    and "bp_segment_source bp = Some src" and "ss_next_segments src (ss_max_bytes src n1) n1 = (Ok segs, n2)"
    and "brotli_compress P (concat (map (enc (rlp_bytes R)) segs)) = Ok z"
  shows "build_batch_bytes P R bp st =
    (Ok (Some (batch_header bounds (f (node_state st)) @ 1 # z)),
     st\<lparr>last_after_delayed := Some (f (node_state st)), node_state := n2\<rparr>)"
  using assms
  by (cases st) (simp add: build_batch_bytes_def Let_def bindM_def on_node_def liftR_def okM_def)

text \<open>C25: what the poster builds is read back by the parser of batches: the bounds taken from the parent
  chain, the count of delayed messages, and exactly the segments the source gave, provided that
  decompression undoes compression and there are no more segments than the parser reads.\<close>

theorem posted_batch_parses:
  assumes "alloy_rlp R" and "delayed_count_fn bp = Some f" and "last_after_delayed st \<noteq> Some (f (node_state st))"
    and "resolve_l1_bounds P (bp_cfg bp) (node_state st) = (Ok bounds, n1)"
    and "bp_segment_source bp = Some src" and "ss_next_segments src (ss_max_bytes src n1) n1 = (Ok segs, n2)"
    and "brotli_compress P (concat (map (enc (rlp_bytes R)) segs)) = Ok z"
    and "brotli z = Ok (concat (map (enc (rlp_bytes R)) segs))" and "length segs \<le> 100 * 1024"
  shows "\<exists>bytes. build_batch_bytes P R bp st =
      (Ok (Some bytes), st\<lparr>last_after_delayed := Some (f (node_state st)), node_state := n2\<rparr>) \<and>
    parse_sequencer_message R brotli pos h bytes =
      Ok \<lparr>min_timestamp = min_ts bounds, max_timestamp = max_ts bounds, min_l1_block = min_block bounds,
          max_l1_block = max_block bounds, after_delayed_messages = f (node_state st), segments = segs\<rparr>"
proof -
  let ?seq = "\<lparr>min_timestamp = min_ts bounds, max_timestamp = max_ts bounds, min_l1_block = min_block bounds,
      max_l1_block = max_block bounds, after_delayed_messages = f (node_state st), segments = segs\<rparr>"
  have "batch_header bounds (f (node_state st)) @ 1 # z = posted ?seq z"
    by (simp add: batch_header_def posted_def)
  with build_batch_eq [OF assms(2-7)] parse_posted [OF assms(1), of ?seq brotli z pos h] assms(8,9)
  show ?thesis by simp
qed

text \<open>A parent chain without compression, and a poster of the sample log.\<close>

definition plain_chain :: "ref_tree poster_node parent_chain" where
  "plain_chain =
     \<lparr>parse_url = (\<lambda>_. Ok ()),
      get_block_by_number = (\<lambda>_ n. (Ok (Some \<lparr>l1b_number = 50, l1b_timestamp = 99, l1b_base_fee = None\<rparr>), n)),
      parse_key = (\<lambda>_. Ok ()), send_transaction = (\<lambda>_ n. (Ok 5, n)), abi_encode = pc_data, brotli_compress = Ok\<rparr>"

definition sample_poster :: "ref_tree poster_node BatchPoster" where
  "sample_poster =
     \<lparr>bp_cfg = \<lparr>cfg_enabled = True, cfg_use_4844 = False, cfg_l1_rpc_url = [], cfg_sequencer_inbox = 7,
        cfg_parent_chain_bound = ''latest'', cfg_poster_private_key_hex = None\<rparr>,
      delayed_count_fn = Some (\<lambda>_. 3), bp_segment_source = Some (node_segment_source ref_db ref_rlp)\<rparr>"

definition poster_at :: "u64 option \<Rightarrow> ref_tree poster_node poster_state" where
  "poster_at posted_at = \<lparr>last_after_delayed = posted_at, node_state = sample_node\<rparr>"

lemma poster_at_simps [simp]: "last_after_delayed (poster_at x) = x" "node_state (poster_at x) = sample_node"
  by (simp_all add: poster_at_def)

lemma sample_bounds_resolved:
  "resolve_l1_bounds plain_chain (bp_cfg sample_poster) n =
     (Ok \<lparr>min_ts = 0, max_ts = 99, min_block = 0, max_block = 50\<rparr>, n)"
proof -
  have "parse_bound ''latest'' = Latest" by (simp add: parse_bound_def ascii_lower_def Let_def)
  then show ?thesis
    by (simp add: resolve_l1_bounds_def sample_poster_def plain_chain_def monad_simps Let_def)
qed

lemma sample_taken:
  "ss_next_segments (node_segment_source ref_db ref_rlp) (ss_max_bytes (node_segment_source ref_db ref_rlp) sample_node)
     sample_node = (Ok [[1, 2, 3]], sample_node\<lparr>pn_source := (pn_source sample_node)\<lparr>last_posted_msg_idx := 1\<rparr>\<rparr>)"
proof -
  have r: "log_rep ref_rlp (map_of (pn_db sample_node)) (map entry sample_msgs)" using two_messages_rep by simp
  have "ss_max_bytes (node_segment_source ref_db ref_rlp) sample_node = 1000"
    by (simp add: node_segment_source_def)
  then show ?thesis
    using node_store.next_segments_eq [OF Streamer_Props.ref_node, of two_messages "map entry sample_msgs"
        "pn_source sample_node" 1000] two_messages_rep sample_fitting
    by (simp add: node_segment_source_def sample_msgs_def)
qed

theorem posted_batch_parses_witness:
  "\<exists>bytes st'. build_batch_bytes plain_chain ref_rlp sample_poster (poster_at None) = (Ok (Some bytes), st') \<and>
    parse_sequencer_message ref_rlp Ok 0 None bytes =
      Ok \<lparr>min_timestamp = 0, max_timestamp = 99, min_l1_block = 0, max_l1_block = 50, after_delayed_messages = 3,
          segments = [[1, 2, 3]]\<rparr>"
proof -
  let ?bounds = "\<lparr>min_ts = 0, max_ts = 99, min_block = 0, max_block = 50\<rparr>"
  have f: "delayed_count_fn sample_poster = Some (\<lambda>_. 3)"
    and src: "bp_segment_source sample_poster = Some (node_segment_source ref_db ref_rlp)"
    by (simp_all add: sample_poster_def)
  have r: "resolve_l1_bounds plain_chain (bp_cfg sample_poster) (node_state (poster_at None)) = (Ok ?bounds, sample_node)"
    by (simp add: sample_bounds_resolved)
  have c: "brotli_compress plain_chain x = Ok x" for x by (simp add: plain_chain_def)
  have "\<exists>bytes. build_batch_bytes plain_chain ref_rlp sample_poster (poster_at None) =
      (Ok (Some bytes), (poster_at None)\<lparr>last_after_delayed := Some 3,
         node_state := sample_node\<lparr>pn_source := (pn_source sample_node)\<lparr>last_posted_msg_idx := 1\<rparr>\<rparr>\<rparr>) \<and>
    parse_sequencer_message ref_rlp Ok 0 None bytes =
      Ok \<lparr>min_timestamp = min_ts ?bounds, max_timestamp = max_ts ?bounds, min_l1_block = min_block ?bounds,
          max_l1_block = max_block ?bounds, after_delayed_messages = 3, segments = [[1, 2, 3]]\<rparr>"
    by (rule posted_batch_parses [OF ref.alloy_rlp_axioms f _ r src sample_taken c]) simp_all
  then show ?thesis by auto
qed

text \<open>The poster posts only when the count of delayed messages has changed since the batch before: while
  it stays the same, any number of ticks does nothing, however many messages wait in the log.\<close>

theorem poster_waits:
  assumes "delayed_count_fn bp = Some f" and "last_after_delayed st = Some (f (node_state st))"
  shows "start_poster P R bp n st = (Ok (), st)"
proof -
  have "poster_tick P R bp st = (Ok (), st)"
    using assms by (simp add: poster_tick_def build_batch_bytes_def Let_def bindM_def okM_def)
  then have "poster_ticks P R bp n st = (Ok (), st)"
    by (induction n) (simp_all add: okM_def bindM_ok)
  then show ?thesis by (simp add: start_poster_def okM_def)
qed

theorem poster_waits_witness:
  "start_poster plain_chain ref_rlp sample_poster 100 (poster_at (Some 3)) = (Ok (), poster_at (Some 3))"
  by (rule poster_waits) (simp_all add: sample_poster_def)

text \<open>C26: the messages are posted as they are, without the byte that says what kind of segment they are: when
  the first of them does not begin with the byte of a kind, a node that reads the batch stops there
  and delivers nothing of it.\<close>

theorem posted_messages_unread:
  assumes "node_store R D view" and "delayed_count_fn bp = Some f"
    and "last_after_delayed st \<noteq> Some (f (node_state st))"
    and "resolve_l1_bounds P (bp_cfg bp) (node_state st) = (Ok bounds, n1)"
    and "bp_segment_source bp = Some src" and "ss_next_segments src (ss_max_bytes src n1) n1 = (Ok (seg # segs), n2)"
    and "brotli_compress P (concat (map (enc (rlp_bytes R)) (seg # segs))) = Ok z"
    and "brotli z = Ok (concat (map (enc (rlp_bytes R)) (seg # segs)))" and "length (seg # segs) \<le> 100 * 1024"
    and "\<not> known_segment seg" and "build_batch_bytes P R bp st = (Ok (Some bytes), st')" and "serialized b = bytes"
  shows "fst (pop_all (tracker_backend D s) R brotli (Suc fuel) [] (new_multiplexer (build_backend [b]) d)) = Ok []"
proof -
  have R: "alloy_rlp R" using assms(1) by (simp add: node_store_def)
  have bytes: "bytes = batch_header bounds (f (node_state st)) @ 1 # z"
    using build_batch_eq [OF assms(2-7)] assms(11) by simp
  let ?seq = "\<lparr>min_timestamp = min_ts bounds, max_timestamp = max_ts bounds, min_l1_block = min_block bounds,
      max_l1_block = max_block bounds, after_delayed_messages = f (node_state st), segments = seg # segs\<rparr>"
  have parse: "parse_sequencer_message R brotli n h bytes = Ok ?seq" for n h
    using parse_posted [OF R, of ?seq brotli z n h] assms(8,9) unfolding bytes
    by (simp add: batch_header_def posted_def)
  have pend: "pending (build_backend [b]) = [(bytes, Some (batch_block_hash b))]"
    using assms(12) by (simp add: pending_def build_backend_def batch_bytes_def)
  have pos: "get_position_within_message (tracker_backend D s) (build_backend [b]) = 0"
    by (simp add: tracker_backend_def build_backend_def)
  show ?thesis
    by (rule unknown_segment_ends [OF tracker_batch_source [OF R] pos pend parse _ assms(10)]) simp
qed

text \<open>A log whose next message begins with the byte 9.\<close>

definition nine_source :: "ref_tree poster_node segment_source" where
  "nine_source = \<lparr>ss_max_bytes = (\<lambda>_. 10), ss_next_segments = (\<lambda>_ n. (Ok [[9, 1]], n))\<rparr>"

lemma nine_source_simps [simp]: "ss_next_segments nine_source k n = (Ok [[9, 1]], n)"
  by (simp add: nine_source_def)

definition nine_poster :: "ref_tree poster_node BatchPoster" where
  "nine_poster = sample_poster\<lparr>bp_segment_source := Some nine_source\<rparr>"

lemma nine_poster_simps [simp]:
  "bp_cfg nine_poster = bp_cfg sample_poster" "delayed_count_fn nine_poster = Some (\<lambda>_. 3)"
  "bp_segment_source nine_poster = Some nine_source"
  by (simp_all add: nine_poster_def sample_poster_def)

theorem posted_messages_unread_witness:
  "\<exists>bytes. fst (build_batch_bytes plain_chain ref_rlp nine_poster (poster_at None)) = Ok (Some bytes) \<and>
    fst (pop_all (tracker_backend ref_db []) ref_rlp Ok 1 [] (new_multiplexer (build_backend
      [(sample_batch [] 0)\<lparr>serialized := bytes\<rparr>]) 0)) = Ok []"
proof -
  let ?z = "concat (map (enc (rlp_bytes ref_rlp)) [[9, 1]])"
  let ?bounds = "\<lparr>min_ts = 0, max_ts = 99, min_block = 0, max_block = 50\<rparr>"
  have c: "brotli_compress plain_chain x = Ok x" for x by (simp add: plain_chain_def)
  have built: "build_batch_bytes plain_chain ref_rlp nine_poster (poster_at None) =
      (Ok (Some (batch_header ?bounds 3 @ 1 # ?z)), (poster_at None)\<lparr>last_after_delayed := Some 3, node_state := sample_node\<rparr>)"
    using build_batch_eq [of nine_poster "\<lambda>_. 3" "poster_at None" plain_chain ?bounds sample_node _ "[[9, 1]]" sample_node
        ref_rlp ?z] sample_bounds_resolved [of sample_node]
    by (simp add: c)
  have taken: "ss_next_segments nine_source (ss_max_bytes nine_source sample_node) sample_node = (Ok [[9, 1]], sample_node)"
    by (rule nine_source_simps)
  have "fst (pop_all (tracker_backend ref_db []) ref_rlp Ok (Suc 0) [] (new_multiplexer (build_backend
      [(sample_batch [] 0)\<lparr>serialized := batch_header ?bounds 3 @ 1 # ?z\<rparr>]) 0)) = Ok []"
    by (rule posted_messages_unread [OF Streamer_Props.ref_node _ _ _ _ taken _ _ _ _ built,
          where f = "\<lambda>_. 3" and bounds = ?bounds and z = ?z])
       (use sample_bounds_resolved [of sample_node] in
         \<open>simp_all add: c known_segment_def skipped_def message_segment_def segment_kinds\<close>)
  with built show ?thesis by simp
qed

end
