(* ===== verification/Bridge_Lookup.thy ===== *)
theory Bridge_Lookup
  imports Bridge_Props
begin

text \<open>
  What a lookup of delayed messages returns, told from the events of the two contracts: which logs tell of a
  message, what they say of it, and which data belong to it.
\<close>

section \<open>The events\<close>

text \<open>What an event of a delayed message says.\<close>

record delivered_event =
  de_index :: u64
  de_before :: b256
  de_inbox :: address
  de_kind :: u64
  de_sender :: address
  de_hash :: b256
  de_fee :: u256
  de_time :: u64
  de_l1_block :: u64

text \<open>
  \<open>tells_delivered H rpc lg e\<close>: the log \<open>lg\<close> is a well-formed event that says \<open>e\<close>, with the index and the
  accumulator in its topics and six words of data; the number of its block is asked for by the block's hash,
  if it has one.  \<open>too_short\<close>: it has not the topics or the data of such an event, and is passed over.
\<close>

definition tells_block :: "'w rpc \<Rightarrow> RpcLog \<Rightarrow> u64 \<Rightarrow> bool" where
  "tells_block rpc lg n \<longleftrightarrow>
     (case log_blockHash lg of
        Some bh \<Rightarrow> \<exists>hex. answers (eth_getBlockByHash rpc bh) hex \<and> hex_or_zero hex = n
      | None \<Rightarrow> opt_u64 (log_blockNumber lg) = n)"

definition tells_delivered :: "hexlib \<Rightarrow> 'w rpc \<Rightarrow> RpcLog \<Rightarrow> delivered_event \<Rightarrow> bool" where
  "tells_delivered H rpc lg e \<longleftrightarrow>
     3 \<le> length (log_topics lg) \<and> b256_from_str H (log_topics lg ! 1) = Ok (ucast (de_index e)) \<and>
     b256_from_str H (log_topics lg ! 2) = Ok (de_before e) \<and>
     hex_decode H (trim_0x (log_data lg)) =
       Ok (delayed_words (de_inbox e) (de_kind e) (de_sender e) (de_hash e) (de_fee e) (de_time e)) \<and>
     tells_block rpc lg (de_l1_block e)"

definition too_short :: "hexlib \<Rightarrow> RpcLog \<Rightarrow> bool" where
  "too_short H lg \<longleftrightarrow> (\<exists>data. hex_decode H (trim_0x (log_data lg)) = Ok data \<and>
     (length (log_topics lg) < 2 \<or> length data < 160))"

text \<open>The logs of a range with what they say; nothing is said by those that are too short.\<close>

fun bridge_events :: "hexlib \<Rightarrow> 'w rpc \<Rightarrow> RpcLog list \<Rightarrow> (RpcLog \<times> delivered_event) list \<Rightarrow> bool" where
  "bridge_events H rpc [] evs = (evs = [])"
| "bridge_events H rpc (lg # logs) evs =
     (too_short H lg \<and> bridge_events H rpc logs evs \<or>
      (case evs of [] \<Rightarrow> False
       | (lg', e) # evs' \<Rightarrow> lg' = lg \<and> tells_delivered H rpc lg e \<and> bridge_events H rpc logs evs'))"

text \<open>
  \<open>tells_data K H rpc lg (i, d)\<close>: the log \<open>lg\<close> of an inbox gives the data \<open>d\<close> for the message \<open>i\<close>: in the
  event, or, when the message was sent by an account itself, in the call of its transaction.
\<close>

definition counted_bytes :: "b256 \<Rightarrow> bytes \<Rightarrow> bytes \<Rightarrow> bytes" where
  "counted_bytes off d rest = be256 off @ be256 (ucast (of_nat (length d) :: u64)) @ d @ rest"

fun tells_data :: "keccak \<Rightarrow> hexlib \<Rightarrow> 'w rpc \<Rightarrow> RpcLog \<Rightarrow> b256 \<times> bytes \<Rightarrow> bool" where
  "tells_data K H rpc lg (i, d) \<longleftrightarrow>
     2 \<le> length (log_topics lg) \<and> b256_from_str H (log_topics lg ! 1) = Ok i \<and> length d < 2 ^ 63 \<and>
     (b256_from_str H (log_topics lg ! 0) = Ok (event_topic K EVT_INBOX_MESSAGE_DELIVERED) \<and>
      (\<exists>off rest. hex_decode H (trim_0x (log_data lg)) = Ok (counted_bytes off d rest)) \<or>
      b256_from_str H (log_topics lg ! 0) = Ok (event_topic K EVT_INBOX_MESSAGE_FROM_ORIGIN) \<and>
      event_topic K EVT_INBOX_MESSAGE_FROM_ORIGIN \<noteq> event_topic K EVT_INBOX_MESSAGE_DELIVERED \<and>
      (\<exists>data tx t off rest. hex_decode H (trim_0x (log_data lg)) = Ok data \<and> log_transactionHash lg = Some tx \<and>
        answers (eth_getTransactionByHash rpc tx) t \<and>
        hex_decode H (trim_0x (tx_input t)) =
          Ok (encode_selector K SIG_SEND_L2_FROM_ORIGIN @ counted_bytes off d rest)))"

text \<open>The message of an event, with the data found for its index.\<close>

definition event_message :: "hexlib \<Rightarrow> (b256 \<rightharpoonup> bytes) \<Rightarrow> RpcLog \<times> delivered_event \<Rightarrow> DelayedInboxMessage" where
  "event_message H found = (\<lambda>(lg, e).
     let dim = told_delayed H lg (de_index e) (de_before e) (de_kind e) (de_sender e) (de_fee e) (de_time e) (de_l1_block e)
     in dim\<lparr>dim_message := (dim_message dim)\<lparr>l2msg := the (found (ucast (de_index e)))\<rparr>\<rparr>)"

definition event_parsed :: "hexlib \<Rightarrow> RpcLog \<times> delivered_event \<Rightarrow> parsed_delayed" where
  "event_parsed H = (\<lambda>(lg, e).
     (told_delayed H lg (de_index e) (de_before e) (de_kind e) (de_sender e) (de_fee e) (de_time e) (de_l1_block e),
      de_inbox e, ucast (de_index e), de_hash e))"

lemma length_delayed_words [simp]: "length (delayed_words inbox k sender hash fee ts) = 192"
  by (simp add: delayed_words_def)

lemma parse_delivered_event:
  assumes "tells_delivered H rpc lg e"
  obtains w' where "parse_delivered_log H rpc lg w = (Ok (Some (event_parsed H (lg, e))), w')"
proof -
  have topics: "\<not> length (log_topics lg) < 2" "2 < length (log_topics lg)"
    using assms by (auto simp: tells_delivered_def)
  obtain w' where "(case log_blockHash lg of
      Some bh \<Rightarrow> bindM (eth_getBlockByHash rpc bh) (\<lambda>n. okM (case u64_from_hex (trim_0x n) of Some x \<Rightarrow> x | None \<Rightarrow> 0))
    | None \<Rightarrow> okM (opt_u64 (log_blockNumber lg))) w = (Ok (de_l1_block e), w')"
  proof (cases "log_blockHash lg")
    case (Some bh)
    with assms obtain hex where "answers (eth_getBlockByHash rpc bh) hex" "hex_or_zero hex = de_l1_block e"
      by (auto simp: tells_delivered_def tells_block_def)
    with that Some show thesis
      by (elim answers_run [where s = w]) (auto simp: monad_simps hex_or_zero_def)
  qed (use assms that in \<open>simp add: tells_delivered_def tells_block_def monad_simps\<close>)
  with assms topics that show thesis
    using message_delivered_event [of H lg "de_index e" "de_before e"]
    by (simp add: parse_delivered_log_def tells_delivered_def event_parsed_def monad_simps)
qed

lemma parse_too_short: "too_short H lg \<Longrightarrow> parse_delivered_log H rpc lg w = (Ok None, w)"
  by (auto simp: too_short_def parse_delivered_log_def monad_simps)

lemma parse_bridge_events:
  "bridge_events H rpc logs evs \<Longrightarrow> \<exists>w'. parse_delivered_logs H rpc logs w = (Ok (map (event_parsed H) evs), w')"
proof (induction logs arbitrary: evs w)
  case (Cons lg logs)
  from Cons.prems consider (short) "too_short H lg" "bridge_events H rpc logs evs"
    | (event) e evs' where "evs = (lg, e) # evs'" "tells_delivered H rpc lg e" "bridge_events H rpc logs evs'"
    by (auto split: list.splits)
  then show ?case
  proof cases
    case short
    with Cons.IH [OF short(2), of w] show ?thesis by (auto simp: parse_too_short monad_simps)
  next
    case event
    obtain w1 where "parse_delivered_log H rpc lg w = (Ok (Some (event_parsed H (lg, e))), w1)"
      by (rule parse_delivered_event [OF event(2)])
    with Cons.IH [OF event(3), of w1] event(1) show ?thesis by (auto simp: monad_simps)
  qed
qed (simp add: monad_simps)

lemma dynamic_bytes_counted:
  assumes "length xs = n" "length d < 2 ^ 63" "n < 100"
  shows "dynamic_bytes (xs @ counted_bytes off d rest) (n + 32) = Ok (Some d)"
proof -
  let ?data = "xs @ counted_bytes off d rest" and ?len = "of_nat (length d) :: u64"
  have at: "u64_at_word ?data (n + 32) = Ok ?len"
    using u64_at [of "xs @ be256 off" "n + 32" ?len "d @ rest"] assms(1) by (simp add: counted_bytes_def)
  have len: "unat ?len = length d" using assms(2) by (simp add: unat_of_nat64)
  have off: "unat (of_nat (n + 32 + 32) :: u64) = n + 64" using assms(3) by (subst unat_of_nat64) simp_all
  have "unat (of_nat (n + 32 + 32) :: u64) + unat ?len < 2 ^ 64" unfolding off len using assms(2,3) by simp
  then have stop: "unat (of_nat (n + 32 + 32) + ?len :: u64) = n + 64 + length d"
    by (simp only: unat_plus64 off len)
  have "slice (n + 32 + 32) (n + 64 + length d) ?data = Ok d"
    using assms(1) by (simp add: slice_def counted_bytes_def)
  with at stop assms(1) show ?thesis
    by (simp add: dynamic_bytes_def Let_def counted_bytes_def del: of_nat_add)
qed

lemma inbox_log_told:
  assumes "tells_data K H rpc lg (i, d)"
  obtains w' where "inbox_log_data K H rpc lg w = (Ok (Some (i, d)), w')"
proof -
  from assms consider
    (event) off rest where "b256_from_str H (log_topics lg ! 0) = Ok (event_topic K EVT_INBOX_MESSAGE_DELIVERED)"
      "hex_decode H (trim_0x (log_data lg)) = Ok (counted_bytes off d rest)"
  | (call) data tx t off rest where "b256_from_str H (log_topics lg ! 0) = Ok (event_topic K EVT_INBOX_MESSAGE_FROM_ORIGIN)"
      "event_topic K EVT_INBOX_MESSAGE_FROM_ORIGIN \<noteq> event_topic K EVT_INBOX_MESSAGE_DELIVERED"
      "hex_decode H (trim_0x (log_data lg)) = Ok data" "log_transactionHash lg = Some tx"
      "answers (eth_getTransactionByHash rpc tx) t"
      "hex_decode H (trim_0x (tx_input t)) = Ok (encode_selector K SIG_SEND_L2_FROM_ORIGIN @ counted_bytes off d rest)"
    by auto
  then show thesis
  proof cases
    case event
    have "dynamic_bytes (counted_bytes off d rest) 32 = Ok (Some d)"
      using dynamic_bytes_counted [of "[]" 0 d off rest] assms by simp
    with event assms that [of w] show thesis
      by (auto simp: inbox_log_data_def or_zero_def Let_def monad_simps counted_bytes_def)
  next
    case call
    obtain w' where tx: "eth_getTransactionByHash rpc tx w = (Ok t, w')" by (rule answers_run [OF call(5)])
    have four: "length (encode_selector K SIG_SEND_L2_FROM_ORIGIN) = 4" by (simp add: encode_selector_def)
    then have "dynamic_bytes (encode_selector K SIG_SEND_L2_FROM_ORIGIN @ counted_bytes off d rest) 36 = Ok (Some d)"
      using dynamic_bytes_counted [OF four, of d off rest] assms by simp
    with call assms that [of w'] tx four show thesis
      by (simp add: inbox_log_data_def or_zero_def Let_def monad_simps counted_bytes_def)
  qed
qed

lemma collect_told:
  "list_all2 (tells_data K H rpc) ilogs ds \<Longrightarrow>
   \<exists>w'. collect_data K H rpc ilogs m w = (Ok (m ++ map_of (rev ds)), w')"
proof (induction arbitrary: m w rule: list_all2_induct)
  case (Cons lg ilogs p ds)
  obtain i d where p: "p = (i, d)" by (cases p)
  obtain w1 where "inbox_log_data K H rpc lg w = (Ok (Some (i, d)), w1)"
    by (rule inbox_log_told [OF Cons.hyps(1) [unfolded p]])
  moreover obtain w2 where "collect_data K H rpc ilogs (m(i \<mapsto> d)) w1 = (Ok (m(i \<mapsto> d) ++ map_of (rev ds)), w2)"
    using Cons.IH [of "m(i \<mapsto> d)" w1] by blast
  moreover have "m(i \<mapsto> d) ++ map_of (rev ds) = m ++ map_of (rev (p # ds))"
    by (rule ext) (simp add: p map_add_def split: option.split)
  ultimately show ?case by (simp add: bindM_def)
qed (simp add: monad_simps)

text \<open>\<open>has_data K found e\<close>: the data found for the event are those it announces.\<close>

definition has_data :: "keccak \<Rightarrow> (b256 \<rightharpoonup> bytes) \<Rightarrow> delivered_event \<Rightarrow> bool" where
  "has_data K found e \<longleftrightarrow> (case found (ucast (de_index e)) of None \<Rightarrow> False | Some d \<Rightarrow> K d = de_hash e)"

lemma attach_events:
  "(\<forall>(lg, e) \<in> set evs. has_data K found e) \<Longrightarrow>
   attach_data K found (map (event_parsed H) evs) = Ok (map (event_message H found) evs)"
  by (induction evs) (auto simp: event_parsed_def event_message_def has_data_def Let_def split: option.splits)

lemma attach_missing:
  "\<exists>(lg, e) \<in> set evs. \<not> has_data K found e \<Longrightarrow> \<exists>err. attach_data K found (map (event_parsed H) evs) = Err err"
proof (induction evs)
  case (Cons p evs)
  obtain lg e where p: "p = (lg, e)" by (cases p)
  show ?case
  proof (cases "has_data K found e")
    case True
    with Cons obtain err where "attach_data K found (map (event_parsed H) evs) = Err err" by (auto simp: p)
    with True show ?thesis by (simp add: p event_parsed_def has_data_def split: option.splits)
  qed (auto simp: p event_parsed_def has_data_def split: option.splits)
qed simp

section \<open>The lookup\<close>

definition bridge_filter :: "keccak \<Rightarrow> EthDelayedBridge \<Rightarrow> u64 \<Rightarrow> u64 \<Rightarrow> log_filter" where
  "bridge_filter K I a b = \<lparr>lf_blocks = Blocks a b, lf_address = [bridge_addr I],
     lf_topics = [[event_topic K EVT_MESSAGE_DELIVERED]]\<rparr>"

definition inbox_filter :: "keccak \<Rightarrow> u64 \<Rightarrow> u64 \<Rightarrow> delivered_event list \<Rightarrow> log_filter" where
  "inbox_filter K a b es = \<lparr>lf_blocks = Blocks a b, lf_address = sort (remdups (map de_inbox es)),
     lf_topics = [[event_topic K EVT_INBOX_MESSAGE_DELIVERED, event_topic K EVT_INBOX_MESSAGE_FROM_ORIGIN],
                  map (\<lambda>e. ucast (de_index e)) es]\<rparr>"

text \<open>C28: a lookup of delayed messages returns one message for every event of the bridge in the range and no
  other, in the order of their indices: each with the index, accumulator, kind, sender, fee, times and blocks
  its event says, and with the data the inbox gave for that index.  When an event's data are missing, or do
  not hash to what the event announces, the lookup is an error.  Only logs without two topics and five words
  of data are passed over.\<close>

theorem delayed_lookup_exact:
  assumes "answers (eth_getLogs rpc (bridge_filter K I a b)) logs" and "bridge_events H rpc logs evs"
    and "answers (eth_getLogs rpc (inbox_filter K a b (map snd evs))) ilogs" and "list_all2 (tells_data K H rpc) ilogs ds"
  shows "if \<exists>(lg, e) \<in> set evs. \<not> has_data K (map_of (rev ds)) e
    then \<exists>err. fst (eth_lookup_messages_in_range K H rpc I a b w) = Err err
    else fst (eth_lookup_messages_in_range K H rpc I a b w) =
      Ok (sort_key dim_seq_num (map (event_message H (map_of (rev ds))) evs))"
proof -
  let ?found = "map_of (rev ds)"
  obtain w1 where logs: "eth_getLogs rpc (bridge_filter K I a b) w = (Ok logs, w1)" by (rule answers_run [OF assms(1)])
  obtain w2 where parsed: "parse_delivered_logs H rpc logs w1 = (Ok (map (event_parsed H) evs), w2)"
    using parse_bridge_events [OF assms(2)] by blast
  show ?thesis
  proof (cases "evs = []")
    case True
    with logs parsed show ?thesis
      by (simp add: eth_lookup_messages_in_range_def bridge_filter_def monad_simps)
  next
    case False
    obtain w3 where ilogs: "eth_getLogs rpc (inbox_filter K a b (map snd evs)) w2 = (Ok ilogs, w3)"
      by (rule answers_run [OF assms(3)])
    obtain w4 where found: "collect_data K H rpc ilogs Map.empty w3 = (Ok ?found, w4)"
      using collect_told [OF assms(4), of Map.empty w3] by auto
    have parts: "(\<lambda>(_, inbox, _, _). inbox) \<circ> event_parsed H = de_inbox \<circ> snd"
      "(\<lambda>(_, _, req_id, _). req_id) \<circ> event_parsed H = (\<lambda>e. ucast (de_index e)) \<circ> snd"
      by (auto simp: fun_eq_iff event_parsed_def)
    have run: "fst (eth_lookup_messages_in_range K H rpc I a b w) =
        bindR (attach_data K ?found (map (event_parsed H) evs)) (\<lambda>out. Ok (sort_key dim_seq_num out))"
      using False logs parsed ilogs found
      by (simp add: eth_lookup_messages_in_range_def bridge_filter_def inbox_filter_def monad_simps parts
          split: result.split)
    show ?thesis
    proof (cases "\<exists>(lg, e) \<in> set evs. \<not> has_data K ?found e")
      case True
      with attach_missing [OF True, of H] run show ?thesis by auto
    next
      case False
      then have "\<forall>(lg, e) \<in> set evs. has_data K ?found e" by auto
      from attach_events [OF this, of H] run False show ?thesis by simp
    qed
  qed
qed

section \<open>A sample\<close>

definition sample_event :: delivered_event where
  "sample_event = \<lparr>de_index = 4, de_before = 9, de_inbox = 17, de_kind = 3, de_sender = 18, de_hash = 0,
     de_fee = 1000, de_time = 12, de_l1_block = 42\<rparr>"

definition sample_delivered :: RpcLog where
  "sample_delivered = raw_log [0, ucast (4 :: u64), 9] (delayed_words 17 3 18 0 1000 12)"

definition sample_inbox_log :: RpcLog where
  "sample_inbox_log = raw_log [0, ucast (4 :: u64)] (be256 32 @ be256 (ucast (2 :: u64)) @ [5, 6])"

lemma sample_tells: "tells_delivered raw_hex rpc sample_delivered sample_event"
proof -
  have "tells_block rpc sample_delivered 42"
    by (simp add: tells_block_def sample_delivered_def)
       (simp add: raw_log_def opt_u64_def u64_from_hex_def hex_digit_def)
  then show ?thesis by (simp add: tells_delivered_def sample_event_def) (simp add: sample_delivered_def)
qed

lemma sample_tells_data: "tells_data (\<lambda>_. 0) raw_hex rpc sample_inbox_log (4, [5, 6])"
  by (simp add: sample_inbox_log_def event_topic_def counted_bytes_def)

theorem delayed_lookup_exact_witness:
  "fst (eth_lookup_messages_in_range (\<lambda>_. 0) raw_hex (still_rpc [raw_log [0] [], sample_delivered] [sample_inbox_log])
      \<lparr>bridge_addr = 1\<rparr> 40 50 ()) =
    Ok [event_message raw_hex [4 \<mapsto> [5, 6]] (sample_delivered, sample_event)]"
proof -
  let ?rpc = "still_rpc [raw_log [0] [], sample_delivered] [sample_inbox_log]"
  have "bridge_events raw_hex ?rpc [raw_log [0] [], sample_delivered] [(sample_delivered, sample_event)]"
    by (simp add: sample_tells too_short_def)
  moreover have "answers (eth_getLogs ?rpc (bridge_filter (\<lambda>_. 0) \<lparr>bridge_addr = 1\<rparr> 40 50))
      [raw_log [0] [], sample_delivered]"
    "answers (eth_getLogs ?rpc (inbox_filter (\<lambda>_. 0) 40 50 (map snd [(sample_delivered, sample_event)]))) [sample_inbox_log]"
    by (simp_all add: still_rpc_def bridge_filter_def inbox_filter_def)
  moreover have "list_all2 (tells_data (\<lambda>_. 0) raw_hex ?rpc) [sample_inbox_log] [(4, [5, 6])]"
    using sample_tells_data by (simp del: tells_data.simps)
  moreover have "has_data (\<lambda>_. 0) [4 \<mapsto> [5, 6]] sample_event"
    by (simp add: has_data_def sample_event_def)
  ultimately show ?thesis
    using delayed_lookup_exact [of ?rpc "\<lambda>_. 0" "\<lparr>bridge_addr = 1\<rparr>" 40 50 "[raw_log [0] [], sample_delivered]" raw_hex
      "[(sample_delivered, sample_event)]" "[sample_inbox_log]" "[(4, [5, 6])]" "()"]
    by (simp del: bridge_events.simps tells_data.simps list_all2_Cons)
qed

end
