(* ===== verification/Reader_Run_Props.thy ===== *)
theory Reader_Run_Props
  imports Reader_Run Chain_Props
begin

text \<open>
  The properties of the reader's loop on a parent chain that stands still: it reads everything when no
  two blocks with something in them are too far apart, and nothing more when they are.
\<close>

section \<open>A chain in two blocks\<close>

text \<open>One delayed message in block 7 and one batch in block 40; the window begins with two blocks.\<close>

definition late_batch :: SequencerInboxBatch where
  "late_batch = chain_batch\<lparr>parent_chain_block_number := 40\<rparr>"

abbreviation late_chain :: "posted_batch list" where "late_chain \<equiv> [(late_batch, chain_data, 6)]"

definition walk_reader :: "u64 \<Rightarrow> (ref_tree, ref_cache, unit) InboxReader" where
  "walk_reader blocks =
     \<lparr>rd_env = ref_env,
      delayed_bridge = \<lparr>bridge_message_count = (\<lambda>_. still 1), bridge_accumulator = (\<lambda>_ _ _. still 0),
        bridge_lookup = (\<lambda>a b. still (within dblock a b [chain_delayed]))\<rparr>,
      sequencer_inbox = \<lparr>inbox_batch_count = (\<lambda>_. still 1), inbox_accumulator = (\<lambda>_ _. still 8),
        inbox_lookup = (\<lambda>a b. still (map fst (within bblock a b late_chain))),
        inbox_message_bytes = (\<lambda>_ _ _ _. still (chain_data, 6, [])), inbox_tx_input = (\<lambda>_. still ([], []))\<rparr>,
      l1_reader = \<lparr>last_header = still 100, latest_safe_block_nr = still 0, latest_finalized_block_nr = still 0\<rparr>,
      next_wake = still Tick, first_message_block = 5,
      rd_config = default_reader_config\<lparr>default_blocks_to_read := 2, max_blocks_to_read := blocks\<rparr>\<rparr>"

lemma walk_reader_simps [simp]:
  "rd_env (walk_reader n) = ref_env" "first_message_block (walk_reader n) = 5"
  "bridge_message_count (delayed_bridge (walk_reader n)) h = still 1"
  "bridge_accumulator (delayed_bridge (walk_reader n)) q h bh = still 0"
  "bridge_lookup (delayed_bridge (walk_reader n)) a b = still (within dblock a b [chain_delayed])"
  "inbox_batch_count (sequencer_inbox (walk_reader n)) h = still 1"
  "inbox_accumulator (sequencer_inbox (walk_reader n)) q h = still 8"
  "inbox_lookup (sequencer_inbox (walk_reader n)) a b = still (map fst (within bblock a b late_chain))"
  "inbox_message_bytes (sequencer_inbox (walk_reader n)) h q tx bh = still (chain_data, 6, [])"
  "last_header (l1_reader (walk_reader n)) = still 100"
  "rd_config (walk_reader n) = default_reader_config\<lparr>default_blocks_to_read := 2, max_blocks_to_read := n\<rparr>"
  by (simp_all add: walk_reader_def)

lemma walk_below_head [simp]: "below_head (walk_reader n) 100 = 100"
  by (simp add: below_head_def)

lemma chain_delayed_simps [simp]: "dblock chain_delayed = 7" "tuple_of chain_delayed = (0, 0, sample_legacy)"
  by (simp_all add: chain_delayed_def tuple_of_def sample_legacy)

lemma late_batch_simps [simp]:
  "parent_chain_block_number late_batch = 40" "data_location late_batch = 1" "after_delayed_count late_batch = 1"
  "after_inbox_acc late_batch = 8"
  by (simp_all add: late_batch_def chain_batch_def)

lemma late_batch_filled:
  "filled late_batch (chain_data, 6) = (sample_batch two_segments 1)\<lparr>data_location := 1, parent_chain_block_number := 40\<rparr>"
  by (simp add: filled_def late_batch_def chain_batch_def chain_data_def sample_batch_def window_header_def posted_def sample_seq_def)

lemma walk_chain: "still_chain (walk_reader n) 100 [chain_delayed] late_chain"
proof -
  have "gives (walk_reader n) late_batch (chain_data, 6)"
    by (rule gives_event [where seen = "[]"]) simp_all
  moreover have "serializable chain_delayed"
    by (simp add: serializable_def chain_delayed_def sample_legacy)
  ultimately show ?thesis using busy_acc by (simp add: still_chain_def)
qed

lemma walk_honest:
  "honest ref_env (map tuple_of [chain_delayed]) (map with_data late_chain) [l2_at_20, sample_delayed_message]"
proof -
  let ?b = "(sample_batch two_segments 1)\<lparr>data_location := 1, parent_chain_block_number := 40\<rparr>"
  have "map batch_bytes [?b] = map batch_bytes small_bs" by (simp add: batch_bytes_def)
  moreover have "consistent 0 [?b] ps \<longleftrightarrow> consistent 0 small_bs ps" for ps
    by (cases ps) (auto split: prod.splits)
  moreover have "accepted (ev_keccak ref_env) dms 0 0 [?b] \<longleftrightarrow> accepted (ev_keccak ref_env) dms 0 0 small_bs" for dms
    by simp
  ultimately show ?thesis
    using small_honest by (simp only: honest_def list.map chain_delayed_simps late_batch_filled fst_conv snd_conv length_Cons)
qed

lemma walk_in_reach: "in_reach (walk_reader n) 100"
  by (simp add: in_reach_def sat_add_def)

lemma walk_events: "event_blocks [chain_delayed] late_chain = {7, 40}"
  by (auto simp: event_blocks_def)

lemma fresh_in_sync: "in_sync ref_env map_of map_of fresh [] [] []"
  using fresh_log fresh_holds by (simp add: in_sync_def in_step_def last_metadata_def no_metadata_def last_read_def)

section \<open>Everything is read\<close>

text \<open>C4: a reader of an empty tracker, on a chain that stands still and answers every question, whose blocks with
  something in them are never further apart than the largest window, has after some number of iterations
  recorded all delayed messages and all batches, and the log holds exactly the messages of the batches:
  windows without anything grow, the others are passed, and none is skipped.\<close>

theorem reader_reads_chain:
  assumes "tracker_node ev view cached" and "rd_env rd = ev" and "still_chain rd tip ds bl" and "in_reach rd tip"
    and "honest ev (map tuple_of ds) (map with_data bl) msgs" and "length ds + length bl < 2 ^ 64"
    and "no_long_gap rd ds bl" and "in_sync ev view cached (rs_tracker s) [] [] []"
  shows "\<exists>n win s'. start_reader rd wakes n s = (Ok win, s') \<and>
    in_sync ev view cached (rs_tracker s') (map tuple_of ds) (map with_data bl) msgs"
  using tracker_node.start_reader_reads [OF assms(1,2,3,5,6,4,7,8), of wakes] by blast

lemma walk_no_gap: "no_long_gap (walk_reader 40) [chain_delayed] late_chain"
proof -
  have "\<exists>e \<in> {7, 40}. f \<le> e \<and> e \<le> sat_add f 40" if "5 \<le> f" "\<exists>e \<in> {7, 40}. f \<le> e" for f :: u64
  proof -
    have "f \<le> 40" using that(2) by (auto intro: order_trans)
    then have "unat f \<le> 40" "5 \<le> unat f" using that(1) by (simp_all add: word_le_nat_alt)
    then have "f \<le> 40" "(40 :: u64) \<le> sat_add f 40" by (simp_all add: word_le_nat_alt unat_sat_add)
    then show ?thesis by blast
  qed
  then show ?thesis unfolding no_long_gap_def walk_events by simp
qed

theorem reader_reads_chain_witness:
  "\<exists>n win s'. start_reader (walk_reader 40) 0 n (reader_at fresh) = (Ok win, s') \<and>
    log_rep ref_rlp (map_of (tr_db (rs_tracker s'))) [entry l2_at_20, entry sample_delayed_message]"
  using reader_reads_chain [OF ref_tracker _ walk_chain walk_in_reach walk_honest _ walk_no_gap, of "reader_at fresh" 0]
    fresh_in_sync
  by (auto simp: in_sync_def)

text \<open>C3: from an empty database to the last message executed: the database is initialised, the reader reads the
  chain, and the streamer, in as many rounds as there are messages and failures of the engine, executes
  each message of the log once, with an engine that fails only so often and never panics.\<close>

theorem node_catches_up:
  assumes "tracker_node ev view cached" and "view s0 = Map.empty" and "cached c0 = Map.empty"
    and "initialize (ev_db ev) (ev_rlp ev) s0 = (Ok (), db)" and "rs_tracker s = \<lparr>tr_db = db, tr_cache = c0\<rparr>"
    and "rd_env rd = ev" and "still_chain rd tip ds bl" and "in_reach rd tip"
    and "honest ev (map tuple_of ds) (map with_data bl) msgs" and "length ds + length bl < 2 ^ 64"
    and "no_long_gap rd ds bl"
    and "head_message_index X = (\<lambda>s x. reth_head_message_index (ev_db ev) (ev_rlp ev) s)" and "faulty X faults"
    and "length msgs + faults x \<le> rounds"
  shows "\<exists>n win s' db' x' rs. start_reader rd wakes n s = (Ok win, s') \<and>
    in_sync ev view cached (rs_tracker s') (map tuple_of ds) (map with_data bl) msgs \<and>
    start_streamer (ev_db ev) (ev_rlp ev) X rounds (tr_db (rs_tracker s'), x) = (Ok (), (db', x')) \<and>
    log_rep (ev_rlp ev) (view db') (map entry msgs) \<and>
    results_rep (ev_rlp ev) (view db') rs \<and> length rs = length msgs"
proof -
  have start: "follows ev view cached (rs_tracker s) [] [] []"
    using tracker_node.start_follows [OF assms(1-4)] assms(5) by simp
  then have sync: "in_sync ev view cached (rs_tracker s) [] [] []"
    and none: "results_rep (ev_rlp ev) (view (tr_db (rs_tracker s))) []"
    by (simp_all add: follows_def)
  obtain n win s' where read: "start_reader rd wakes n s = (Ok win, s')"
    and s': "in_sync ev view cached (rs_tracker s') (map tuple_of ds) (map with_data bl) msgs"
    and same: "results_upto (view (tr_db (rs_tracker s))) (view (tr_db (rs_tracker s'))) None"
    using tracker_node.start_reader_reads [OF assms(1,6,7,9,10,8,11) sync] by blast
  have log: "log_rep (ev_rlp ev) (view (tr_db (rs_tracker s'))) (map entry msgs)" using s' by (simp add: in_sync_def)
  have bound: "length (map entry msgs) < 2 ^ 64 - 1" using assms(9) by (simp add: honest_def)
  have store: "node_store (ev_rlp ev) (ev_db ev) view" using assms(1) by (simp add: tracker_node_def)
  obtain db' x' rs where "start_streamer (ev_db ev) (ev_rlp ev) X rounds (tr_db (rs_tracker s'), x) = (Ok (), (db', x'))"
    and "log_rep (ev_rlp ev) (view db') (map entry msgs)" and "results_rep (ev_rlp ev) (view db') ([] @ rs)"
    and len: "length ([] @ rs) \<le> length (map entry msgs)"
      "min (length (map entry msgs)) (length ([] :: MessageResult list) + (rounds - faults x)) \<le> length ([] @ rs)"
    using node_store.start_streamer_results [OF store assms(12,13) bound log results_rep_upto(1) [OF none same], of rounds x]
    by auto
  moreover have "length rs = length msgs" using len assms(14) by simp
  ultimately show ?thesis using read s' by (intro exI conjI) (simp_all only: append_Nil)
qed

theorem node_catches_up_witness:
  "\<exists>n win s' db' x' rs.
    start_reader (walk_reader 40) 0 n (reader_at \<lparr>tr_db = snd (initialize ref_db ref_rlp []), tr_cache = []\<rparr>) = (Ok win, s') \<and>
    start_streamer ref_db ref_rlp flaky_engine 3 (tr_db (rs_tracker s'), 1) = (Ok (), (db', x')) \<and>
    results_rep ref_rlp (map_of db') rs \<and> length rs = 2"
proof -
  obtain db where init: "initialize ref_db ref_rlp [] = (Ok (), db)" by (rule ref_node.fresh_rep [of "[]" "[]"]) auto
  have init': "initialize (ev_db ref_env) (ev_rlp ref_env) [] = (Ok (), db)" using init by simp
  have "faulty flaky_engine id" by (simp add: faulty_def flaky_engine_def split: nat.split)
  moreover have "head_message_index flaky_engine = (\<lambda>s x. reth_head_message_index (ev_db ref_env) (ev_rlp ref_env) s)"
    by (simp add: flaky_engine_def)
  ultimately obtain n win s' db' x' rs where
      "start_reader (walk_reader 40) 0 n (reader_at \<lparr>tr_db = db, tr_cache = []\<rparr>) = (Ok win, s')"
      "start_streamer ref_db ref_rlp flaky_engine 3 (tr_db (rs_tracker s'), 1) = (Ok (), (db', x'))"
      "results_rep ref_rlp (map_of db') rs" "length rs = 2"
    using node_catches_up [OF ref_tracker _ _ init' _ _ walk_chain walk_in_reach walk_honest _ walk_no_gap, of "[]"
        "reader_at \<lparr>tr_db = db, tr_cache = []\<rparr>" flaky_engine id 1 3 0]
    by auto
  then show ?thesis unfolding init snd_conv by blast
qed

section \<open>A gap that is not crossed\<close>

text \<open>C14: the next block is read only after a window in which something was found, and a window never has more than
  the configured number of blocks: when the next delayed message or batch is further off than that, every
  iteration reads the same blocks again, and what the chain has after the gap is never recorded.\<close>

theorem gap_stalls_reader:
  assumes "tracker_node ev view cached" and "rd_env rd = ev" and "still_chain rd tip ds bl" and "in_reach rd tip"
    and "honest ev (map tuple_of ds) (map with_data bl) msgs" and "length ds + length bl < 2 ^ 64"
    and "win_blocks win \<le> max_blocks_to_read (rd_config rd)"
    and "min_blocks_to_read (rd_config rd) \<le> max_blocks_to_read (rd_config rd)"
    and "read_upto ev view cached ds bl (win_from win) (rs_tracker s)"
    and "e \<in> event_blocks ds bl" and "win_from win \<le> e"
    and "\<And>e. e \<in> event_blocks ds bl \<Longrightarrow> win_from win \<le> e \<Longrightarrow>
      sat_add (win_from win) (max_blocks_to_read (rd_config rd)) < e"
  shows "\<exists>win' s'. reader_iterations rd wakes n win s = (Ok win', s') \<and> win_from win' = win_from win \<and>
    read_upto ev view cached ds bl (win_from win) (rs_tracker s')"
  by (rule tracker_node.reader_stalls [OF assms(1-3,5,6,4,8,10,11)]) (use assms(7,9,12) in blast)+

theorem gap_stalls_reader_witness:
  "\<exists>win' s'. reader_iterations (walk_reader 1) 0 1000000 \<lparr>win_from = 5, win_blocks = 1\<rparr> (reader_at fresh) = (Ok win', s') \<and>
    log_rep ref_rlp (map_of (tr_db (rs_tracker s'))) []"
proof -
  have none: "before dblock 5 [chain_delayed] = []" "before bblock 5 late_chain = []" by simp_all
  have upto: "read_upto ref_env map_of map_of [chain_delayed] late_chain 5 (rs_tracker (reader_at fresh))"
    unfolding read_upto_def none using fresh_in_sync by (auto simp: honest_def)
  have gap: "sat_add 5 1 < e" if "e \<in> {7, 40 :: u64}" for e using that by (auto simp: sat_add_def)
  have "\<exists>win' s'. reader_iterations (walk_reader 1) 0 1000000 \<lparr>win_from = 5, win_blocks = 1\<rparr> (reader_at fresh) = (Ok win', s') \<and>
      win_from win' = win_from \<lparr>win_from = 5, win_blocks = 1\<rparr> \<and>
      read_upto ref_env map_of map_of [chain_delayed] late_chain (win_from \<lparr>win_from = 5, win_blocks = 1\<rparr>) (rs_tracker s')"
    by (rule gap_stalls_reader [OF ref_tracker _ walk_chain walk_in_reach walk_honest, where e = 7])
       (use upto gap in \<open>simp_all add: walk_events\<close>)
  then obtain win' s' ms where "reader_iterations (walk_reader 1) 0 1000000 \<lparr>win_from = 5, win_blocks = 1\<rparr> (reader_at fresh) = (Ok win', s')"
    and ms: "in_sync ref_env map_of map_of (rs_tracker s') [] [] ms" "honest ref_env [] [] ms"
    unfolding read_upto_def by (auto simp: none)
  moreover have "ms = []" using ms(2) by (simp add: honest_def)
  ultimately show ?thesis by (auto simp: in_sync_def)
qed

section \<open>A restart\<close>

text \<open>C13: a restarted reader begins at the block of the last delayed message it has; when the chain has gone on, the
  messages of that block are fetched again with the new ones, and recording them again drops every batch
  that read one of them, though nothing of what they say has changed.  The messages of these batches stay in
  the log, so that the batches, when they are handed over again, are skipped: they are never recorded again.\<close>

theorem restart_drops_batches:
  assumes "tracker_node ev view cached" and "rd_env rd = ev"
    and "log_rep (ev_rlp ev) (view (tr_db (rs_tracker s))) log"
    and "holds ev view cached (rs_tracker s) (bodies ds) ms" and "in_step log ms" and "counts_grow ms" and "length ms < 2 ^ 63"
    and "read_mode (rd_config rd) = ''latest''" and "answers (last_header (l1_reader rd)) tip"
    and "start = resume_block (first_message_block rd) ds"
    and "sat_add start (delay_blocks (rd_config rd) + sat_sub (min_blocks_to_read (rd_config rd)) 1) \<le> tip"
    and "height = below_head rd tip" and "start \<le> height"
    and "to_block = min (sat_add start (default_blocks_to_read (rd_config rd))) height"
    and "agrees_delayed rd height count (bodies ds)" and "length ds < unat count"
    and "answers (bridge_lookup (delayed_bridge rd) start to_block) dl" and "delayed_tuples dl = Ok (again @ new)"
    and "ds = old @ again" and "again \<noteq> []" and "chained (ev_keccak ev) 0 0 (ds @ new)"
    and "length (ds @ new) < 2 ^ 64 - 1"
    and "agrees_batches rd height (of_nat (length ms)) ms"
    and "kept_ms = takeWhile (\<lambda>m. unat (bm_delayed_message_count m) \<le> length old) ms" and "kept_ms \<noteq> []" and "kept_ms \<noteq> ms"
    and "bs \<noteq> []" and "unat (sequence_number (hd bs)) = length kept_ms"
  shows "\<exists>win s' t. start_reader rd wakes 1 s = (Ok win, s') \<and>
    log_rep (ev_rlp ev) (view (tr_db (rs_tracker s'))) log \<and>
    holds ev view cached (rs_tracker s') (bodies (ds @ new)) kept_ms \<and>
    add_sequencer_batches_and_stream ev bs (rs_tracker s') = (Ok (), t) \<and> tr_db t = tr_db (rs_tracker s')"
proof -
  let ?p = "of_nat (length old) :: u64" and ?win = "\<lparr>win_from = start, win_blocks = default_blocks_to_read (rd_config rd)\<rparr>"
  have p: "unat ?p = length old" using assms(19,22) by (simp add: unat_of_nat64)
  have kept: "kept_ms = kept ?p ms" by (simp add: assms(24) kept_def word_le_nat_alt p)
  have rep: "tracker_node.rep ev view cached (rs_tracker s) (bodies ds) ms"
    unfolding tracker_node.rep_def [OF assms(1)] by (rule assms(4))
  have "chained (ev_keccak ev) 0 0 (old @ (again @ new))" using assms(19,21) by simp
  then have chain: "chained (ev_keccak ev) (acc_from (ev_keccak ev) 0 (take (unat ?p) (bodies ds))) ?p (again @ new)"
    unfolding chained_append by (simp add: p assms(19))
  have ne: "dl \<noteq> []" using assms(18,20) by auto
  have at: "start = min (win_from ?win) height" "to_block = min (sat_add start (win_blocks ?win)) height"
    using assms(13,14) by (simp_all add: min_def)
  obtain s' where step: "reader_iteration rd wakes ?win s =
      (Ok \<lparr>win_from = sat_add to_block 1, win_blocks = next_blocks (rd_config rd) (of_nat (length dl)) (win_blocks ?win)\<rparr>, s')"
    and log: "log_rep (ev_rlp ev) (view (tr_db (rs_tracker s'))) log"
    and rep': "tracker_node.rep ev view cached (rs_tracker s') (take (unat ?p) (bodies ds) @ bodies (again @ new)) (kept ?p ms)"
    by (rule tracker_node.iteration_refetches [OF assms(1,2,3) rep assms(8,9) _ assms(12) at assms(15) _ assms(17,18) ne _ _ chain assms(23)])
       (use assms(11,16,19,22) p in simp_all)
  obtain t where "add_sequencer_batches_and_stream ev bs (rs_tracker s') = (Ok (), t)" "tr_db t = tr_db (rs_tracker s')"
    by (rule tracker_node.stranded_skips [OF assms(1) log rep' assms(5-7)]) (use assms(25-28) kept in simp_all)
  moreover have "get_next_block_to_read rd s = (Ok start, s)"
    unfolding assms(10) by (rule tracker_node.resume_reading [OF assms(1) rep assms(2) refl])
  with step have "start_reader rd wakes 1 s = (Ok \<lparr>win_from = sat_add to_block 1,
      win_blocks = next_blocks (rd_config rd) (of_nat (length dl)) (win_blocks ?win)\<rparr>, s')"
    by (simp add: start_reader_def bindM_ok okM_def)
  moreover have "holds ev view cached (rs_tracker s') (bodies (ds @ new)) kept_ms"
    using rep' unfolding tracker_node.rep_def [OF assms(1)] by (simp add: p assms(19) kept)
  ultimately show ?thesis using log by blast
qed

text \<open>Two delayed messages and two batches, the second of which reads the second message; then a third message.\<close>

theorem restart_drops_batches_witness:
  "\<exists>win s' t. start_reader (sample_reader 3 [chain_delayed\<lparr>dim_seq_num := 1\<rparr>, chain_delayed\<lparr>dim_seq_num := 2\<rparr>] 2 6 [] [])
      0 1 (reader_at busier) = (Ok win, s') \<and>
    log_rep ref_rlp (map_of (tr_db (rs_tracker s'))) (map entry sample_msgs) \<and>
    holds ref_env map_of map_of (rs_tracker s') [sample_legacy, sample_legacy, sample_legacy] [first_batch] \<and>
    add_sequencer_batches_and_stream ref_env [(sample_batch two_segments 1)\<lparr>sequence_number := 1\<rparr>] (rs_tracker s') =
      (Ok (), t) \<and> tr_db t = tr_db (rs_tracker s')"
proof -
  let ?rd = "sample_reader 3 [chain_delayed\<lparr>dim_seq_num := 1\<rparr>, chain_delayed\<lparr>dim_seq_num := 2\<rparr>] 2 6 [] []"
  let ?old = "[(0, 0, sample_legacy)] :: delayed_msg list" and ?again = "[(1, 0, sample_legacy)] :: delayed_msg list"
    and ?new = "[(2, 0, sample_legacy)] :: delayed_msg list"
  have tuples: "delayed_tuples [chain_delayed\<lparr>dim_seq_num := 1\<rparr>, chain_delayed\<lparr>dim_seq_num := 2\<rparr>] = Ok (?again @ ?new)"
    by (simp add: chain_delayed_def sample_legacy)
  have start: "resume_block 5 (?old @ ?again) = 17"
    using parse_serialize_legacy [OF sample_legacy]
    by (simp add: resume_block_def sample_message_def sample_header_def)
  have acc2: "acc_from (\<lambda>_. 0) 0 [sample_legacy, sample_legacy] = 0"
    using parse_serialize_legacy [OF sample_legacy] by (simp add: acc_after_def hash_after_def)
  have holds: "holds ref_env map_of map_of (rs_tracker (reader_at busier)) (bodies (?old @ ?again)) [first_batch, second_batch]"
    using busier_holds by simp
  have log: "log_rep (ev_rlp ref_env) (map_of (tr_db (rs_tracker (reader_at busier)))) (map entry sample_msgs)"
    using busier_log by simp
  have acc: "accumulator second_batch = 6" by (simp add: second_batch_def)
  have "\<exists>win s' t. start_reader ?rd 0 1 (reader_at busier) = (Ok win, s') \<and>
    log_rep (ev_rlp ref_env) (map_of (tr_db (rs_tracker s'))) (map entry sample_msgs) \<and>
    holds ref_env map_of map_of (rs_tracker s') (bodies ((?old @ ?again) @ ?new)) [first_batch] \<and>
    add_sequencer_batches_and_stream ref_env [(sample_batch two_segments 1)\<lparr>sequence_number := 1\<rparr>] (rs_tracker s') =
      (Ok (), t) \<and> tr_db t = tr_db (rs_tracker s')"
    by (rule restart_drops_batches [OF ref_tracker _ log holds busier_in_step, where start = 17 and tip = 100 and height = 100
          and to_block = 100 and count = 3 and dl = "[chain_delayed\<lparr>dim_seq_num := 1\<rparr>, chain_delayed\<lparr>dim_seq_num := 2\<rparr>]"
          and again = ?again and old = ?old and new = ?new])
       (use tuples start acc acc2 busy_acc in \<open>simp_all add: counts_grow_def second_counts agrees_delayed_def agrees_batches_def
          sample_well_formed default_reader_config_def sat_add_def sat_sub_def\<close>)
  then show ?thesis by simp
qed

end
