(* ===== verification/Reader_Windows.thy ===== *)
theory Reader_Windows
  imports Reader_Props
begin

text \<open>
  Where the reader looks: the blocks its lookups ask for, in every run of the loop at the head of the chain.
  A reader whose lookups panic outside a range is compared with the reader itself: when the two run alike,
  the reader asks for nothing outside that range.
\<close>

section \<open>Lookups that panic\<close>

text \<open>
  The range of blocks a lookup of batches may ask for: it does not start before the first message block, is not
  empty, ends at or below the height \<open>H\<close>, and has at most the configured number of blocks after its first.
\<close>

definition lookup_in_range :: "('db, 'c, 'w) InboxReader \<Rightarrow> u64 \<Rightarrow> u64 \<Rightarrow> u64 \<Rightarrow> bool" where
  "lookup_in_range rd H a b \<longleftrightarrow>
     first_message_block rd \<le> a \<and> a \<le> b \<and> b \<le> max H (first_message_block rd) \<and>
     unat b \<le> unat a + unat (max_blocks_to_read (rd_config rd))"

definition guarded :: "('db, 'c, 'w) InboxReader \<Rightarrow> u64 \<Rightarrow> ('db, 'c, 'w) InboxReader" where
  "guarded rd H = rd
     \<lparr>delayed_bridge := (delayed_bridge rd)\<lparr>bridge_lookup := \<lambda>a b.
        if first_message_block rd \<le> a then bridge_lookup (delayed_bridge rd) a b else liftR Panic\<rparr>,
      sequencer_inbox := (sequencer_inbox rd)\<lparr>inbox_lookup := \<lambda>a b.
        if lookup_in_range rd H a b then inbox_lookup (sequencer_inbox rd) a b else liftR Panic\<rparr>\<rparr>"

text \<open>\<open>heads_upto rd H\<close>: no header the reader is told of is above \<open>H\<close>.\<close>

definition heads_upto :: "('db, 'c, 'w) InboxReader \<Rightarrow> u64 \<Rightarrow> bool" where
  "heads_upto rd H \<longleftrightarrow>
     (\<forall>w h. fst (last_header (l1_reader rd) w) = Ok h \<longrightarrow> h \<le> H) \<and>
     (\<forall>w h. fst (next_wake rd w) = Ok (Header h) \<longrightarrow> h \<le> H)"

lemma guarded_simps [simp]:
  "rd_env (guarded rd H) = rd_env rd" "l1_reader (guarded rd H) = l1_reader rd"
  "next_wake (guarded rd H) = next_wake rd" "first_message_block (guarded rd H) = first_message_block rd"
  "rd_config (guarded rd H) = rd_config rd"
  "bridge_message_count (delayed_bridge (guarded rd H)) = bridge_message_count (delayed_bridge rd)"
  "bridge_accumulator (delayed_bridge (guarded rd H)) = bridge_accumulator (delayed_bridge rd)"
  "inbox_batch_count (sequencer_inbox (guarded rd H)) = inbox_batch_count (sequencer_inbox rd)"
  "inbox_accumulator (sequencer_inbox (guarded rd H)) = inbox_accumulator (sequencer_inbox rd)"
  "inbox_message_bytes (sequencer_inbox (guarded rd H)) = inbox_message_bytes (sequencer_inbox rd)"
  "inbox_tx_input (sequencer_inbox (guarded rd H)) = inbox_tx_input (sequencer_inbox rd)"
  "first_message_block rd \<le> a \<Longrightarrow>
     bridge_lookup (delayed_bridge (guarded rd H)) a b = bridge_lookup (delayed_bridge rd) a b"
  "lookup_in_range rd H a b \<Longrightarrow>
     inbox_lookup (sequencer_inbox (guarded rd H)) a b = inbox_lookup (sequencer_inbox rd) a b"
  by (simp_all add: guarded_def)

section \<open>Runs that are alike\<close>

lemma bindM_alike: "(\<And>x s'. m s = (Ok x, s') \<Longrightarrow> f x s' = g x s') \<Longrightarrow> bindM m f s = bindM m g s"
  by (auto simp: bindM_def split: prod.split result.split)

lemma matchM_alike: "(\<And>x s'. m s = (Ok x, s') \<Longrightarrow> f x s' = g x s') \<Longrightarrow> matchM m f h s = matchM m g h s"
  by (auto simp: matchM_def split: prod.split result.split)

lemma matchM_Ok_iff:
  "matchM m f h s = (Ok y, t) \<longleftrightarrow>
     (\<exists>x s'. m s = (Ok x, s') \<and> f x s' = (Ok y, t)) \<or> (\<exists>e s'. m s = (Err e, s') \<and> h e s' = (Ok y, t))"
  by (auto simp: matchM_def split: prod.split result.split)

text \<open>\<open>ensures m s P\<close>: when \<open>m\<close> succeeds from \<open>s\<close>, its value satisfies \<open>P\<close>.\<close>

definition ensures :: "('s, 'a) M \<Rightarrow> 's \<Rightarrow> ('a \<Rightarrow> bool) \<Rightarrow> bool" where
  "ensures m s P \<longleftrightarrow> (\<forall>x s'. m s = (Ok x, s') \<longrightarrow> P x)"

lemma ensures_bind: "(\<And>x s'. m s = (Ok x, s') \<Longrightarrow> ensures (f x) s' P) \<Longrightarrow> ensures (bindM m f) s P"
  by (auto simp: ensures_def bindM_Ok_iff)

lemma ensures_rules:
  "P x \<Longrightarrow> ensures (okM x) s P"
  "(b \<Longrightarrow> ensures m s P) \<Longrightarrow> (\<not> b \<Longrightarrow> ensures m' s P) \<Longrightarrow> ensures (if b then m else m') s P"
  "(\<And>c d. p = (c, d) \<Longrightarrow> ensures (f c d) s P) \<Longrightarrow> ensures (case p of (c, d) \<Rightarrow> f c d) s P"
  by (auto simp: ensures_def okM_def split: prod.split)

text \<open>The parts of an iteration that make no lookup.\<close>

lemma guarded_wait_latest [simp]: "wait_latest (guarded rd H) n needed = wait_latest rd n needed"
  by (induction n) (rule ext, simp cong: if_cong wake.case_cong)+

lemma guarded_safe [simp]: "safe_or_finalized (guarded rd H) = safe_or_finalized rd"
  by (simp add: safe_or_finalized_def cong: if_cong)

lemma guarded_wait_finality [simp]: "wait_finality (guarded rd H) n a = wait_finality rd n a"
  by (induction n) (rule ext, simp cong: if_cong)+

lemma guarded_below_head [simp]: "below_head (guarded rd H) h = below_head rd h"
  by (simp add: below_head_def Let_def cong: if_cong)

lemma guarded_await_height [simp]: "await_height (guarded rd H) wakes a = await_height rd wakes a"
  by (simp add: await_height_def Let_def cong: if_cong)

lemma guarded_checks [simp]:
  "check_delayed (guarded rd H) h = check_delayed rd h" "check_sequencer (guarded rd H) h = check_sequencer rd h"
  by (simp_all add: check_delayed_def check_sequencer_def Let_def cong: if_cong)

lemma guarded_batch_data [simp]: "batch_data (guarded rd H) b = batch_data rd b"
  by (simp add: batch_data_def Let_def cong: if_cong)

lemma guarded_fill_batches [simp]: "fill_batches (guarded rd H) bs = fill_batches rd bs"
  by (induction bs) simp_all

lemma guarded_prev [simp]: "get_prev_block_for_reorg (guarded rd H) a n = get_prev_block_for_reorg rd a n"
  by (simp add: get_prev_block_for_reorg_def Let_def cong: if_cong)

lemma guarded_deliver [simp]: "deliver (guarded rd H) win seen good = deliver rd win seen good"
  by (simp add: deliver_def expected_batch_def Let_def cong: if_cong result.case_cong)

lemma guarded_mark_caught_up [simp]: "mark_caught_up (guarded rd H) = mark_caught_up rd"
  by (simp add: mark_caught_up_def Let_def cong: if_cong)

lemma guarded_next_block [simp]: "get_next_block_to_read (guarded rd H) = get_next_block_to_read rd"
  by (simp add: get_next_block_to_read_def Let_def cong: if_cong)

text \<open>The parts that make them.\<close>

lemma guarded_fetch_delayed:
  "first_message_block rd \<le> a \<Longrightarrow> fetch_delayed (guarded rd H) a b = fetch_delayed rd a b"
  by (simp add: fetch_delayed_def cong: if_cong)

lemma guarded_backfill:
  assumes "first_message_block rd \<le> a"
  shows "backfill (guarded rd H) a b good s = backfill rd a b good s"
proof -
  have parent: "first_message_block rd \<le> start"
    if "matchM m (\<lambda>(_, _, parent_block). okM (max parent_block (first_message_block rd))) (\<lambda>_. okM a) s1 = (Ok start, s2)"
    for m start s1 s2
    using that assms by (auto simp: matchM_def okM_def split: prod.splits result.splits)
  have same: "first_message_block rd \<le> start" if "okM a s1 = (Ok start, s2)" for start s1 s2
    using that assms by (simp add: okM_def)
  show ?thesis
    unfolding backfill_def Let_def guarded_simps
    by (intro bindM_alike if_cong refl ext) (auto intro!: bindM_alike dest: parent same)
qed

lemma guarded_fetch_batches:
  assumes "lookup_in_range rd H (win_from win) b"
  shows "fetch_batches (guarded rd H) win b seen s = fetch_batches rd win b seen s"
proof -
  have "first_message_block rd \<le> win_from win" using assms by (simp add: lookup_in_range_def)
  note backfill = guarded_backfill [OF this]
  show ?thesis
    unfolding fetch_batches_def guarded_simps(13) [OF assms] guarded_fill_batches
    by (intro bindM_alike) (simp add: bindM_def backfill)
qed

section \<open>Where an iteration reads\<close>

lemma wait_latest_head:
  assumes "heads_upto rd H" and "h \<le> H"
  shows "wait_latest rd n needed h s = (Ok h', s') \<Longrightarrow> h' \<le> H"
  using assms(2)
proof (induction n arbitrary: h s)
  case (Suc n)
  show ?case
  proof (cases "needed \<le> h")
    case False
    with Suc.prems(1) obtain w s1 h1 s2 where "on_chain (next_wake rd) s = (Ok w, s1)"
      and "(case w of Header h \<Rightarrow> okM h | _ \<Rightarrow> on_chain (last_header (l1_reader rd))) s1 = (Ok h1, s2)"
      and "wait_latest rd n needed h1 s2 = (Ok h', s')"
      by (auto simp: bindM_Ok_iff)
    with assms(1) Suc.IH show ?thesis
      by (auto simp: heads_upto_def on_chain_def okM_def split: wake.splits prod.splits) (metis fst_conv)+
  qed (use Suc.prems in \<open>simp add: okM_def\<close>)
qed (auto simp: okM_def liftR_def split: if_splits)

lemma below_head_upto:
  assumes "h \<le> H"
  shows "below_head rd h \<le> max H (first_message_block rd)"
proof -
  let ?d = "delay_blocks (rd_config rd)"
  have "(if ?d > 0 then (if h \<ge> ?d then h - ?d else 0) else h) \<le> h" by (simp add: word_sub_le)
  with assms have "(if ?d > 0 then (if h \<ge> ?d then h - ?d else 0) else h) \<le> H" by (rule order_trans [rotated])
  then show ?thesis unfolding below_head_def Let_def by (intro max.mono order_refl)
qed

lemma await_height_upto:
  assumes "heads_upto rd H" and "read_mode (rd_config rd) = ''latest''" and "first_message_block rd \<le> from_block"
    and "await_height rd wakes from_block s = (Ok (height, start), s')"
  shows "first_message_block rd \<le> start" "start \<le> height" "height \<le> max H (first_message_block rd)"
proof -
  obtain h s1 h1 s2 where tip: "on_chain (last_header (l1_reader rd)) s = (Ok h, s1)"
    and wait: "wait_latest rd wakes (sat_add from_block
      (delay_blocks (rd_config rd) + sat_sub (min_blocks_to_read (rd_config rd)) 1)) h s1 = (Ok h1, s2)"
    and height: "height = below_head rd h1" "start = min from_block height"
    using assms(2,4) by (auto simp: await_height_def bindM_Ok_iff Let_def okM_def)
  have "h \<le> H" using tip assms(1) by (auto simp: heads_upto_def on_chain_def split: prod.splits) (metis fst_conv)
  from wait_latest_head [OF assms(1) this wait] height assms(3) below_head_first [of rd h1]
  show "first_message_block rd \<le> start" "start \<le> height" "height \<le> max H (first_message_block rd)"
    by (simp_all add: below_head_upto)
qed

lemma le_sat_add: "a \<le> b \<Longrightarrow> a \<le> sat_add b c"
  using unat_lt64 [of b] by (simp add: word_le_nat_alt unat_sat_add del: unat_lt64)

lemma window_in_range:
  assumes "first_message_block rd \<le> start" "start \<le> height" "height \<le> max H (first_message_block rd)"
    and "blocks \<le> max_blocks_to_read (rd_config rd)"
  shows "lookup_in_range rd H start (min (sat_add start blocks) height)"
proof -
  have "start \<le> sat_add start blocks" by (simp add: le_sat_add)
  moreover have "unat (min (sat_add start blocks) height) \<le> unat start + unat (max_blocks_to_read (rd_config rd))"
  proof -
    have "unat (min (sat_add start blocks) height) \<le> unat (sat_add start blocks)"
      by (simp add: word_le_nat_alt [symmetric])
    also have "\<dots> \<le> unat start + unat blocks" by (simp add: unat_sat_add)
    also have "\<dots> \<le> unat start + unat (max_blocks_to_read (rd_config rd))"
      using assms(4) by (simp add: word_le_nat_alt)
    finally show ?thesis .
  qed
  ultimately show ?thesis using assms(1-3) by (simp add: lookup_in_range_def min_le_iff_disj)
qed

text \<open>\<open>window_ok rd win\<close>: where a window may start, and how large it may be.\<close>

definition window_ok :: "('db, 'c, 'w) InboxReader \<Rightarrow> window \<Rightarrow> bool" where
  "window_ok rd win \<longleftrightarrow>
     first_message_block rd \<le> win_from win \<and> win_blocks win \<le> max_blocks_to_read (rd_config rd)"

lemma prev_block_first: "get_prev_block_for_reorg rd a n = Ok b \<Longrightarrow> first_message_block rd \<le> b"
  by (rule get_prev_block_back)

lemma deliver_window:
  assumes "window_ok rd win" and "min_blocks_to_read (rd_config rd) \<le> max_blocks_to_read (rd_config rd)"
    and "deliver rd win seen good s = (Ok (n, seen', win'), s')"
  shows "window_ok rd win'"
  using assms
  by (auto simp: deliver_def bindM_Ok_iff matchM_Ok_iff Let_def okM_def window_ok_def prev_block_first
      split: if_splits result.split)

lemma fetch_batches_window:
  assumes "window_ok rd win" and "min_blocks_to_read (rd_config rd) \<le> max_blocks_to_read (rd_config rd)"
    and "fetch_batches rd win to_block seen s = (Ok (n, seen', win'), s')"
  shows "window_ok rd win'"
  using assms(1,3) deliver_window [OF assms(1,2)]
  by (auto simp: fetch_batches_def bindM_Ok_iff okM_def split: if_splits)

section \<open>Iterations\<close>

text \<open>
  One iteration of the guarded reader is one of the reader, and leaves a window that is in order: the parts
  after the checks, for a range that is, then the whole.
\<close>

lemma guarded_iteration:
  assumes "heads_upto rd H" and "read_mode (rd_config rd) = ''latest''" and "window_ok rd win"
  shows "reader_iteration (guarded rd H) wakes win s = reader_iteration rd wakes win s"
proof -
  have look: "lookup_in_range rd H start (min (sat_add start (win_blocks win)) height)" "first_message_block rd \<le> start"
    if "await_height rd wakes (win_from win) s1 = (Ok (height, start), s2)" for height start s1 s2
  proof -
    have "first_message_block rd \<le> win_from win" using assms(3) by (simp add: window_ok_def)
    note up = await_height_upto [OF assms(1,2) this that]
    then show "first_message_block rd \<le> start" by simp
    show "lookup_in_range rd H start (min (sat_add start (win_blocks win)) height)"
      by (rule window_in_range) (use up assms(3) in \<open>simp_all add: window_ok_def\<close>)
  qed
  show ?thesis
    unfolding reader_iteration_def Let_def guarded_await_height guarded_checks guarded_mark_caught_up
      guarded_prev guarded_simps(1-5)
  proof (rule bindM_alike, goal_cases)
    case (1 x s1)
    obtain height start where x: "x = (height, start)" by (cases x)
    note range = look [OF 1 [unfolded x]]
    let ?to = "min (sat_add start (win_blocks win)) height"
    have "fetch_delayed (guarded rd H) start ?to = fetch_delayed rd start ?to"
      "\<And>seen. fetch_batches (guarded rd H) (win\<lparr>win_from := start\<rparr>) ?to seen =
        fetch_batches rd (win\<lparr>win_from := start\<rparr>) ?to seen"
      using range by (auto simp: guarded_fetch_delayed guarded_fetch_batches)
    then show ?case by (simp add: x cong: if_cong)
  qed
qed

lemma iteration_window:
  assumes "heads_upto rd H" and "read_mode (rd_config rd) = ''latest''"
    and cfg: "min_blocks_to_read (rd_config rd) \<le> max_blocks_to_read (rd_config rd)"
    and "default_blocks_to_read (rd_config rd) \<le> max_blocks_to_read (rd_config rd)"
    and "window_ok rd win" and run: "reader_iteration rd wakes win s = (Ok win', s')"
  shows "window_ok rd win'"
proof -
  have at: "first_message_block rd \<le> height \<and> window_ok rd (win\<lparr>win_from := start\<rparr>) \<and>
      first_message_block rd \<le> min (sat_add start (win_blocks win)) height"
    if "await_height rd wakes (win_from win) s = (Ok (height, start), s1)" for height start s1
  proof -
    have "first_message_block rd \<le> win_from win" using assms(5) by (simp add: window_ok_def)
    note up = await_height_upto [OF assms(1,2) this that]
    then have "first_message_block rd \<le> height" by simp
    with up assms(5) show ?thesis by (simp add: window_ok_def le_sat_add)
  qed
  have fetched: "first_message_block rd \<le> win_from w"
    if "(if b then fetch_batches rd (win\<lparr>win_from := start\<rparr>) to_block seen
         else okM (0, seen, win\<lparr>win_from := start\<rparr>)) s1 = (Ok (len, seen', w), s2)"
      and "window_ok rd (win\<lparr>win_from := start\<rparr>)" for b start to_block seen s1 len seen' w s2
    using that fetch_batches_window [OF that(2) cfg]
    by (auto simp: okM_def window_ok_def split: if_splits)
  have "ensures (reader_iteration rd wakes win) s (window_ok rd)"
    unfolding reader_iteration_def Let_def
  proof (intro ensures_bind ensures_rules, goal_cases)
    case (1 x s1 height start)
    with at [of height start s1] show ?case
      using assms(4) by (simp add: window_ok_def le_sat_add)
  next
    case 2
    then show ?case using cfg by (auto simp: window_ok_def liftR_def prev_block_first)
  next
    case (3 x s1 height start)
    with at [of height start s1] show ?case
      by (auto simp: window_ok_def [of _ "\<lparr>win_from = _, win_blocks = _\<rparr>"] le_sat_add next_blocks_between [OF cfg]
          dest: fetched)
  qed
  with run show ?thesis by (simp add: ensures_def)
qed

lemma guarded_iterations:
  assumes "heads_upto rd H" and "read_mode (rd_config rd) = ''latest''"
    and "min_blocks_to_read (rd_config rd) \<le> max_blocks_to_read (rd_config rd)"
    and "default_blocks_to_read (rd_config rd) \<le> max_blocks_to_read (rd_config rd)"
    and "window_ok rd win"
  shows "reader_iterations (guarded rd H) wakes n win s = reader_iterations rd wakes n win s"
    and "reader_iterations rd wakes n win s = (Ok win', s') \<Longrightarrow> window_ok rd win'"
proof -
  show "reader_iterations (guarded rd H) wakes n win s = reader_iterations rd wakes n win s"
    using assms(5)
  proof (induction n arbitrary: win s)
    case (Suc n)
    have "bindM (reader_iteration rd wakes win) (reader_iterations (guarded rd H) wakes n) s =
        bindM (reader_iteration rd wakes win) (reader_iterations rd wakes n) s"
      by (rule bindM_alike) (rule Suc.IH [OF iteration_window [OF assms(1-4) Suc.prems]])
    with guarded_iteration [OF assms(1,2) Suc.prems] show ?case by (simp add: bindM_def)
  qed simp
  show "reader_iterations rd wakes n win s = (Ok win', s') \<Longrightarrow> window_ok rd win'"
    using assms(5)
  proof (induction n arbitrary: win s)
    case (Suc n)
    then show ?case using iteration_window [OF assms(1-4)] by (auto simp: bindM_Ok_iff)
  qed (simp add: okM_def)
qed

lemma next_block_first: "get_next_block_to_read rd s = (Ok b, s') \<Longrightarrow> first_message_block rd \<le> b"
  by (auto simp: get_next_block_to_read_def bindM_Ok_iff okM_def Let_def split: if_splits)



end
