(* ===== verification/Spec2Isabelle.thy ===== *)
theory Spec2Isabelle
  imports Service_Props Rpc_Props Poster_Props Bridge_Lookup Genesis_Props Config_Props Chain_Props Reader_Run_Props Reader_Windows Mux_Props Wire_Correct
begin

text \<open>
  A verification development of \<open>nitro-rs\<close>, a node that follows an Arbitrum chain: it reads delayed
  messages and sequencer batches from contracts of the parent chain, turns them into one log of
  messages, and hands the log, message by message, to an execution engine (reth).

  \<^bold>\<open>The parts and how they interact.\<close>  The inbox reader (\<open>inbox-reader/src/reader.rs\<close>) asks the bridges
  (\<open>inbox-bridge\<close>) what the parent chain has, and calls the inbox tracker
  (\<open>inbox/src/tracker.rs\<close>).  The tracker records delayed messages with the chain of their accumulators
  and the metadata of batches, drains a multiplexer (\<open>inbox/src/multiplexer.rs\<close>) over new batches, and
  appends the messages it gets to the log of the streamer (\<open>streamer/src/streamer.rs\<close>).  The streamer's
  own loop executes the log through the engine adapter (\<open>node/src/engine_adapter.rs\<close>).  The batch
  poster (\<open>batch-poster/src/poster.rs\<close>, \<open>node/src/segment_source.rs\<close>) posts messages of the log
  back to the parent chain, the RPC backend (\<open>rpc/src/lib.rs\<close>) answers queries and takes messages, and
  \<open>bin/arb-nitro-rs/src/main.rs\<close> and \<open>node/src/service.rs\<close> configure and start all of it.
  Everything is kept in one ordered key-value store (\<open>db-sled/src/lib.rs\<close>).

  \<^bold>\<open>Theories.\<close>  Models of the code:
  \<^item> \<open>Prelude\<close>: \<open>Result\<close> with panics (\<open>result\<close>), state passing (\<open>M\<close>, \<open>bindM\<close>), big-endian words,
    saturating arithmetic.  \<open>Dbkeys\<close>: \<open>primitives/src/dbkeys.rs\<close>.  \<open>Codec\<close>: the interface of
    \<open>alloy_rlp\<close>.  \<open>L1\<close>, \<open>Message\<close>: \<open>primitives/src/l1.rs\<close>, \<open>message.rs\<close>, \<open>accumulator.rs\<close>.
  \<^item> \<open>Db\<close>: \<open>inbox/src/db.rs\<close> and its implementation on sled, \<open>inbox/src/util.rs\<close>.
  \<^item> \<open>Multiplexer\<close>, \<open>Tracker\<close>, \<open>Streamer\<close>, \<open>EngineAdapter\<close>: the files of these names; the state of the
    tracker is the database and the cache of metadata (\<open>tracker\<close>), that of the streamer the database.
  \<^item> \<open>Bridge\<close>, \<open>EthSequencer\<close>, \<open>EthDelayed\<close>, \<open>Client\<close>: the traits and the files of \<open>inbox-bridge/src\<close>.
  \<^item> \<open>Reader\<close>: the inbox reader.  \<open>Poster\<close>: the batch poster and its source.  \<open>RpcBackend\<close>: the RPC backend.
  \<^item> \<open>Genesis\<close>, \<open>NodeConfig\<close>, \<open>Service\<close>: \<open>node/src/genesis.rs\<close>; \<open>main.rs\<close>, \<open>config.rs\<close>, \<open>chaininfo.rs\<close> and
    the settings of \<open>service.rs\<close>; the construction of the parts in \<open>service.rs\<close>, the feed server, and the validator.

  Lemmas and properties:
  \<^item> \<open>Wire_Correct\<close>: round trips of all formats, scans and batches of the store.
  \<^item> \<open>Streamer_Correct\<close>, \<open>Engine_Correct\<close>, \<open>Log_Results\<close>, \<open>Log_Keys\<close>, \<open>Streamer_Props\<close>: the database as a list of
    messages (\<open>log_rep\<close>) and a list of results (\<open>results_rep\<close>), every operation as one on these lists, and
    which keys (\<open>new_keys\<close>, \<open>dropped\<close>) an append and a reorg write and delete, all others being left alone.
  \<^item> \<open>Mux_Correct\<close>, \<open>Mux_Counts\<close>, \<open>Mux_Props\<close>: the state machine against a one-pass description of the
    messages of a batch (\<open>batch_messages\<close>), and its counts against those of the metadata.
  \<^item> \<open>Inbox_Rep\<close>, \<open>Tracker_Delayed\<close>, \<open>Tracker_Batches\<close>, \<open>Tracker_Stream\<close>, \<open>Tracker_Props\<close>: the database as a
    list of delayed messages and a list of metadata (\<open>inbox_rep\<close>), the refinement of every operation of
    the tracker, and a delivery that keeps log and metadata in step (\<open>in_step\<close>).
  \<^item> \<open>Reader_Correct\<close>, \<open>Reader_Props\<close>: an iteration of the reader over a parent chain whose answers are
    known.  \<open>Reader_Run\<close>, \<open>Reader_Run_Props\<close>: its loop on a chain that stands still (\<open>still_chain\<close>), from
    window to window, until everything is read (and then executed), or for ever before a gap;
    and what a restart does.  \<open>Reader_Windows\<close>: which blocks its lookups ask for, in every run.
  \<^item> \<open>Bridge_Props\<close>, \<open>Bridge_Lookup\<close>: what the decoders make of events, and a whole lookup of delayed messages
    against the events of the two contracts (\<open>tells_delivered\<close>, \<open>tells_data\<close>).
  \<^item> \<open>Chain_Run\<close>, \<open>Chain_Props\<close>: runs of the whole node (\<open>node_run\<close>), as an inductive relation: deliveries in
    pieces, executions and restarts; what the node stores is determined by what the chain said.
  \<^item> \<open>Poster_Props\<close>, \<open>Rpc_Props\<close>, \<open>Genesis_Props\<close>, \<open>Config_Props\<close>, \<open>Service_Props\<close>: the properties of these
    parts.
  \<^item> \<open>Reference\<close>, \<open>Reference_Node\<close>: a concrete codec, store, cache and node, on which the locales are
    interpreted and the witnesses evaluated.

  \<^bold>\<open>Interfaces.\<close>  \<open>alloy_rlp\<close> (a record of codecs, each a \<open>codec\<close>), \<open>sled_store\<close> (the crate sled),
  \<open>database\<close> (the trait; the sled implementation is a sublocale), \<open>lru_cache\<close>, \<open>node_store\<close> and
  \<open>tracker_node\<close> (what streamer and tracker run on), and \<open>batch_source\<close> (what the multiplexer
  asks of its source; the tracker's source is a sublocale).  Laws of code outside the repository are
  assumptions of these locales and hold in the interpretations.

  \<^bold>\<open>Effects.\<close>  A fallible function returns \<open>Ok\<close>, \<open>Err\<close> or \<open>Panic\<close>; a stateful one is a function from the
  state to a result and the next state, which an error keeps.  Calls that leave the process (the
  parent chain, reth, the compressor, keccak256, files, JSON, the wallet) are parameters, those that
  may answer differently from call to call being actions on a world.

  \<^bold>\<open>Fuel.\<close>  Loops that end are total functions.  \<open>pop_all\<close> drains the multiplexer with \<open>pop_fuel\<close>, for each
  batch the most messages it can have, \<open>2 ^ 64\<close> delayed and \<open>100 * 1024\<close> own ones, and two calls more; that it
  is enough is part of the theorems on draining.  The payload loop of the engine adapter ends after 61
  calls.  The endless loops (\<open>start\<close> of reader, streamer and poster) are given a number of rounds, and
  waiting for the parent chain a number of wake-ups; theorems hold for every number, or say that some
  number (reading a whole chain) or a given one (executing a whole log) is enough.

  \<^bold>\<open>Not modelled.\<close>  Opening the database on disk, logging, pauses and the scheduling of tasks; launching reth
  (a parameter) and what it does with the payloads; the cost
  estimate of the poster, which is only logged; the table of \<open>node/src/addresses.rs\<close>, which nothing
  reads.  The tasks of the node share the database; in the model one call runs at a time, as the
  interleaving of whole calls in \<open>node_run\<close>.  Three things are not steps of \<open>node_run\<close>, because the log
  does not follow the chain after them: a crash between the two writes of one call
  (\<open>batches_skipped_when_ahead\<close>), a reorg of the parent chain that drops batches, after which
  the log keeps their messages (\<open>reorg_strands_log\<close>), and delayed messages handed over a second time, as
  a restarted reader does when the chain has gone on (\<open>restart_drops_batches\<close>).
\<close>

end
